(* ===== verification/Tris_Prelude.thy ===== *)
theory Tris_Prelude
  imports Main "HOL-Library.Word" "HOL-Library.Monad_Syntax"
begin

unbundle bit_operations_syntax

text \<open>
  The shared ground of the development: the machine types, the C idioms the program uses on
  character arrays, return codes as values, and the generic lemmas on lists and words that the
  components rely on.

  \<^item> A C \<open>int\<close> used as a socket, a code or an identifier is an \<open>int\<close>; \<open>uint8_t\<close> and
    \<open>uint32_t\<close> are words, and the casts between them are the functions below.
  \<^item> A \<open>char\<close> is HOL's \<open>char\<close> (eight bits); a character array is the list of all its elements,
    of the declared length, with the terminating NUL and whatever follows it.
  \<^item> A C function that returns -1 on failure returns \<open>Inl Minus1\<close>; success is \<open>Inr\<close> of what the
    function stores in its output parameters.
  \<^item> An access outside an array is the value \<open>None\<close> of an enclosing \<open>option\<close>, so that
    "never accesses memory out of bounds" is a theorem.
\<close>

section \<open>Types and collections\<close>

type_synonym u8 = "8 word"
type_synonym u32 = "32 word"
type_synonym bytes = "u8 list"
type_synonym socket = int

datatype c_error = Minus1

type_synonym 'a result = "c_error + 'a"

named_theorems codec_simps \<open>how the byte readers consume what the byte writers produce\<close>
named_theorems array_simps \<open>lengths and contents of character arrays\<close>

section \<open>Integer casts\<close>

definition int_of_u32 :: "u32 \<Rightarrow> int" where
  "int_of_u32 w = sint w"

definition u32_of_int :: "int \<Rightarrow> u32" where
  "u32_of_int i = word_of_int i"

definition u8_of_char :: "char \<Rightarrow> u8" where
  "u8_of_char c = of_char c"

definition char_of_u8 :: "u8 \<Rightarrow> char" where
  "char_of_u8 b = char_of (unat b)"

lemma u32_of_int_of_u32 [simp]: "u32_of_int (int_of_u32 w) = w"
  by (simp add: u32_of_int_def int_of_u32_def)

lemma int_of_u32_of_int:
  "- (2 ^ 31) \<le> i \<Longrightarrow> i < 2 ^ 31 \<Longrightarrow> int_of_u32 (u32_of_int i) = i"
  by (simp add: u32_of_int_def int_of_u32_def sint_sbintrunc' signed_take_bit_int_eq_self)

lemma unat_u8_of_char [simp]: "unat (u8_of_char c) = of_char c"
proof -
  have "u8_of_char c = of_nat (of_char c)"
    by (simp add: u8_of_char_def of_nat_of_char)
  then show ?thesis
    by (simp add: unat_of_nat)
qed

lemma char_of_u8_of_char [simp]: "char_of_u8 (u8_of_char c) = c"
  by (simp add: char_of_u8_def)

lemma u8_of_char_of_u8 [simp]: "u8_of_char (char_of_u8 b) = b"
proof -
  have "unat b < 256"
    using unsigned_less [of b, where ?'a = nat] by simp
  then have "unat (u8_of_char (char_of_u8 b)) = unat b"
    by (simp add: char_of_u8_def)
  then show ?thesis by (simp only: word_unat_eq_iff)
qed

lemma map_char_u8 [simp]:
  "map char_of_u8 (map u8_of_char cs) = cs" "map u8_of_char (map char_of_u8 bs) = bs"
  by (simp_all add: comp_def)

section \<open>Character arrays\<close>

abbreviation NUL :: char where
  "NUL \<equiv> CHR 0x00"

text \<open>The text an array holds: everything before the first NUL.\<close>

definition cstr :: "string \<Rightarrow> string" where
  "cstr a = takeWhile (\<lambda>c. c \<noteq> NUL) a"

text \<open>
  \<open>strncpy(dst, src, n)\<close>: the characters of \<open>src\<close> up to its NUL, at most \<open>n\<close> of them, padded
  with NUL to exactly \<open>n\<close>; the rest of \<open>dst\<close> is untouched. \<open>src\<close> is the memory from the source
  pointer on.
\<close>

definition strncpy :: "string \<Rightarrow> string \<Rightarrow> nat \<Rightarrow> string" where
  "strncpy dst src n =
     (let s = take n (cstr src) in s @ replicate (n - length s) NUL @ drop n dst)"

text \<open>The program's copy idiom: \<open>strncpy(dst, src, n - 1); dst[n - 1] = '\0'\<close>.\<close>

definition copy_string :: "string \<Rightarrow> string \<Rightarrow> nat \<Rightarrow> string" where
  "copy_string dst src n = (strncpy dst src (n - 1))[n - 1 := NUL]"

text \<open>
  \<open>snprintf(dst, n, ...)\<close> with the formatted text \<open>s\<close>: at most \<open>n - 1\<close> characters and a NUL;
  what follows the NUL in \<open>dst\<close> keeps its old content.
\<close>

definition snprintf :: "string \<Rightarrow> nat \<Rightarrow> string \<Rightarrow> string" where
  "snprintf dst n s = (let t = take (n - 1) s in t @ [NUL] @ drop (length t + 1) dst)"

definition zeros :: "nat \<Rightarrow> string" where
  "zeros n = replicate n NUL"

lemma length_zeros [simp, array_simps]: "length (zeros n) = n"
  by (simp add: zeros_def)

lemma length_strncpy [simp, array_simps]:
  "length (strncpy dst src n) = n + (length dst - n)"
  by (simp add: strncpy_def Let_def)

lemma length_copy_string [array_simps]:
  "length dst = n \<Longrightarrow> 0 < n \<Longrightarrow> length (copy_string dst src n) = n"
  by (simp add: copy_string_def)

lemma NUL_copy_string: "length dst = n \<Longrightarrow> 0 < n \<Longrightarrow> NUL \<in> set (copy_string dst src n)"
  by (simp add: copy_string_def set_update_memI)

lemma length_snprintf [array_simps]:
  "length dst = n \<Longrightarrow> 0 < n \<Longrightarrow> length (snprintf dst n s) = n"
  by (simp add: snprintf_def Let_def min_def)

lemma cstr_append_NUL: "NUL \<notin> set s \<Longrightarrow> cstr (s @ NUL # t) = s"
  unfolding cstr_def by (subst takeWhile_append2) auto

lemma NUL_notin_cstr [simp]: "NUL \<notin> set (cstr s)"
  by (auto simp: cstr_def dest: set_takeWhileD)

lemma NUL_notin_take [simp]: "NUL \<notin> set s \<Longrightarrow> NUL \<notin> set (take n s)"
  by (meson in_set_takeD)

lemma cstr_snprintf [array_simps]: "NUL \<notin> set s \<Longrightarrow> cstr (snprintf dst n s) = take (n - 1) s"
  by (simp add: snprintf_def Let_def cstr_append_NUL)

lemma cstr_copy_string [array_simps]:
  assumes "length dst = n" "0 < n"
  shows "cstr (copy_string dst src n) = take (n - 1) (cstr src)"
proof -
  let ?s = "take (n - 1) (cstr src)"
  obtain d where d: "drop (n - 1) dst = [d]"
    using assms by (metis Suc_pred' append_take_drop_id diff_diff_cancel diff_le_self
        length_Suc_conv length_drop One_nat_def Suc_leI length_0_conv)
  have "copy_string dst src n = ?s @ NUL # replicate (n - 1 - length ?s) NUL"
    unfolding copy_string_def strncpy_def Let_def d
    using assms by (simp add: list_update_append replicate_append_same)
  then show ?thesis by (simp add: cstr_append_NUL)
qed

lemma cstr_zeros [simp]: "cstr (zeros n) = []"
  by (cases n) (simp_all add: cstr_def zeros_def)

lemma cstr_append_zeros [simp]: "cstr (s @ zeros n) = cstr s"
proof (cases "NUL \<in> set s")
  case True
  then show ?thesis by (simp add: cstr_def takeWhile_append1)
next
  case False
  then have n: "\<And>c. c \<in> set s \<Longrightarrow> c \<noteq> NUL" by auto
  have "takeWhile (\<lambda>c. c \<noteq> NUL) (s @ t) = s @ takeWhile (\<lambda>c. c \<noteq> NUL) t" for t
    by (rule takeWhile_append2) (rule n)
  from this [of "zeros n"] this [of "[]"] show ?thesis
    using cstr_zeros [of n] by (simp add: cstr_def del: takeWhile_eq_all_conv)
qed

text \<open>The decimal text of a natural number, as \<open>%d\<close> prints it.\<close>

fun decimal :: "nat \<Rightarrow> string" where
  "decimal n = (if n < 10 then [char_of (48 + n)] else decimal (n div 10) @ [char_of (48 + n mod 10)])"

declare decimal.simps [simp del]

definition decimal_int :: "int \<Rightarrow> string" where
  "decimal_int i = (if i < 0 then CHR ''-'' # decimal (nat (- i)) else decimal (nat i))"

section \<open>Lists\<close>

text \<open>A loop that appends the encoding of each array element appends all of them in order.\<close>

lemma fold_append_nth:
  "fold (\<lambda>i p. p @ f (xs ! i)) [0..<length xs] p = p @ concat (map f xs)"
proof (induction xs arbitrary: p rule: rev_induct)
  case Nil
  then show ?case by simp
next
  case (snoc x xs)
  have "fold (\<lambda>i p. p @ f ((xs @ [x]) ! i)) [0..<length xs] p =
        fold (\<lambda>i p. p @ f (xs ! i)) [0..<length xs] p"
    by (rule fold_cong) (auto simp: nth_append)
  then show ?case by (simp add: snoc.IH)
qed

lemma fold_append_nth_n:
  "length xs = n \<Longrightarrow> fold (\<lambda>i p. p @ f (xs ! i)) [0..<n] p = p @ concat (map f xs)"
  using fold_append_nth [of f xs p] by simp

lemma map_sum_Inr: "map_sum id f r = Inr y \<Longrightarrow> (\<And>x. r = Inr x \<Longrightarrow> y = f x \<Longrightarrow> P) \<Longrightarrow> P"
  by (cases r) auto

lemma list_all2_right: "list_all2 P xs ys \<Longrightarrow> y \<in> set ys \<Longrightarrow> \<exists>x \<in> set xs. P x y"
  by (induction rule: list_all2_induct) auto

lemma find_Some_mem: "find P xs = Some x \<Longrightarrow> x \<in> set xs \<and> P x"
  by (auto simp: find_Some_iff)

end
