(* ===== verification/Protocol_Types.thy ===== *)
theory Protocol_Types
  imports Tris_Prelude
begin

text \<open>
  The data model of \<open>common/include/protocol.h\<close>: the enumerations, the payload structures and
  the tagged union \<open>Message\<close>.

  An enumeration object in C may hold a value that has no name: \<open>(GameState)read_uint8(&p)\<close>
  stores whatever byte arrived. Each enumeration therefore has, beside the source's
  constructors, one constructor for the unnamed codes, and a pair of functions for the two
  casts. A union is the datatype of its members, with \<open>Zeroed\<close> for the state after \<open>memset\<close>;
  reading a member yields the stored structure, or the all-zero one after \<open>memset\<close>.
\<close>

section \<open>Enumerations\<close>

datatype MessageType =
    MSG_CREATE_GAME | MSG_JOIN_GAME | MSG_MOVE | MSG_LEAVE_GAME | MSG_LIST_GAMES
  | MSG_GAME_STATE | MSG_GAME_LIST | MSG_GAME_START | MSG_GAME_OVER | MSG_JOIN_REQUEST
  | MSG_JOIN_DECISION | MSG_LOBBY_UPDATE | MSG_GAME_STATUS_CHANGE | MSG_POST_GAME_OPTIONS
  | MSG_SET_USERNAME | MSG_ERROR
  | MSG_unnamed u32

fun MessageType_code :: "MessageType \<Rightarrow> u32" where
  "MessageType_code MSG_CREATE_GAME = 1"
| "MessageType_code MSG_JOIN_GAME = 2"
| "MessageType_code MSG_MOVE = 3"
| "MessageType_code MSG_LEAVE_GAME = 4"
| "MessageType_code MSG_LIST_GAMES = 5"
| "MessageType_code MSG_GAME_STATE = 6"
| "MessageType_code MSG_GAME_LIST = 7"
| "MessageType_code MSG_GAME_START = 8"
| "MessageType_code MSG_GAME_OVER = 9"
| "MessageType_code MSG_JOIN_REQUEST = 10"
| "MessageType_code MSG_JOIN_DECISION = 11"
| "MessageType_code MSG_LOBBY_UPDATE = 12"
| "MessageType_code MSG_GAME_STATUS_CHANGE = 13"
| "MessageType_code MSG_POST_GAME_OPTIONS = 14"
| "MessageType_code MSG_SET_USERNAME = 15"
| "MessageType_code MSG_ERROR = 16"
| "MessageType_code (MSG_unnamed c) = c"

definition named_message_types :: "MessageType list" where
  "named_message_types =
     [MSG_CREATE_GAME, MSG_JOIN_GAME, MSG_MOVE, MSG_LEAVE_GAME, MSG_LIST_GAMES, MSG_GAME_STATE,
      MSG_GAME_LIST, MSG_GAME_START, MSG_GAME_OVER, MSG_JOIN_REQUEST, MSG_JOIN_DECISION,
      MSG_LOBBY_UPDATE, MSG_GAME_STATUS_CHANGE, MSG_POST_GAME_OPTIONS, MSG_SET_USERNAME,
      MSG_ERROR]"

definition MessageType_of_code :: "u32 \<Rightarrow> MessageType" where
  "MessageType_of_code c =
     (case find (\<lambda>t. MessageType_code t = c) named_message_types of
        Some t \<Rightarrow> t | None \<Rightarrow> MSG_unnamed c)"

lemma MessageType_code_of_code [simp]: "MessageType_code (MessageType_of_code c) = c"
  by (auto simp: MessageType_of_code_def split: option.split dest: find_Some_mem)

lemma MessageType_of_code_named:
  "t \<in> set named_message_types \<Longrightarrow> MessageType_of_code (MessageType_code t) = t"
  by (auto simp: named_message_types_def MessageType_of_code_def)

datatype GameState =
  GAME_NEW | GAME_WAITING | GAME_IN_PROGRESS | GAME_FINISHED | GameState_unnamed u8

fun GameState_code :: "GameState \<Rightarrow> u8" where
  "GameState_code GAME_NEW = 0"
| "GameState_code GAME_WAITING = 1"
| "GameState_code GAME_IN_PROGRESS = 2"
| "GameState_code GAME_FINISHED = 3"
| "GameState_code (GameState_unnamed c) = c"

definition GameState_of_code :: "u8 \<Rightarrow> GameState" where
  "GameState_of_code c =
     (if c = 0 then GAME_NEW else if c = 1 then GAME_WAITING else if c = 2 then GAME_IN_PROGRESS
      else if c = 3 then GAME_FINISHED else GameState_unnamed c)"

datatype GameResult =
  RESULT_WIN | RESULT_LOSS | RESULT_DRAW | RESULT_NONE | GameResult_unnamed u8

fun GameResult_code :: "GameResult \<Rightarrow> u8" where
  "GameResult_code RESULT_WIN = 0"
| "GameResult_code RESULT_LOSS = 1"
| "GameResult_code RESULT_DRAW = 2"
| "GameResult_code RESULT_NONE = 3"
| "GameResult_code (GameResult_unnamed c) = c"

definition GameResult_of_code :: "u8 \<Rightarrow> GameResult" where
  "GameResult_of_code c =
     (if c = 0 then RESULT_WIN else if c = 1 then RESULT_LOSS else if c = 2 then RESULT_DRAW
      else if c = 3 then RESULT_NONE else GameResult_unnamed c)"

datatype Player = PLAYER_X | PLAYER_O | Player_unnamed u8

fun Player_code :: "Player \<Rightarrow> u8" where
  "Player_code PLAYER_X = 0"
| "Player_code PLAYER_O = 1"
| "Player_code (Player_unnamed c) = c"

definition Player_of_code :: "u8 \<Rightarrow> Player" where
  "Player_of_code c = (if c = 0 then PLAYER_X else if c = 1 then PLAYER_O else Player_unnamed c)"

subsection \<open>The interface of the one-byte enumerations\<close>

text \<open>
  What the codec needs of an enumeration sent as one byte: casting a byte to the enumeration
  and back loses nothing. A value is \<open>canonical\<close> when the other way round holds too, which is
  the case for every named value.
\<close>

locale byte_enum =
  fixes code :: "'e \<Rightarrow> u8" and of_code :: "u8 \<Rightarrow> 'e"
  assumes code_of_code [simp]: "code (of_code b) = b"
begin

definition canonical :: "'e \<Rightarrow> bool" where
  "canonical e \<longleftrightarrow> of_code (code e) = e"

lemma canonical_of_code [simp]: "canonical (of_code b)"
  by (simp add: canonical_def)

lemma canonical_inj: "canonical e \<Longrightarrow> canonical e' \<Longrightarrow> code e = code e' \<Longrightarrow> e = e'"
  by (metis canonical_def)

lemma of_code_code: "canonical e \<Longrightarrow> of_code (code e) = e"
  by (simp add: canonical_def)

end

interpretation game_state: byte_enum GameState_code GameState_of_code
  by unfold_locales (simp add: GameState_of_code_def)

interpretation game_result: byte_enum GameResult_code GameResult_of_code
  by unfold_locales (simp add: GameResult_of_code_def)

interpretation player: byte_enum Player_code Player_of_code
  by unfold_locales (simp add: Player_of_code_def)

lemma canonical_named [simp]:
  "game_state.canonical GAME_NEW" "game_state.canonical GAME_WAITING"
  "game_state.canonical GAME_IN_PROGRESS" "game_state.canonical GAME_FINISHED"
  "game_result.canonical RESULT_WIN" "game_result.canonical RESULT_LOSS"
  "game_result.canonical RESULT_DRAW" "game_result.canonical RESULT_NONE"
  "player.canonical PLAYER_X" "player.canonical PLAYER_O"
  by (simp_all add: game_state.canonical_def game_result.canonical_def player.canonical_def
      GameState_of_code_def GameResult_of_code_def Player_of_code_def)

text \<open>\<open>memset(p, 0, n)\<close> leaves the enumerator whose code is 0.\<close>

instantiation GameState :: zero
begin

definition zero_GameState :: GameState where
  "0 = GAME_NEW"

instance ..

end

instantiation GameResult :: zero
begin

definition zero_GameResult :: GameResult where
  "0 = RESULT_WIN"

instance ..

end

instantiation Player :: zero
begin

definition zero_Player :: Player where
  "0 = PLAYER_X"

instance ..

end

lemma zero_enum_code [simp]:
  "GameState_code 0 = 0" "GameResult_code 0 = 0" "Player_code 0 = 0"
  by (simp_all add: zero_GameState_def zero_GameResult_def zero_Player_def)

section \<open>Payload structures\<close>

record GameCommonState =
  board :: "string list"
  current_turn :: Player
  gstate :: GameState
  result_player_x :: GameResult
  result_player_o :: GameResult
  player_role :: Player

record MovePayload =
  mv_game_id :: u32
  mv_row :: u8
  mv_col :: u8

record GameStatePayload =
  gs_game_id :: u32
  gs_state_data :: GameCommonState
  gs_message :: string

record ErrorPayload =
  err_message :: string

record GameListPayload =
  gl_game_ids :: "u32 list"
  gl_game_count :: u8
  gl_game_states :: "GameState list"

record GameStartPayload =
  st_game_id :: u32
  st_player_role :: Player
  st_first_player :: Player

record GameOverPayload =
  ov_game_id :: u32
  ov_winner :: u8
  ov_message :: string

record JoinRequestPayload =
  jr_game_id :: u32
  jr_player_id :: u32
  jr_player_name :: string

record JoinDecisionPayload =
  jd_game_id :: u32
  jd_accepted :: u8

record LobbyGameInfo =
  li_game_id :: u32
  li_state :: GameState
  li_owner_name :: string
  li_players_connected :: int

record LobbyUpdatePayload =
  lu_game_count :: u8
  lu_games :: "LobbyGameInfo list"

record GameStatusChangePayload =
  sc_game_id :: u32
  sc_new_state :: GameState
  sc_message :: string

record PostGameOptionsPayload =
  pg_game_id :: u32
  pg_continue :: u8

record SetUsernamePayload =
  su_username :: string

section \<open>The message\<close>

datatype Payload =
    Zeroed
  | Move MovePayload
  | Game_state GameStatePayload
  | Error ErrorPayload
  | Game_list GameListPayload
  | Game_start GameStartPayload
  | Game_over GameOverPayload
  | Join_request JoinRequestPayload
  | Join_decision JoinDecisionPayload
  | Lobby_update LobbyUpdatePayload
  | Status_change GameStatusChangePayload
  | Post_game_options PostGameOptionsPayload
  | Set_username SetUsernamePayload

record Message =
  msg_type :: MessageType
  payload :: Payload

subsection \<open>All-zero structures\<close>

definition zero_GameCommonState :: GameCommonState where
  "zero_GameCommonState =
     \<lparr>board = replicate 3 (zeros 3), current_turn = 0, gstate = 0, result_player_x = 0,
      result_player_o = 0, player_role = 0\<rparr>"

definition zero_LobbyGameInfo :: LobbyGameInfo where
  "zero_LobbyGameInfo =
     \<lparr>li_game_id = 0, li_state = 0, li_owner_name = zeros 32, li_players_connected = 0\<rparr>"

definition zero_MovePayload :: MovePayload where
  "zero_MovePayload = \<lparr>mv_game_id = 0, mv_row = 0, mv_col = 0\<rparr>"

definition zero_GameStatePayload :: GameStatePayload where
  "zero_GameStatePayload =
     \<lparr>gs_game_id = 0, gs_state_data = zero_GameCommonState, gs_message = zeros 64\<rparr>"

definition zero_ErrorPayload :: ErrorPayload where
  "zero_ErrorPayload = \<lparr>err_message = zeros 64\<rparr>"

definition zero_GameListPayload :: GameListPayload where
  "zero_GameListPayload =
     \<lparr>gl_game_ids = replicate 10 0, gl_game_count = 0, gl_game_states = replicate 10 0\<rparr>"

definition zero_GameStartPayload :: GameStartPayload where
  "zero_GameStartPayload = \<lparr>st_game_id = 0, st_player_role = 0, st_first_player = 0\<rparr>"

definition zero_GameOverPayload :: GameOverPayload where
  "zero_GameOverPayload = \<lparr>ov_game_id = 0, ov_winner = 0, ov_message = zeros 64\<rparr>"

definition zero_JoinRequestPayload :: JoinRequestPayload where
  "zero_JoinRequestPayload = \<lparr>jr_game_id = 0, jr_player_id = 0, jr_player_name = zeros 32\<rparr>"

definition zero_JoinDecisionPayload :: JoinDecisionPayload where
  "zero_JoinDecisionPayload = \<lparr>jd_game_id = 0, jd_accepted = 0\<rparr>"

definition zero_LobbyUpdatePayload :: LobbyUpdatePayload where
  "zero_LobbyUpdatePayload = \<lparr>lu_game_count = 0, lu_games = replicate 10 zero_LobbyGameInfo\<rparr>"

definition zero_GameStatusChangePayload :: GameStatusChangePayload where
  "zero_GameStatusChangePayload = \<lparr>sc_game_id = 0, sc_new_state = 0, sc_message = zeros 128\<rparr>"

definition zero_PostGameOptionsPayload :: PostGameOptionsPayload where
  "zero_PostGameOptionsPayload = \<lparr>pg_game_id = 0, pg_continue = 0\<rparr>"

definition zero_SetUsernamePayload :: SetUsernamePayload where
  "zero_SetUsernamePayload = \<lparr>su_username = zeros 32\<rparr>"

lemmas zero_payload_defs =
  zero_GameCommonState_def zero_LobbyGameInfo_def zero_MovePayload_def zero_GameStatePayload_def
  zero_ErrorPayload_def zero_GameListPayload_def zero_GameStartPayload_def
  zero_GameOverPayload_def zero_JoinRequestPayload_def zero_JoinDecisionPayload_def
  zero_LobbyUpdatePayload_def zero_GameStatusChangePayload_def zero_PostGameOptionsPayload_def
  zero_SetUsernamePayload_def

subsection \<open>Reading a member of the union\<close>

text \<open>
  The program reads only the member that was written last, or any member of a union that
  \<open>memset\<close> cleared; the value in the other cases is never looked at.
\<close>

definition payload_move :: "Payload \<Rightarrow> MovePayload" where
  "payload_move p = (case p of Move m \<Rightarrow> m | _ \<Rightarrow> zero_MovePayload)"

definition payload_game_state :: "Payload \<Rightarrow> GameStatePayload" where
  "payload_game_state p = (case p of Game_state m \<Rightarrow> m | _ \<Rightarrow> zero_GameStatePayload)"

definition payload_error :: "Payload \<Rightarrow> ErrorPayload" where
  "payload_error p = (case p of Error m \<Rightarrow> m | _ \<Rightarrow> zero_ErrorPayload)"

definition payload_game_list :: "Payload \<Rightarrow> GameListPayload" where
  "payload_game_list p = (case p of Game_list m \<Rightarrow> m | _ \<Rightarrow> zero_GameListPayload)"

definition payload_game_start :: "Payload \<Rightarrow> GameStartPayload" where
  "payload_game_start p = (case p of Game_start m \<Rightarrow> m | _ \<Rightarrow> zero_GameStartPayload)"

definition payload_game_over :: "Payload \<Rightarrow> GameOverPayload" where
  "payload_game_over p = (case p of Game_over m \<Rightarrow> m | _ \<Rightarrow> zero_GameOverPayload)"

definition payload_join_request :: "Payload \<Rightarrow> JoinRequestPayload" where
  "payload_join_request p = (case p of Join_request m \<Rightarrow> m | _ \<Rightarrow> zero_JoinRequestPayload)"

definition payload_join_decision :: "Payload \<Rightarrow> JoinDecisionPayload" where
  "payload_join_decision p = (case p of Join_decision m \<Rightarrow> m | _ \<Rightarrow> zero_JoinDecisionPayload)"

definition payload_lobby_update :: "Payload \<Rightarrow> LobbyUpdatePayload" where
  "payload_lobby_update p = (case p of Lobby_update m \<Rightarrow> m | _ \<Rightarrow> zero_LobbyUpdatePayload)"

definition payload_status_change :: "Payload \<Rightarrow> GameStatusChangePayload" where
  "payload_status_change p = (case p of Status_change m \<Rightarrow> m | _ \<Rightarrow> zero_GameStatusChangePayload)"

definition payload_post_game_options :: "Payload \<Rightarrow> PostGameOptionsPayload" where
  "payload_post_game_options p =
     (case p of Post_game_options m \<Rightarrow> m | _ \<Rightarrow> zero_PostGameOptionsPayload)"

definition payload_set_username :: "Payload \<Rightarrow> SetUsernamePayload" where
  "payload_set_username p = (case p of Set_username m \<Rightarrow> m | _ \<Rightarrow> zero_SetUsernamePayload)"

lemmas payload_member_defs =
  payload_move_def payload_game_state_def payload_error_def payload_game_list_def
  payload_game_start_def payload_game_over_def payload_join_request_def
  payload_join_decision_def payload_lobby_update_def payload_status_change_def
  payload_post_game_options_def payload_set_username_def

lemma payload_members [simp]:
  "payload_move (Move m1) = m1" "payload_game_state (Game_state m2) = m2"
  "payload_error (Error m3) = m3" "payload_game_list (Game_list m4) = m4"
  "payload_game_start (Game_start m5) = m5" "payload_game_over (Game_over m6) = m6"
  "payload_join_request (Join_request m7) = m7" "payload_join_decision (Join_decision m8) = m8"
  "payload_lobby_update (Lobby_update m9) = m9" "payload_status_change (Status_change m10) = m10"
  "payload_post_game_options (Post_game_options m11) = m11"
  "payload_set_username (Set_username m12) = m12"
  "payload_move Zeroed = zero_MovePayload"
  by (simp_all add: payload_member_defs)

section \<open>Well-formed structures\<close>

text \<open>
  The types of C give every array its declared length. \<open>wf_\<close> says so of the lists, and that
  the enumerations hold canonical values, the \<open>int\<close> fields 32-bit values and the two Boolean
  bytes 0 or 1.
\<close>

definition wf_GameCommonState :: "GameCommonState \<Rightarrow> bool" where
  "wf_GameCommonState s \<longleftrightarrow>
     length (board s) = 3 \<and> (\<forall>row \<in> set (board s). length row = 3) \<and>
     player.canonical (current_turn s) \<and> game_state.canonical (gstate s) \<and>
     game_result.canonical (result_player_x s) \<and> game_result.canonical (result_player_o s) \<and>
     player.canonical (player_role s)"

definition wf_LobbyGameInfo :: "LobbyGameInfo \<Rightarrow> bool" where
  "wf_LobbyGameInfo g \<longleftrightarrow>
     game_state.canonical (li_state g) \<and> length (li_owner_name g) = 32 \<and>
     - (2 ^ 31) \<le> li_players_connected g \<and> li_players_connected g < 2 ^ 31"

definition wf_GameStatePayload :: "GameStatePayload \<Rightarrow> bool" where
  "wf_GameStatePayload p \<longleftrightarrow> wf_GameCommonState (gs_state_data p) \<and> length (gs_message p) = 64"

definition wf_ErrorPayload :: "ErrorPayload \<Rightarrow> bool" where
  "wf_ErrorPayload p \<longleftrightarrow> length (err_message p) = 64"

definition wf_GameListPayload :: "GameListPayload \<Rightarrow> bool" where
  "wf_GameListPayload p \<longleftrightarrow>
     length (gl_game_ids p) = 10 \<and> length (gl_game_states p) = 10 \<and>
     (\<forall>s \<in> set (gl_game_states p). game_state.canonical s)"

definition wf_GameStartPayload :: "GameStartPayload \<Rightarrow> bool" where
  "wf_GameStartPayload p \<longleftrightarrow>
     player.canonical (st_player_role p) \<and> player.canonical (st_first_player p)"

definition wf_GameOverPayload :: "GameOverPayload \<Rightarrow> bool" where
  "wf_GameOverPayload p \<longleftrightarrow> length (ov_message p) = 64"

definition wf_JoinRequestPayload :: "JoinRequestPayload \<Rightarrow> bool" where
  "wf_JoinRequestPayload p \<longleftrightarrow> length (jr_player_name p) = 32"

definition wf_JoinDecisionPayload :: "JoinDecisionPayload \<Rightarrow> bool" where
  "wf_JoinDecisionPayload p \<longleftrightarrow> jd_accepted p = 0 \<or> jd_accepted p = 1"

definition wf_LobbyUpdatePayload :: "LobbyUpdatePayload \<Rightarrow> bool" where
  "wf_LobbyUpdatePayload p \<longleftrightarrow> length (lu_games p) = 10 \<and> (\<forall>g \<in> set (lu_games p). wf_LobbyGameInfo g)"

definition wf_GameStatusChangePayload :: "GameStatusChangePayload \<Rightarrow> bool" where
  "wf_GameStatusChangePayload p \<longleftrightarrow>
     game_state.canonical (sc_new_state p) \<and> length (sc_message p) = 128"

definition wf_PostGameOptionsPayload :: "PostGameOptionsPayload \<Rightarrow> bool" where
  "wf_PostGameOptionsPayload p \<longleftrightarrow> pg_continue p = 0 \<or> pg_continue p = 1"

definition wf_SetUsernamePayload :: "SetUsernamePayload \<Rightarrow> bool" where
  "wf_SetUsernamePayload p \<longleftrightarrow> length (su_username p) = 32"

lemmas wf_payload_defs =
  wf_GameCommonState_def wf_LobbyGameInfo_def wf_GameStatePayload_def wf_ErrorPayload_def
  wf_GameListPayload_def wf_GameStartPayload_def wf_GameOverPayload_def
  wf_JoinRequestPayload_def wf_JoinDecisionPayload_def wf_LobbyUpdatePayload_def
  wf_GameStatusChangePayload_def wf_PostGameOptionsPayload_def wf_SetUsernamePayload_def

text \<open>
  A message is well-formed when its payload is the member its type selects, and well-formed
  itself. The types without a payload go with any member: the sender ignores it.
\<close>

definition wf_message :: "Message \<Rightarrow> bool" where
  "wf_message m \<longleftrightarrow>
     (case msg_type m of
        MSG_MOVE \<Rightarrow> (case payload m of Move p \<Rightarrow> True | _ \<Rightarrow> False)
      | MSG_GAME_STATE \<Rightarrow> (case payload m of Game_state p \<Rightarrow> wf_GameStatePayload p | _ \<Rightarrow> False)
      | MSG_ERROR \<Rightarrow> (case payload m of Error p \<Rightarrow> wf_ErrorPayload p | _ \<Rightarrow> False)
      | MSG_GAME_LIST \<Rightarrow> (case payload m of Game_list p \<Rightarrow> wf_GameListPayload p | _ \<Rightarrow> False)
      | MSG_GAME_START \<Rightarrow> (case payload m of Game_start p \<Rightarrow> wf_GameStartPayload p | _ \<Rightarrow> False)
      | MSG_GAME_OVER \<Rightarrow> (case payload m of Game_over p \<Rightarrow> wf_GameOverPayload p | _ \<Rightarrow> False)
      | MSG_JOIN_REQUEST \<Rightarrow>
          (case payload m of Join_request p \<Rightarrow> wf_JoinRequestPayload p | _ \<Rightarrow> False)
      | MSG_JOIN_GAME \<Rightarrow> (case payload m of Join_request p \<Rightarrow> wf_JoinRequestPayload p | _ \<Rightarrow> False)
      | MSG_JOIN_DECISION \<Rightarrow>
          (case payload m of Join_decision p \<Rightarrow> wf_JoinDecisionPayload p | _ \<Rightarrow> False)
      | MSG_LOBBY_UPDATE \<Rightarrow>
          (case payload m of Lobby_update p \<Rightarrow> wf_LobbyUpdatePayload p | _ \<Rightarrow> False)
      | MSG_GAME_STATUS_CHANGE \<Rightarrow>
          (case payload m of Status_change p \<Rightarrow> wf_GameStatusChangePayload p | _ \<Rightarrow> False)
      | MSG_POST_GAME_OPTIONS \<Rightarrow>
          (case payload m of Post_game_options p \<Rightarrow> wf_PostGameOptionsPayload p | _ \<Rightarrow> False)
      | MSG_SET_USERNAME \<Rightarrow>
          (case payload m of Set_username p \<Rightarrow> wf_SetUsernamePayload p | _ \<Rightarrow> False)
      | MSG_unnamed c \<Rightarrow> False
      | _ \<Rightarrow> True)"

end
