(* ===== verification/Board.thy ===== *)
theory Board
  imports Protocol_Types
begin

text \<open>
  The board: \<open>game_check_winner\<close> (\<open>server/src/game.c\<close>, lines 19 to 56) and the rules of
  tic-tac-toe it is checked against.

  \<open>game_check_winner\<close> returns whether the game is over and the value it stores in
  \<open>*out_winner\<close>, an \<open>int\<close> that mixes the codes of \<open>Player\<close> (0 and 1) and of \<open>GameResult\<close>
  (\<open>RESULT_DRAW\<close> = 2, \<open>RESULT_NONE\<close> = 3).

  The rules are stated independently of the code: eight \<open>lines\<close>, a player wins who has marked a
  whole line, and \<open>legal ms b\<close> says that playing the moves \<open>ms\<close> alternately from the empty
  board, each on a free cell of a game not yet won, leads to the board \<open>b\<close>.
\<close>

section \<open>The code\<close>

definition cell :: "string list \<Rightarrow> nat \<Rightarrow> nat \<Rightarrow> char" where
  "cell b i j = b ! i ! j"

definition int_of_Player :: "Player \<Rightarrow> int" where
  "int_of_Player p = uint (Player_code p)"

definition int_of_GameResult :: "GameResult \<Rightarrow> int" where
  "int_of_GameResult r = uint (GameResult_code r)"

definition winner_of_cell :: "char \<Rightarrow> int" where
  "winner_of_cell c = (if c = CHR ''X'' then int_of_Player PLAYER_X else int_of_Player PLAYER_O)"

text \<open>The first loop: row \<open>i\<close>, then column \<open>i\<close>.\<close>

fun check_rows_cols :: "string list \<Rightarrow> nat list \<Rightarrow> int option" where
  "check_rows_cols b [] = None"
| "check_rows_cols b (i # is) =
     (if cell b i 0 \<noteq> CHR '' '' \<and> cell b i 0 = cell b i 1 \<and> cell b i 1 = cell b i 2
      then Some (winner_of_cell (cell b i 0))
      else if cell b 0 i \<noteq> CHR '' '' \<and> cell b 0 i = cell b 1 i \<and> cell b 1 i = cell b 2 i
      then Some (winner_of_cell (cell b 0 i))
      else check_rows_cols b is)"

definition game_check_winner :: "string list \<Rightarrow> bool \<times> int" where
  "game_check_winner b =
     (case check_rows_cols b [0, 1, 2] of
        Some w \<Rightarrow> (True, w)
      | None \<Rightarrow>
          if cell b 0 0 \<noteq> CHR '' '' \<and> cell b 0 0 = cell b 1 1 \<and> cell b 1 1 = cell b 2 2
          then (True, winner_of_cell (cell b 0 0))
          else if cell b 0 2 \<noteq> CHR '' '' \<and> cell b 0 2 = cell b 1 1 \<and> cell b 1 1 = cell b 2 0
          then (True, winner_of_cell (cell b 0 2))
          else if \<exists>i \<in> set [0, 1, 2]. \<exists>j \<in> set [0, 1, 2]. cell b i j = CHR '' ''
          then (False, int_of_GameResult RESULT_NONE)
          else (True, int_of_GameResult RESULT_DRAW))"

definition empty_board :: "string list" where
  "empty_board = [[CHR '' '', CHR '' '', CHR '' ''], [CHR '' '', CHR '' '', CHR '' ''],
                  [CHR '' '', CHR '' '', CHR '' '']]"

definition place :: "string list \<Rightarrow> nat \<Rightarrow> nat \<Rightarrow> char \<Rightarrow> string list" where
  "place b r c x = b[r := (b ! r)[c := x]]"

definition mark :: "Player \<Rightarrow> char" where
  "mark p = (if p = PLAYER_X then CHR ''X'' else CHR ''O'')"

section \<open>The rules of the game\<close>

text \<open>The eight lines, in the order in which the code looks at them.\<close>

definition lines :: "(nat \<times> nat) list list" where
  "lines =
     [[(0, 0), (0, 1), (0, 2)], [(0, 0), (1, 0), (2, 0)],
      [(1, 0), (1, 1), (1, 2)], [(0, 1), (1, 1), (2, 1)],
      [(2, 0), (2, 1), (2, 2)], [(0, 2), (1, 2), (2, 2)],
      [(0, 0), (1, 1), (2, 2)], [(0, 2), (1, 1), (2, 0)]]"

definition has_line :: "Player \<Rightarrow> string list \<Rightarrow> bool" where
  "has_line p b \<longleftrightarrow> (\<exists>l \<in> set lines. \<forall>(i, j) \<in> set l. cell b i j = mark p)"

definition full :: "string list \<Rightarrow> bool" where
  "full b \<longleftrightarrow> (\<forall>i \<in> {0, 1, 2}. \<forall>j \<in> {0, 1, 2}. cell b i j \<noteq> CHR '' '')"

definition board_shape :: "string list \<Rightarrow> bool" where
  "board_shape b \<longleftrightarrow> length b = 3 \<and> (\<forall>row \<in> set b. length row = 3)"

definition marks_only :: "string list \<Rightarrow> bool" where
  "marks_only b \<longleftrightarrow>
     (\<forall>i < 3. \<forall>j < 3. cell b i j \<in> {CHR '' '', mark PLAYER_X, mark PLAYER_O})"

datatype outcome = Won Player | Drawn | Undecided

definition outcome :: "string list \<Rightarrow> outcome" where
  "outcome b =
     (if has_line PLAYER_X b then Won PLAYER_X
      else if has_line PLAYER_O b then Won PLAYER_O
      else if full b then Drawn else Undecided)"

fun outcome_code :: "outcome \<Rightarrow> bool \<times> int" where
  "outcome_code (Won p) = (True, int_of_Player p)"
| "outcome_code Drawn = (True, int_of_GameResult RESULT_DRAW)"
| "outcome_code Undecided = (False, int_of_GameResult RESULT_NONE)"

text \<open>Whose turn it is after \<open>n\<close> moves.\<close>

definition turn_after :: "nat \<Rightarrow> Player" where
  "turn_after n = (if even n then PLAYER_X else PLAYER_O)"

inductive legal :: "(nat \<times> nat) list \<Rightarrow> string list \<Rightarrow> bool" where
  legal_start: "legal [] empty_board"
| legal_move: "legal ms b \<Longrightarrow> outcome b = Undecided \<Longrightarrow> r < 3 \<Longrightarrow> c < 3 \<Longrightarrow> cell b r c = CHR '' '' \<Longrightarrow>
     legal (ms @ [(r, c)]) (place b r c (mark (turn_after (length ms))))"

section \<open>Cells\<close>

lemma cell_empty [simp]: "i < 3 \<Longrightarrow> j < 3 \<Longrightarrow> cell empty_board i j = CHR '' ''"
  by (auto simp: cell_def empty_board_def less_Suc_eq numeral_3_eq_3)

lemma board_shape_empty [simp]: "board_shape empty_board"
  by (simp add: board_shape_def empty_board_def)

lemma board_shape_row: "board_shape b \<Longrightarrow> r < 3 \<Longrightarrow> length (b ! r) = 3"
  by (simp add: board_shape_def)

lemma board_shape_place [simp]: "board_shape b \<Longrightarrow> r < 3 \<Longrightarrow> board_shape (place b r c x)"
  by (auto simp: board_shape_def place_def dest!: set_update_subset_insert [THEN subsetD])

lemma cell_place:
  "board_shape b \<Longrightarrow> r < 3 \<Longrightarrow> c < 3 \<Longrightarrow> i < 3 \<Longrightarrow> j < 3 \<Longrightarrow>
   cell (place b r c x) i j = (if i = r \<and> j = c then x else cell b i j)"
  by (auto simp: cell_def place_def board_shape_def nth_list_update)

lemma mark_simps [simp]:
  "mark PLAYER_X = CHR ''X''" "mark PLAYER_O = CHR ''O''" "mark p \<noteq> CHR '' ''"
  by (simp_all add: mark_def)

lemma line_in_board: "l \<in> set lines \<Longrightarrow> (i, j) \<in> set l \<Longrightarrow> i < 3 \<and> j < 3"
  by (auto simp: lines_def)

section \<open>The code decides the rules\<close>

text \<open>A line is taken when its three cells hold the same mark; the code looks for the first one.\<close>

definition taken :: "string list \<Rightarrow> (nat \<times> nat) list \<Rightarrow> bool" where
  "taken b l \<longleftrightarrow> (\<exists>c. c \<noteq> CHR '' '' \<and> (\<forall>(i, j) \<in> set l. cell b i j = c))"

definition line_owner :: "string list \<Rightarrow> (nat \<times> nat) list \<Rightarrow> char" where
  "line_owner b l = (case hd l of (i, j) \<Rightarrow> cell b i j)"

lemma taken_triple:
  "taken b [(i, j), (k, l), (m, n)] \<longleftrightarrow>
   cell b i j \<noteq> CHR '' '' \<and> cell b i j = cell b k l \<and> cell b k l = cell b m n"
  by (auto simp: taken_def)

definition row_line :: "nat \<Rightarrow> (nat \<times> nat) list" where
  "row_line i = [(i, 0), (i, 1), (i, 2)]"

definition col_line :: "nat \<Rightarrow> (nat \<times> nat) list" where
  "col_line i = [(0, i), (1, i), (2, i)]"

lemma lines_split:
  "lines = concat (map (\<lambda>i. [row_line i, col_line i]) [0, 1, 2]) @
           [[(0, 0), (1, 1), (2, 2)], [(0, 2), (1, 1), (2, 0)]]"
  by (simp add: lines_def row_line_def col_line_def)

lemma check_rows_cols_step:
  "check_rows_cols b (i # is) =
     (if taken b (row_line i) then Some (winner_of_cell (line_owner b (row_line i)))
      else if taken b (col_line i) then Some (winner_of_cell (line_owner b (col_line i)))
      else check_rows_cols b is)"
  by (simp only: check_rows_cols.simps(2) row_line_def col_line_def taken_triple line_owner_def
      list.sel prod.case)

lemma check_rows_cols_find:
  "check_rows_cols b is =
     map_option (\<lambda>l. winner_of_cell (line_owner b l))
       (find (taken b) (concat (map (\<lambda>i. [row_line i, col_line i]) is)))"
  by (induction "is") (simp_all add: check_rows_cols_step del: check_rows_cols.simps(2))

lemma find_append:
  "find P (xs @ ys) = (case find P xs of None \<Rightarrow> find P ys | Some x \<Rightarrow> Some x)"
  by (induction xs) simp_all

lemma game_check_winner_taken:
  "game_check_winner b =
     (case check_rows_cols b [0, 1, 2] of
        Some w \<Rightarrow> (True, w)
      | None \<Rightarrow>
          if taken b [(0, 0), (1, 1), (2, 2)]
          then (True, winner_of_cell (line_owner b [(0, 0), (1, 1), (2, 2)]))
          else if taken b [(0, 2), (1, 1), (2, 0)]
          then (True, winner_of_cell (line_owner b [(0, 2), (1, 1), (2, 0)]))
          else if \<not> full b then (False, int_of_GameResult RESULT_NONE)
          else (True, int_of_GameResult RESULT_DRAW))"
proof -
  have "\<not> full b \<longleftrightarrow> (\<exists>i \<in> set [0, 1, 2]. \<exists>j \<in> set [0, 1, 2]. cell b i j = CHR '' '')"
    by (simp add: full_def)
  then show ?thesis
    by (simp only: game_check_winner_def taken_triple line_owner_def list.sel prod.case)
qed

lemma game_check_winner_find:
  "game_check_winner b =
     (case find (taken b) lines of
        Some l \<Rightarrow> (True, winner_of_cell (line_owner b l))
      | None \<Rightarrow> if full b then (True, int_of_GameResult RESULT_DRAW)
               else (False, int_of_GameResult RESULT_NONE))"
  unfolding game_check_winner_taken lines_split check_rows_cols_find find_append
  by (simp split: option.split)

text \<open>On a board with no foreign characters a taken line belongs to one of the players.\<close>

lemma taken_has_line:
  assumes "marks_only b" "l \<in> set lines" "taken b l"
  obtains p where "p = PLAYER_X \<or> p = PLAYER_O" "has_line p b" "line_owner b l = mark p"
proof -
  from assms(3) obtain c where c: "c \<noteq> CHR '' ''" "\<forall>(i, j) \<in> set l. cell b i j = c"
    by (auto simp: taken_def)
  have "l \<noteq> []" using assms(2) by (auto simp: lines_def)
  then obtain i j where hd: "hd l = (i, j)" "(i, j) \<in> set l"
    by (metis list.set_sel(1) surj_pair)
  with line_in_board [OF assms(2)] assms(1) c(2) have "c \<in> {CHR '' '', mark PLAYER_X, mark PLAYER_O}"
    unfolding marks_only_def by fast
  with c(1) obtain p where p: "c = mark p" "p = PLAYER_X \<or> p = PLAYER_O"
    by blast
  with assms(2) c(2) have "has_line p b" by (auto simp: has_line_def)
  moreover have "line_owner b l = mark p"
    using hd c(2) p(1) by (auto simp: line_owner_def)
  ultimately show ?thesis using that p(2) by blast
qed

lemma has_line_taken: "has_line p b \<Longrightarrow> \<exists>l \<in> set lines. taken b l"
proof -
  assume "has_line p b"
  then obtain l where "l \<in> set lines" "\<forall>(i, j) \<in> set l. cell b i j = mark p"
    by (auto simp: has_line_def)
  moreover have "mark p \<noteq> CHR '' ''" by simp
  ultimately show ?thesis unfolding taken_def by blast
qed

lemma check_winner_outcome:
  assumes "marks_only b" "\<not> (has_line PLAYER_X b \<and> has_line PLAYER_O b)"
  shows "game_check_winner b = outcome_code (outcome b)"
proof (cases "find (taken b) lines")
  case None
  then have "\<not> has_line p b" for p
    using has_line_taken by (auto simp: find_None_iff)
  with None show ?thesis by (simp add: game_check_winner_find outcome_def)
next
  case (Some l)
  then have "l \<in> set lines" "taken b l" by (auto dest: find_Some_mem)
  with assms(1) obtain p where p: "p = PLAYER_X \<or> p = PLAYER_O" "has_line p b" "line_owner b l = mark p"
    by (rule taken_has_line)
  with Some assms(2) show ?thesis
    by (auto simp: game_check_winner_find outcome_def winner_of_cell_def)
qed

section \<open>Legal plays\<close>

lemma legal_shape: "legal ms b \<Longrightarrow> board_shape b"
  by (induction rule: legal.induct) simp_all

text \<open>After a legal play the board shows exactly the moves: X's at even, O's at odd positions.\<close>

lemma legal_cells:
  "legal ms b \<Longrightarrow> distinct ms \<and> set ms \<subseteq> {0..<3} \<times> {0..<3} \<and>
   (\<forall>k < length ms. cell b (fst (ms ! k)) (snd (ms ! k)) = mark (turn_after k)) \<and>
   (\<forall>i < 3. \<forall>j < 3. (i, j) \<notin> set ms \<longrightarrow> cell b i j = CHR '' '')"
proof (induction rule: legal.induct)
  case legal_start
  then show ?case by simp
next
  case (legal_move ms b r c)
  let ?b = "place b r c (mark (turn_after (length ms)))"
  have shape: "board_shape b" by (rule legal_shape [OF legal_move.hyps(1)])
  have new: "(r, c) \<notin> set ms"
    using legal_move by (metis fst_conv snd_conv in_set_conv_nth mark_simps(3))
  have "cell ?b (fst (ms ! k)) (snd (ms ! k)) = mark (turn_after k)" if "k < length ms" for k
  proof -
    have "ms ! k \<in> set ms" using that by simp
    then have "fst (ms ! k) < 3" "snd (ms ! k) < 3" "ms ! k \<noteq> (r, c)"
      using legal_move.IH new by auto
    with that shape legal_move show ?thesis
      by (auto simp: cell_place prod_eq_iff)
  qed
  moreover have "cell ?b r c = mark (turn_after (length ms))"
    using shape legal_move by (simp add: cell_place)
  ultimately show ?case
    using legal_move new shape by (auto simp: nth_append cell_place less_Suc_eq)
qed

lemma legal_marks_only: "legal ms b \<Longrightarrow> marks_only b"
  unfolding marks_only_def
proof (intro allI impI)
  fix i j :: nat
  assume legal: "legal ms b" and "i < 3" "j < 3"
  show "cell b i j \<in> {CHR '' '', mark PLAYER_X, mark PLAYER_O}"
  proof (cases "(i, j) \<in> set ms")
    case True
    then obtain k where "k < length ms" "ms ! k = (i, j)" by (auto simp: in_set_conv_nth)
    with legal_cells [OF legal] have "cell b i j = mark (turn_after k)" by force
    then show ?thesis by (simp add: turn_after_def)
  next
    case False
    with legal_cells [OF legal] \<open>i < 3\<close> \<open>j < 3\<close> show ?thesis by simp
  qed
qed

lemma legal_length: "legal ms b \<Longrightarrow> length ms \<le> 9"
proof -
  assume "legal ms b"
  then have "distinct ms" "set ms \<subseteq> {0..<3} \<times> {0..<3}"
    using legal_cells by auto
  then have "length ms \<le> card ({0..<3::nat} \<times> {0..<3::nat})"
    by (metis distinct_card card_mono finite_SigmaI finite_atLeastLessThan)
  then show ?thesis by simp
qed

text \<open>The cells that were played are the marked ones, so a board tells how many moves were made.\<close>

lemma legal_set:
  assumes "legal ms b"
  shows "set ms = {(i, j). i < 3 \<and> j < 3 \<and> cell b i j \<noteq> CHR '' ''}"
proof -
  have c: "set ms \<subseteq> {0..<3} \<times> {0..<3}" "\<forall>k < length ms. cell b (fst (ms ! k)) (snd (ms ! k)) = mark (turn_after k)"
    "\<forall>i < 3. \<forall>j < 3. (i, j) \<notin> set ms \<longrightarrow> cell b i j = CHR '' ''"
    using legal_cells [OF assms] by simp_all
  have "cell b i j \<noteq> CHR '' ''" if "(i, j) \<in> set ms" for i j
    using that c(2) by (metis fst_conv in_set_conv_nth mark_simps(3) snd_conv)
  then show ?thesis using c(1,3) by auto
qed

lemma legal_same_length:
  assumes "legal ms b" "legal ns b"
  shows "length ms = length ns"
proof -
  have "distinct ms" "distinct ns" using legal_cells assms by blast+
  moreover have "set ms = set ns" using legal_set assms by simp
  ultimately show ?thesis by (metis distinct_card)
qed

text \<open>The moves determine the board, and when a further one is legal.\<close>

inductive_cases legal_snocE: "legal (ms @ [(r, c)]) b"
inductive_cases legal_NilE: "legal [] b"

lemma legal_board: "legal ms b \<Longrightarrow> legal ms b' \<Longrightarrow> b' = b"
proof (induction arbitrary: b' rule: legal.induct)
  case legal_start
  then show ?case by (auto elim: legal_NilE)
next
  case (legal_move ms b r c)
  from legal_move.prems obtain b0 where "legal ms b0" "b' = place b0 r c (mark (turn_after (length ms)))"
    by (rule legal_snocE)
  with legal_move.IH show ?case by simp
qed

lemma legal_next_iff:
  assumes "legal ms b"
  shows "(\<exists>b'. legal (ms @ [(r, c)]) b') \<longleftrightarrow> outcome b = Undecided \<and> r < 3 \<and> c < 3 \<and> cell b r c = CHR '' ''"
  using legal_board [OF assms] legal_move [OF assms] by (auto elim: legal_snocE)

text \<open>A move can complete only a line of the player who makes it.\<close>

lemma has_line_place:
  assumes "board_shape b" "r < 3" "c < 3" "has_line q (place b r c (mark p))" "mark q \<noteq> mark p"
  shows "has_line q b"
proof -
  from assms(4) obtain l where l: "l \<in> set lines" "\<forall>(i, j) \<in> set l. cell (place b r c (mark p)) i j = mark q"
    by (auto simp: has_line_def)
  have "cell b i j = mark q" if "(i, j) \<in> set l" for i j
    using l line_in_board [OF l(1) that] that assms by (force simp: cell_place split: if_splits)
  with l(1) show ?thesis by (auto simp: has_line_def)
qed

lemma turn_after_cases: "turn_after n = PLAYER_X \<or> turn_after n = PLAYER_O"
  by (simp add: turn_after_def)

lemma undecided_no_line: "outcome b = Undecided \<Longrightarrow> p = PLAYER_X \<or> p = PLAYER_O \<Longrightarrow> \<not> has_line p b"
  by (auto simp: outcome_def split: if_splits)

text \<open>Only the player who moved last can have won.\<close>

lemma legal_winner_moved_last:
  "legal ms b \<Longrightarrow> has_line p b \<Longrightarrow> p = PLAYER_X \<or> p = PLAYER_O \<Longrightarrow>
   ms \<noteq> [] \<and> p = turn_after (length ms - 1)"
proof (induction rule: legal.induct)
  case legal_start
  then have "cell empty_board i j = CHR '' ''" if "(i, j) \<in> set l" "l \<in> set lines" for i j l
    using that line_in_board by simp
  with legal_start show ?case
    unfolding has_line_def by (fastforce simp: lines_def)
next
  case (legal_move ms b r c)
  show ?case
  proof (rule ccontr)
    assume "\<not> ?case"
    then have "mark p \<noteq> mark (turn_after (length ms))"
      using legal_move.prems turn_after_cases [of "length ms"] by (auto simp: mark_def)
    with has_line_place legal_move legal_shape have "has_line p b" by blast
    with undecided_no_line legal_move show False by blast
  qed
qed

lemma legal_one_winner: "legal ms b \<Longrightarrow> \<not> (has_line PLAYER_X b \<and> has_line PLAYER_O b)"
  using legal_winner_moved_last by (metis Player.distinct(1))

lemma legal_check_winner: "legal ms b \<Longrightarrow> game_check_winner b = outcome_code (outcome b)"
  by (simp add: check_winner_outcome legal_marks_only legal_one_winner)

text \<open>A play of nine moves fills the board, so every game ends.\<close>

lemma legal_undecided_short:
  assumes "legal ms b" "outcome b = Undecided"
  shows "length ms < 9"
proof -
  have "length ms \<noteq> 9"
  proof
    assume len: "length ms = 9"
    have cells: "distinct ms" "set ms \<subseteq> {0..<3} \<times> {0..<3}"
      using legal_cells [OF assms(1)] by auto
    then have "set ms = {0..<3} \<times> {0..<3}"
      by (intro card_subset_eq) (simp_all add: distinct_card len)
    then have "cell b i j \<noteq> CHR '' ''" if "i < 3" "j < 3" for i j
    proof -
      have "(i, j) \<in> set ms" using that \<open>set ms = _\<close> by simp
      then obtain k where "k < length ms" "ms ! k = (i, j)" by (auto simp: in_set_conv_nth)
      with legal_cells [OF assms(1)] show ?thesis by (metis fst_conv snd_conv mark_simps(3))
    qed
    then have "full b" by (auto simp: full_def)
    with assms(2) show False by (simp add: outcome_def split: if_splits)
  qed
  with legal_length [OF assms(1)] show ?thesis by simp
qed

section \<open>Properties\<close>

text \<open>Playing a list of moves from a board on, with the checks of \<open>legal\<close>.\<close>

fun replay :: "nat \<Rightarrow> string list \<Rightarrow> (nat \<times> nat) list \<Rightarrow> string list option" where
  "replay k b [] = Some b"
| "replay k b ((r, c) # ms) =
     (if outcome b = Undecided \<and> r < 3 \<and> c < 3 \<and> cell b r c = CHR '' ''
      then replay (k + 1) (place b r c (mark (turn_after k))) ms else None)"

lemma replay_legal: "legal ms0 b \<Longrightarrow> replay (length ms0) b ms = Some b' \<Longrightarrow> legal (ms0 @ ms) b'"
proof (induction "length ms0" b ms arbitrary: ms0 rule: replay.induct)
  case (2 b r c ms)
  then have "legal (ms0 @ [(r, c)]) (place b r c (mark (turn_after (length ms0))))"
    by (auto intro: legal_move split: if_splits)
  with 2 show ?case using "2.hyps"(1) [of "ms0 @ [(r, c)]"] by (auto split: if_splits)
qed simp

lemma replay_start: "replay 0 empty_board ms = Some b \<Longrightarrow> legal ms b"
  using replay_legal [OF legal_start, of ms b] by simp

text \<open>C11. \<open>game_check_winner\<close> agrees with the rules on every board with marks only in which not
  both players have a line: it reports the end of the game and the winner, a draw, or that the
  game goes on.\<close>

theorem check_winner_correct:
  assumes "marks_only b" and "\<not> (has_line PLAYER_X b \<and> has_line PLAYER_O b)"
  shows "game_check_winner b = outcome_code (outcome b)"
  using check_winner_outcome assms .

theorem check_winner_correct_witness:
  "game_check_winner [''XXX'', ''OO '', ''   ''] = outcome_code (outcome [''XXX'', ''OO '', ''   ''])"
proof -
  have "legal [(0,0),(1,0),(0,1),(1,1),(0,2)] [''XXX'', ''OO '', ''   '']"
    by (rule replay_start) code_simp
  then show ?thesis by (intro check_winner_correct legal_marks_only legal_one_winner)
qed

text \<open>Every play comes to an end: after nine moves at the latest \<open>game_check_winner\<close> reports
  that the game is over, and no legal play is longer.\<close>

theorem nine_moves_end_the_game:
  assumes "legal ms b"
  shows "length ms \<le> 9 \<and> (length ms = 9 \<longrightarrow> fst (game_check_winner b))"
proof -
  have "length ms = 9 \<Longrightarrow> outcome b \<noteq> Undecided"
    using legal_undecided_short [OF assms] by auto
  with legal_length [OF assms] legal_check_winner [OF assms] show ?thesis
    by (cases "outcome b") auto
qed

theorem nine_moves_end_the_game_witness:
  "fst (game_check_winner [''XOX'', ''XOO'', ''OXX''])"
proof -
  have "legal [(0,0),(0,1),(0,2),(1,1),(1,0),(1,2),(2,1),(2,0),(2,2)] [''XOX'', ''XOO'', ''OXX'']"
    by (rule replay_start) code_simp
  from nine_moves_end_the_game [OF this] show ?thesis by simp
qed

text \<open>In a legal play the winner that \<open>game_check_winner\<close> reports is the player who made the
  last move.\<close>

theorem winner_moved_last:
  assumes "legal ms b" and "game_check_winner b = (True, int_of_Player p)" and "p = PLAYER_X \<or> p = PLAYER_O"
  shows "ms \<noteq> [] \<and> p = turn_after (length ms - 1)"
proof -
  have "has_line p b"
    using assms legal_check_winner [OF assms(1)]
    by (auto simp: outcome_def int_of_Player_def int_of_GameResult_def split: if_splits)
  with legal_winner_moved_last assms show ?thesis by blast
qed

theorem winner_moved_last_witness:
  "PLAYER_X = turn_after (length [(0::nat,0::nat),(1,0),(0,1),(1,1),(0,2)] - 1)"
proof -
  have "legal [(0,0),(1,0),(0,1),(1,1),(0,2)] [''XXX'', ''OO '', ''   '']"
    by (rule replay_start) code_simp
  moreover have "game_check_winner [''XXX'', ''OO '', ''   ''] = (True, int_of_Player PLAYER_X)"
    by code_simp
  ultimately show ?thesis using winner_moved_last by blast
qed

end
