(* ===== verification/Game.thy ===== *)
theory Game
  imports Board
begin

text \<open>
  The game manager of \<open>server/src/game.c\<close>: the \<open>Game\<close> structure, the list of games and every
  operation on it.

  The linked list from \<open>head\<close> to \<open>tail\<close> is a HOL list in the same order, and each operation is
  one atomic step on it; \<open>Game_Heap\<close> has the nodes in memory and \<open>Game_Locks\<close> the locks that make the
  operations atomic. The counter \<open>next_game_id\<close>, a static variable of the file, is part
  of the state. The \<open>lock\<close> fields carry no data. Pointers to results are never NULL in the
  program, so each of them is a component of the result.

  \<^item> \<open>find_game\<close>, \<open>put_game\<close>, \<open>remove_game\<close>: the search loops and what is done at the node found.
  \<^item> one definition per function of the file, with the branches of the code in its order.
\<close>

section \<open>State\<close>

record Game =
  gid :: u32
  player_x_socket :: socket
  player_o_socket :: socket
  waiting_player_socket :: socket
  owner_username :: string
  waiting_player_username :: string
  state_data :: GameCommonState
  winner_stays :: bool
  post_game_x_received :: bool
  post_game_o_received :: bool
  post_game_x_continue :: bool
  post_game_o_continue :: bool

record GameManager =
  games :: "Game list"
  next_game_id :: u32

record GameSnapshot =
  snap_id :: u32
  snap_state :: GameState
  snap_owner_name :: string
  snap_players_connected :: int

text \<open>\<open>memset(g, 0, sizeof(Game))\<close>\<close>

definition zero_Game :: Game where
  "zero_Game =
     \<lparr>gid = 0, player_x_socket = 0, player_o_socket = 0, waiting_player_socket = 0,
      owner_username = zeros 32, waiting_player_username = zeros 32,
      state_data = zero_GameCommonState, winner_stays = False,
      post_game_x_received = False, post_game_o_received = False,
      post_game_x_continue = False, post_game_o_continue = False\<rparr>"

section \<open>The list of games\<close>

text \<open>\<open>while (g && g->id != game_id) g = g->next;\<close>\<close>

fun find_game :: "Game list \<Rightarrow> u32 \<Rightarrow> Game option" where
  "find_game [] i = None"
| "find_game (g # gs) i = (if gid g \<noteq> i then find_game gs i else Some g)"

text \<open>Writing through the pointer the search returned.\<close>

fun put_game :: "Game list \<Rightarrow> u32 \<Rightarrow> Game \<Rightarrow> Game list" where
  "put_game [] i g' = []"
| "put_game (g # gs) i g' = (if gid g \<noteq> i then g # put_game gs i g' else g' # gs)"

text \<open>Unlinking the node the search returned.\<close>

fun remove_game :: "Game list \<Rightarrow> u32 \<Rightarrow> Game list" where
  "remove_game [] i = []"
| "remove_game (g # gs) i = (if gid g \<noteq> i then g # remove_game gs i else gs)"

definition set_game :: "GameManager \<Rightarrow> Game \<Rightarrow> GameManager" where
  "set_game gm g = gm\<lparr>games := put_game (games gm) (gid g) g\<rparr>"

section \<open>Ending a game and deciding what follows\<close>

definition game_finalize :: "Game \<Rightarrow> int \<Rightarrow> Game" where
  "game_finalize g winner =
     (let g = g\<lparr>state_data := (state_data g)\<lparr>gstate := GAME_FINISHED\<rparr>\<rparr>
      in if winner = int_of_Player PLAYER_X then
           g\<lparr>state_data := (state_data g)\<lparr>result_player_x := RESULT_WIN, result_player_o := RESULT_LOSS\<rparr>\<rparr>
         else if winner = int_of_Player PLAYER_O then
           g\<lparr>state_data := (state_data g)\<lparr>result_player_x := RESULT_LOSS, result_player_o := RESULT_WIN\<rparr>\<rparr>
         else if winner = int_of_GameResult RESULT_DRAW then
           g\<lparr>state_data := (state_data g)\<lparr>result_player_x := RESULT_DRAW, result_player_o := RESULT_DRAW\<rparr>\<rparr>
         else g)"

text \<open>The lines repeated in the code that clear the board for a new round.\<close>

definition clear_round :: "GameCommonState \<Rightarrow> GameState \<Rightarrow> GameCommonState" where
  "clear_round s st =
     s\<lparr>board := empty_board, current_turn := PLAYER_X, result_player_x := RESULT_NONE,
       result_player_o := RESULT_NONE, gstate := st\<rparr>"

definition handle_draw_post_game :: "Game \<Rightarrow> Game \<times> bool" where
  "handle_draw_post_game g =
     (let both_decided = post_game_x_received g \<and> post_game_o_received g
      in if \<not> both_decided then (g, both_decided)
         else
           let g = (if post_game_x_continue g \<and> post_game_o_continue g then
                      g\<lparr>state_data := clear_round (state_data g) GAME_IN_PROGRESS\<rparr>
                    else if post_game_x_continue g \<or> post_game_o_continue g then
                      let new_owner_sock = (if post_game_x_continue g then player_x_socket g
                                            else player_o_socket g)
                      in g\<lparr>player_x_socket := new_owner_sock, player_o_socket := -1,
                           waiting_player_socket := -1,
                           state_data := clear_round (state_data g) GAME_WAITING\<rparr>
                    else g\<lparr>state_data := (state_data g)\<lparr>gstate := GAME_FINISHED\<rparr>\<rparr>)
           in (g\<lparr>post_game_x_received := False, post_game_o_received := False\<rparr>, both_decided))"

definition handle_win_post_game :: "Game \<Rightarrow> bool \<Rightarrow> socket \<Rightarrow> bool \<Rightarrow> Game \<times> bool" where
  "handle_win_post_game g x_won player_socket wants_to_continue =
     (let winner_is_x = x_won;
          winner_sock = (if winner_is_x then player_x_socket g else player_o_socket g)
      in if (winner_is_x \<and> player_socket = player_o_socket g) \<or>
            (\<not> winner_is_x \<and> player_socket = player_x_socket g)
         then (g, False)
         else if wants_to_continue
         then (g\<lparr>player_x_socket := winner_sock, player_o_socket := -1, waiting_player_socket := -1,
                 state_data := clear_round (state_data g) GAME_WAITING\<rparr>, True)
         else (g\<lparr>state_data := (state_data g)\<lparr>gstate := GAME_FINISHED\<rparr>\<rparr>, True))"

section \<open>The public functions\<close>

text \<open>\<open>alloc\<close>: whether \<open>malloc\<close> returns memory.\<close>

definition game_manager_create :: "bool \<Rightarrow> GameManager option" where
  "game_manager_create alloc = (if \<not> alloc then None else Some \<lparr>games = [], next_game_id = 0\<rparr>)"

definition generate_game_id :: "GameManager \<Rightarrow> u32 \<times> GameManager" where
  "generate_game_id gm = (next_game_id gm, gm\<lparr>next_game_id := next_game_id gm + 1\<rparr>)"

definition game_manager_create_game ::
  "GameManager \<Rightarrow> bool \<Rightarrow> socket \<Rightarrow> string \<Rightarrow> (GameManager \<times> u32) result" where
  "game_manager_create_game gm alloc x_socket owner =
     (if \<not> alloc then Inl Minus1
      else let g = zero_Game;
               (i, gm) = generate_game_id gm;
               g = g\<lparr>gid := i, player_x_socket := x_socket, player_o_socket := -1,
                     waiting_player_socket := -1,
                     owner_username := copy_string (owner_username g) owner 32,
                     state_data := clear_round (state_data g) GAME_WAITING\<rparr>
           in Inr (gm\<lparr>games := games gm @ [g]\<rparr>, i))"

definition game_manager_get_owner_socket :: "GameManager \<Rightarrow> u32 \<Rightarrow> socket" where
  "game_manager_get_owner_socket gm game_id =
     (case find_game (games gm) game_id of None \<Rightarrow> -1 | Some g \<Rightarrow> player_x_socket g)"

definition game_manager_join_game ::
  "GameManager \<Rightarrow> u32 \<Rightarrow> socket \<Rightarrow> string \<Rightarrow> GameManager result" where
  "game_manager_join_game gm game_id joiner_socket joiner_username =
     (case find_game (games gm) game_id of
        None \<Rightarrow> Inl Minus1
      | Some g \<Rightarrow>
          if gstate (state_data g) \<noteq> GAME_WAITING \<or> player_o_socket g \<noteq> -1 \<or>
             waiting_player_socket g \<noteq> -1
          then Inl Minus1
          else Inr (set_game gm (g\<lparr>waiting_player_socket := joiner_socket,
                 waiting_player_username :=
                   copy_string (waiting_player_username g) joiner_username 32\<rparr>)))"

text \<open>The role is stored only when the request is accepted.\<close>

definition game_manager_join_decision ::
  "GameManager \<Rightarrow> u32 \<Rightarrow> bool \<Rightarrow> (GameManager \<times> Player option) result" where
  "game_manager_join_decision gm game_id accepted =
     (case find_game (games gm) game_id of
        None \<Rightarrow> Inl Minus1
      | Some g \<Rightarrow>
          if waiting_player_socket g = -1 then Inl Minus1
          else if accepted then
            Inr (set_game gm (g\<lparr>player_o_socket := waiting_player_socket g,
                   waiting_player_socket := -1,
                   waiting_player_username := (waiting_player_username g)[0 := NUL],
                   state_data := (state_data g)\<lparr>gstate := GAME_IN_PROGRESS\<rparr>\<rparr>), Some PLAYER_O)
          else
            Inr (set_game gm (g\<lparr>waiting_player_socket := -1,
                   waiting_player_username := (waiting_player_username g)[0 := NUL]\<rparr>), None))"

text \<open>
  The seat of a socket in a game: the player it is, the first match winning. \<open>*out_winner\<close> is
  stored only when the game is finished.
\<close>

definition player_of_socket :: "Game \<Rightarrow> socket \<Rightarrow> Player option" where
  "player_of_socket g s =
     (if s = player_x_socket g then Some PLAYER_X
      else if s = player_o_socket g then Some PLAYER_O else None)"

definition game_manager_move ::
  "GameManager \<Rightarrow> u32 \<Rightarrow> socket \<Rightarrow> u8 \<Rightarrow> u8 \<Rightarrow> (GameManager \<times> bool \<times> int option) result" where
  "game_manager_move gm game_id player_socket row col =
     (case find_game (games gm) game_id of
        None \<Rightarrow> Inl Minus1
      | Some g \<Rightarrow>
          (case player_of_socket g player_socket of
             None \<Rightarrow> Inl Minus1
           | Some player \<Rightarrow>
               if gstate (state_data g) \<noteq> GAME_IN_PROGRESS \<or> 2 < row \<or> 2 < col \<or>
                  cell (board (state_data g)) (unat row) (unat col) \<noteq> CHR '' '' \<or>
                  current_turn (state_data g) \<noteq> player
               then Inl Minus1
               else
                 let b = place (board (state_data g)) (unat row) (unat col) (mark player);
                     g = g\<lparr>state_data := (state_data g)\<lparr>board := b,
                           current_turn := (if player = PLAYER_X then PLAYER_O else PLAYER_X)\<rparr>\<rparr>;
                     (finished, winner) = game_check_winner (board (state_data g));
                     g = (if finished then game_finalize g winner else g)
                 in Inr (set_game gm g, finished, if finished then Some winner else None)))"

text \<open>The seat of the leaving socket is freed; an empty game is unlinked and freed.\<close>

definition game_manager_leave_game :: "GameManager \<Rightarrow> u32 \<Rightarrow> socket \<Rightarrow> GameManager result" where
  "game_manager_leave_game gm game_id player_socket =
     (case find_game (games gm) game_id of
        None \<Rightarrow> Inl Minus1
      | Some g \<Rightarrow>
          let left = (if player_socket = player_x_socket g then Some (g\<lparr>player_x_socket := -1\<rparr>)
                      else if player_socket = player_o_socket g then Some (g\<lparr>player_o_socket := -1\<rparr>)
                      else if player_socket = waiting_player_socket g then
                        Some (g\<lparr>waiting_player_socket := -1,
                                waiting_player_username := (waiting_player_username g)[0 := NUL]\<rparr>)
                      else None)
          in case left of
               None \<Rightarrow> Inl Minus1
             | Some g \<Rightarrow>
                 let should_remove = (player_x_socket g = -1 \<and> player_o_socket g = -1 \<and>
                                      waiting_player_socket g = -1)
                 in Inr (if should_remove then gm\<lparr>games := remove_game (games gm) game_id\<rparr>
                         else set_game gm g))"

text \<open>The first loop of the clean-up collects at most 128 identifiers, the second leaves them.\<close>

fun collect_creator_games :: "Game list \<Rightarrow> socket \<Rightarrow> u32 \<Rightarrow> nat \<Rightarrow> u32 list" where
  "collect_creator_games [] s accepted remove_count = []"
| "collect_creator_games (g # gs) s accepted remove_count =
     (if \<not> remove_count < 128 then []
      else if player_x_socket g = s \<and> gid g \<noteq> accepted
      then gid g # collect_creator_games gs s accepted (remove_count + 1)
      else collect_creator_games gs s accepted remove_count)"

definition try_leave :: "socket \<Rightarrow> u32 \<Rightarrow> GameManager \<Rightarrow> GameManager" where
  "try_leave s i gm = (case game_manager_leave_game gm i s of Inl e \<Rightarrow> gm | Inr gm' \<Rightarrow> gm')"

definition game_manager_cleanup_creator_games :: "GameManager \<Rightarrow> socket \<Rightarrow> u32 \<Rightarrow> GameManager" where
  "game_manager_cleanup_creator_games gm creator_socket accepted_game_id =
     fold (try_leave creator_socket)
       (collect_creator_games (games gm) creator_socket accepted_game_id 0) gm"

text \<open>At most ten snapshots of games that wait for an opponent; the count is the length.\<close>

definition joinable :: "Game \<Rightarrow> bool" where
  "joinable g \<longleftrightarrow> gstate (state_data g) = GAME_WAITING \<and> player_o_socket g = -1 \<and>
     waiting_player_socket g = -1"

definition snapshot :: "Game \<Rightarrow> GameSnapshot" where
  "snapshot g =
     \<lparr>snap_id = gid g, snap_state = gstate (state_data g),
      snap_owner_name = copy_string (zeros 32) (owner_username g) 32,
      snap_players_connected = 1\<rparr>"

fun list_games_from :: "Game list \<Rightarrow> nat \<Rightarrow> GameSnapshot list" where
  "list_games_from [] cnt = []"
| "list_games_from (g # gs) cnt =
     (if \<not> cnt < 10 then []
      else if joinable g then snapshot g # list_games_from gs (cnt + 1)
      else list_games_from gs cnt)"

definition game_manager_list_games :: "GameManager \<Rightarrow> GameSnapshot list" where
  "game_manager_list_games gm = list_games_from (games gm) 0"

definition game_manager_get_players :: "GameManager \<Rightarrow> u32 \<Rightarrow> (socket \<times> socket) result" where
  "game_manager_get_players gm game_id =
     (case find_game (games gm) game_id of
        None \<Rightarrow> Inl Minus1 | Some g \<Rightarrow> Inr (player_x_socket g, player_o_socket g))"

definition game_manager_post_game_decision ::
  "GameManager \<Rightarrow> u32 \<Rightarrow> socket \<Rightarrow> bool \<Rightarrow> (GameManager \<times> bool) result" where
  "game_manager_post_game_decision gm game_id player_socket wants_to_continue =
     (case find_game (games gm) game_id of
        None \<Rightarrow> Inl Minus1
      | Some g \<Rightarrow>
          let is_x = (player_socket = player_x_socket g);
              is_o = (player_socket = player_o_socket g)
          in if \<not> is_x \<and> \<not> is_o then Inl Minus1
             else
               let g = (if is_x then g\<lparr>post_game_x_received := True,
                                       post_game_x_continue := wants_to_continue\<rparr>
                        else g\<lparr>post_game_o_received := True,
                               post_game_o_continue := wants_to_continue\<rparr>);
                   draw = (result_player_x (state_data g) = RESULT_DRAW \<and>
                           result_player_o (state_data g) = RESULT_DRAW);
                   x_won = (result_player_x (state_data g) = RESULT_WIN);
                   (g, both_decided) =
                     (if draw then handle_draw_post_game g
                      else handle_win_post_game g x_won player_socket wants_to_continue)
               in Inr (set_game gm g, both_decided))"

definition game_manager_get_game_state :: "GameManager \<Rightarrow> u32 \<Rightarrow> GameCommonState result" where
  "game_manager_get_game_state gm game_id =
     (case find_game (games gm) game_id of None \<Rightarrow> Inl Minus1 | Some g \<Rightarrow> Inr (state_data g))"

definition game_manager_get_waiting_socket :: "GameManager \<Rightarrow> u32 \<Rightarrow> socket result" where
  "game_manager_get_waiting_socket gm game_id =
     (case find_game (games gm) game_id of None \<Rightarrow> Inl Minus1 | Some g \<Rightarrow> Inr (waiting_player_socket g))"

end
