(* ===== verification/Game_Inv.thy ===== *)
theory Game_Inv
  imports Game
begin

text \<open>
  What the game manager keeps: the contract of the store of games, the invariant of one game and
  its preservation by every operation.

  \<^item> \<open>game_store\<close> is the interface of the list of games: finding, writing back, unlinking and
    appending, with their effect on what a later search finds.
  \<^item> \<open>game_inv\<close> ties a \<open>Game\<close> to the rules: its board is the result of a legal play, its turn is
    the one the play demands, its results are the outcome of the board, and its phase, seats and
    names fit.
\<close>

section \<open>The store of games\<close>

locale game_store =
  fixes lookup :: "'s \<Rightarrow> u32 \<Rightarrow> Game option"
    and store :: "'s \<Rightarrow> Game \<Rightarrow> 's"
    and unlink :: "'s \<Rightarrow> u32 \<Rightarrow> 's"
    and append :: "'s \<Rightarrow> Game \<Rightarrow> 's"
    and invar :: "'s \<Rightarrow> bool"
  assumes lookup_gid: "lookup s i = Some g \<Longrightarrow> gid g = i"
    and lookup_store: "invar s \<Longrightarrow> lookup s (gid g) \<noteq> None \<Longrightarrow>
          lookup (store s g) = (lookup s)(gid g \<mapsto> g)"
    and lookup_unlink: "invar s \<Longrightarrow> lookup (unlink s i) = (lookup s)(i := None)"
    and lookup_append: "invar s \<Longrightarrow> lookup s (gid g) = None \<Longrightarrow>
          lookup (append s g) = (lookup s)(gid g \<mapsto> g)"
    and invar_store: "invar s \<Longrightarrow> lookup s (gid g) \<noteq> None \<Longrightarrow> invar (store s g)"
    and invar_unlink: "invar s \<Longrightarrow> invar (unlink s i)"
    and invar_append: "invar s \<Longrightarrow> lookup s (gid g) = None \<Longrightarrow> invar (append s g)"
begin

definition holds_all :: "(Game \<Rightarrow> bool) \<Rightarrow> 's \<Rightarrow> bool" where
  "holds_all P s \<longleftrightarrow> (\<forall>i g. lookup s i = Some g \<longrightarrow> P g)"

lemma holds_allD: "holds_all P s \<Longrightarrow> lookup s i = Some g \<Longrightarrow> P g"
  by (simp add: holds_all_def)

lemma holds_all_store:
  "invar s \<Longrightarrow> lookup s (gid g) \<noteq> None \<Longrightarrow> holds_all P s \<Longrightarrow> P g \<Longrightarrow> holds_all P (store s g)"
  by (auto simp: holds_all_def lookup_store)

lemma holds_all_unlink: "invar s \<Longrightarrow> holds_all P s \<Longrightarrow> holds_all P (unlink s i)"
  by (auto simp: holds_all_def lookup_unlink split: if_splits)

lemma holds_all_append:
  "invar s \<Longrightarrow> lookup s (gid g) = None \<Longrightarrow> holds_all P s \<Longrightarrow> P g \<Longrightarrow> holds_all P (append s g)"
  by (auto simp: holds_all_def lookup_append split: if_splits)

text \<open>Writing back or unlinking one game leaves every other game as it was.\<close>

lemma store_other:
  "invar s \<Longrightarrow> lookup s (gid g) \<noteq> None \<Longrightarrow> j \<noteq> gid g \<Longrightarrow> lookup (store s g) j = lookup s j"
  by (simp add: lookup_store)

lemma unlink_other: "invar s \<Longrightarrow> j \<noteq> i \<Longrightarrow> lookup (unlink s i) j = lookup s j"
  by (simp add: lookup_unlink)

end

subsection \<open>The list of games is such a store\<close>

lemma find_game_gid: "find_game gs i = Some g \<Longrightarrow> gid g = i"
  by (induction gs) (auto split: if_splits)

lemma find_game_mem: "find_game gs i = Some g \<Longrightarrow> g \<in> set gs"
  by (induction gs) (auto split: if_splits)

lemma find_game_None: "find_game gs i = None \<longleftrightarrow> i \<notin> gid ` set gs"
  by (induction gs) auto

lemma find_game_put: "gid g = i \<Longrightarrow> find_game gs i \<noteq> None \<Longrightarrow>
  find_game (put_game gs i g) = (find_game gs)(i \<mapsto> g)"
  by (induction gs) (auto simp: fun_eq_iff)

lemma find_game_remove: "distinct (map gid gs) \<Longrightarrow>
  find_game (remove_game gs i) = (find_game gs)(i := None)"
  by (induction gs) (auto simp: fun_eq_iff find_game_None)

lemma find_game_append: "find_game gs (gid g) = None \<Longrightarrow>
  find_game (gs @ [g]) = (find_game gs)(gid g \<mapsto> g)"
  by (induction gs) (auto simp: fun_eq_iff)

lemma gids_put: "gid g = i \<Longrightarrow> map gid (put_game gs i g) = map gid gs"
  by (induction gs) auto

lemma gids_remove: "distinct (map gid gs) \<Longrightarrow> gid ` set (remove_game gs i) = gid ` set gs - {i}"
  by (induction gs) (auto, metis image_eqI)

lemma distinct_remove: "distinct (map gid gs) \<Longrightarrow> distinct (map gid (remove_game gs i))"
  by (induction gs) (auto simp: gids_remove)

definition unlink_game :: "GameManager \<Rightarrow> u32 \<Rightarrow> GameManager" where
  "unlink_game gm i = gm\<lparr>games := remove_game (games gm) i\<rparr>"

definition append_game :: "GameManager \<Rightarrow> Game \<Rightarrow> GameManager" where
  "append_game gm g = gm\<lparr>games := games gm @ [g]\<rparr>"

definition ids_distinct :: "GameManager \<Rightarrow> bool" where
  "ids_distinct gm \<longleftrightarrow> distinct (map gid (games gm))"

definition get_game :: "GameManager \<Rightarrow> u32 \<Rightarrow> Game option" where
  "get_game gm i = find_game (games gm) i"

lemmas store_defs = set_game_def unlink_game_def append_game_def ids_distinct_def get_game_def

interpretation gs: game_store get_game set_game unlink_game append_game ids_distinct
proof unfold_locales
  fix gm :: GameManager and g :: Game and i :: u32
  show "get_game gm i = Some g \<Longrightarrow> gid g = i"
    by (simp add: store_defs find_game_gid)
  show "ids_distinct gm \<Longrightarrow> get_game gm (gid g) \<noteq> None \<Longrightarrow>
      get_game (set_game gm g) = (get_game gm)(gid g \<mapsto> g)"
    by (auto simp: store_defs find_game_put fun_eq_iff)
  show "ids_distinct gm \<Longrightarrow> get_game (unlink_game gm i) = (get_game gm)(i := None)"
    by (auto simp: store_defs find_game_remove fun_eq_iff)
  show "ids_distinct gm \<Longrightarrow> get_game gm (gid g) = None \<Longrightarrow>
      get_game (append_game gm g) = (get_game gm)(gid g \<mapsto> g)"
    by (auto simp: store_defs find_game_append fun_eq_iff)
  show "ids_distinct gm \<Longrightarrow> get_game gm (gid g) \<noteq> None \<Longrightarrow> ids_distinct (set_game gm g)"
    by (simp add: store_defs gids_put)
  show "ids_distinct gm \<Longrightarrow> ids_distinct (unlink_game gm i)"
    by (simp add: store_defs distinct_remove)
  show "ids_distinct gm \<Longrightarrow> get_game gm (gid g) = None \<Longrightarrow> ids_distinct (append_game gm g)"
    by (auto simp: store_defs find_game_None)
qed

lemma holds_all_iff: "ids_distinct gm \<Longrightarrow> gs.holds_all P gm \<longleftrightarrow> (\<forall>g \<in> set (games gm). P g)"
proof -
  assume d: "ids_distinct gm"
  have "find_game xs (gid g) = Some g" if "distinct (map gid xs)" "g \<in> set xs" for xs g
    using that by (induction xs) auto
  with d show ?thesis
    by (auto simp: gs.holds_all_def store_defs dest: find_game_mem)
qed

section \<open>The invariant of one game\<close>

text \<open>The two result fields that belong to an outcome.\<close>

fun results_of :: "outcome \<Rightarrow> GameResult \<times> GameResult" where
  "results_of (Won p) = (if p = PLAYER_X then (RESULT_WIN, RESULT_LOSS) else (RESULT_LOSS, RESULT_WIN))"
| "results_of Drawn = (RESULT_DRAW, RESULT_DRAW)"
| "results_of Undecided = (RESULT_NONE, RESULT_NONE)"

definition phase_ok :: "Game \<Rightarrow> (nat \<times> nat) list \<Rightarrow> bool" where
  "phase_ok g ms \<longleftrightarrow>
     (case gstate (state_data g) of
        GAME_WAITING \<Rightarrow> ms = [] \<and> player_o_socket g = -1
      | GAME_IN_PROGRESS \<Rightarrow> outcome (board (state_data g)) = Undecided \<and> waiting_player_socket g = -1
      | GAME_FINISHED \<Rightarrow> waiting_player_socket g = -1
      | _ \<Rightarrow> False)"

definition play_ok :: "Game \<Rightarrow> (nat \<times> nat) list \<Rightarrow> bool" where
  "play_ok g ms \<longleftrightarrow>
     legal ms (board (state_data g)) \<and>
     current_turn (state_data g) = turn_after (length ms) \<and>
     (result_player_x (state_data g), result_player_o (state_data g)) =
       results_of (outcome (board (state_data g))) \<and>
     phase_ok g ms"

definition name_ok :: "string \<Rightarrow> bool" where
  "name_ok s \<longleftrightarrow> length s = 32 \<and> s ! 31 = NUL"

definition names_ok :: "Game \<Rightarrow> bool" where
  "names_ok g \<longleftrightarrow> name_ok (owner_username g) \<and> name_ok (waiting_player_username g)"

definition game_inv :: "Game \<Rightarrow> bool" where
  "game_inv g \<longleftrightarrow> (\<exists>ms. play_ok g ms) \<and> names_ok g \<and> player_role (state_data g) = PLAYER_X"

lemma game_invI: "play_ok g ms \<Longrightarrow> names_ok g \<Longrightarrow> player_role (state_data g) = PLAYER_X \<Longrightarrow> game_inv g"
  by (auto simp: game_inv_def)

lemma game_invE:
  assumes "game_inv g"
  obtains ms where "play_ok g ms" "names_ok g" "player_role (state_data g) = PLAYER_X"
  using assms by (auto simp: game_inv_def)

lemma name_ok_zeros [simp]: "name_ok (zeros 32)"
  by (simp add: name_ok_def zeros_def)

lemma name_ok_copy [simp]: "length d = 32 \<Longrightarrow> name_ok (copy_string d s 32)"
  by (simp add: name_ok_def length_copy_string) (simp add: copy_string_def nth_list_update)

lemma name_ok_recopy [simp]: "name_ok d \<Longrightarrow> name_ok (copy_string d s 32)"
  by (rule name_ok_copy) (simp add: name_ok_def)

lemma name_ok_clear [simp]: "name_ok s \<Longrightarrow> name_ok (s[0 := NUL])"
  by (simp add: name_ok_def)

lemma outcome_empty [simp]: "outcome empty_board = Undecided"
  by (simp add: outcome_def has_line_def full_def lines_def cell_def empty_board_def)

text \<open>A round that was cleared is the legal play of no moves.\<close>

lemma play_ok_clear:
  assumes "st = GAME_WAITING \<Longrightarrow> player_o_socket g = -1"
    and "st = GAME_IN_PROGRESS \<Longrightarrow> waiting_player_socket g = -1"
    and "st \<in> {GAME_WAITING, GAME_IN_PROGRESS}"
    and "state_data g = clear_round s st"
  shows "play_ok g []"
  using assms by (auto simp: play_ok_def phase_ok_def clear_round_def legal_start turn_after_def)


section \<open>Every operation on a game keeps its invariant\<close>

definition new_game :: "u32 \<Rightarrow> socket \<Rightarrow> string \<Rightarrow> Game" where
  "new_game i x_socket owner =
     zero_Game\<lparr>gid := i, player_x_socket := x_socket, player_o_socket := -1,
       waiting_player_socket := -1, owner_username := copy_string (zeros 32) owner 32,
       state_data := clear_round zero_GameCommonState GAME_WAITING\<rparr>"

lemma game_inv_new: "game_inv (new_game i x_socket owner)"
proof (rule game_invI)
  show "play_ok (new_game i x_socket owner) []"
    by (rule play_ok_clear) (auto simp: new_game_def)
qed (simp_all add: new_game_def names_ok_def zero_Game_def clear_round_def
    zero_GameCommonState_def zero_Player_def)

lemma game_inv_join:
  assumes "game_inv g" "gstate (state_data g) = GAME_WAITING"
  shows "game_inv (g\<lparr>waiting_player_socket := s,
           waiting_player_username := copy_string (waiting_player_username g) name 32\<rparr>)"
  using assms by (auto simp: game_inv_def play_ok_def phase_ok_def names_ok_def)

lemma waiting_means_empty:
  assumes "game_inv g" "waiting_player_socket g \<noteq> -1"
  shows "gstate (state_data g) = GAME_WAITING" "play_ok g []"
  using assms by (cases "gstate (state_data g)"; auto simp: game_inv_def play_ok_def phase_ok_def)+

lemma game_inv_accept:
  assumes "game_inv g" "waiting_player_socket g \<noteq> -1"
  shows "game_inv (g\<lparr>player_o_socket := waiting_player_socket g, waiting_player_socket := -1,
           waiting_player_username := (waiting_player_username g)[0 := NUL],
           state_data := (state_data g)\<lparr>gstate := GAME_IN_PROGRESS\<rparr>\<rparr>)"
proof -
  have "play_ok g []" by (rule waiting_means_empty [OF assms])
  moreover from this have "board (state_data g) = empty_board"
    by (auto simp: play_ok_def elim: legal.cases)
  ultimately show ?thesis
    using assms(1) by (auto simp: game_inv_def play_ok_def phase_ok_def names_ok_def)
qed

lemma game_inv_refuse:
  assumes "game_inv g"
  shows "game_inv (g\<lparr>waiting_player_socket := -1,
           waiting_player_username := (waiting_player_username g)[0 := NUL]\<rparr>)"
  using assms by (auto simp: game_inv_def play_ok_def phase_ok_def names_ok_def split: GameState.splits)

lemma game_inv_leave_x: "game_inv g \<Longrightarrow> game_inv (g\<lparr>player_x_socket := s\<rparr>)"
  by (auto simp: game_inv_def play_ok_def phase_ok_def names_ok_def cong: GameState.case_cong)

lemma game_inv_leave_o: "game_inv g \<Longrightarrow> game_inv (g\<lparr>player_o_socket := -1\<rparr>)"
  by (auto simp: game_inv_def play_ok_def phase_ok_def names_ok_def split: GameState.splits)

subsection \<open>Moves\<close>

definition after_move :: "Game \<Rightarrow> Player \<Rightarrow> u8 \<Rightarrow> u8 \<Rightarrow> Game" where
  "after_move g p row col =
     (let b = place (board (state_data g)) (unat row) (unat col) (mark p);
          g = g\<lparr>state_data := (state_data g)\<lparr>board := b,
                current_turn := (if p = PLAYER_X then PLAYER_O else PLAYER_X)\<rparr>\<rparr>;
          (finished, winner) = game_check_winner b
      in if finished then game_finalize g winner else g)"

definition move_legal :: "Game \<Rightarrow> Player \<Rightarrow> u8 \<Rightarrow> u8 \<Rightarrow> bool" where
  "move_legal g p row col \<longleftrightarrow>
     gstate (state_data g) = GAME_IN_PROGRESS \<and> row \<le> 2 \<and> col \<le> 2 \<and>
     cell (board (state_data g)) (unat row) (unat col) = CHR '' '' \<and> current_turn (state_data g) = p"

lemma int_codes [simp]:
  "int_of_Player PLAYER_X = 0" "int_of_Player PLAYER_O = 1"
  "int_of_GameResult RESULT_DRAW = 2" "int_of_GameResult RESULT_NONE = 3"
  by (simp_all add: int_of_Player_def int_of_GameResult_def)

lemma finalize_outcome:
  assumes "outcome_code oc = (True, w)" "oc = outcome b"
  shows "game_finalize g w =
     g\<lparr>state_data := (state_data g)\<lparr>gstate := GAME_FINISHED, result_player_x := fst (results_of oc),
       result_player_o := snd (results_of oc)\<rparr>\<rparr>"
proof (cases oc)
  case (Won p)
  with assms(2) have "p = PLAYER_X \<or> p = PLAYER_O"
    by (auto simp: outcome_def split: if_splits)
  with Won assms(1) show ?thesis by (auto simp: game_finalize_def)
next
  case Drawn
  with assms(1) show ?thesis by (auto simp: game_finalize_def)
next
  case Undecided
  with assms(1) show ?thesis by simp
qed

text \<open>A move by the player whose turn it is extends the legal play by that move.\<close>

lemma move_legal_extends:
  assumes inv: "game_inv g" and ok: "move_legal g p row col"
  obtains ms where "legal ms (board (state_data g))" "p = turn_after (length ms)"
    "legal (ms @ [(unat row, unat col)]) (place (board (state_data g)) (unat row) (unat col) (mark p))"
proof -
  from inv obtain ms where ms: "play_ok g ms" by (rule game_invE)
  have "unat row < 3" "unat col < 3"
    using ok by (auto simp: move_legal_def word_le_nat_alt)
  with ms ok have "legal (ms @ [(unat row, unat col)])
      (place (board (state_data g)) (unat row) (unat col) (mark (turn_after (length ms))))"
    by (intro legal_move) (auto simp: play_ok_def phase_ok_def move_legal_def)
  moreover have "p = turn_after (length ms)"
    using ms ok by (simp add: play_ok_def move_legal_def)
  moreover have "legal ms (board (state_data g))"
    using ms by (simp add: play_ok_def)
  ultimately show ?thesis using that by simp
qed

lemma after_move_state:
  assumes inv: "game_inv g" and ok: "move_legal g p row col"
    and b: "b = place (board (state_data g)) (unat row) (unat col) (mark p)"
  shows "after_move g p row col = g\<lparr>state_data := (state_data g)\<lparr>board := b,
           current_turn := (if p = PLAYER_X then PLAYER_O else PLAYER_X),
           gstate := (if outcome b = Undecided then GAME_IN_PROGRESS else GAME_FINISHED),
           result_player_x := fst (results_of (outcome b)),
           result_player_o := snd (results_of (outcome b))\<rparr>\<rparr>"
    and "game_check_winner b = outcome_code (outcome b)"
proof -
  from inv ok obtain ms where "legal ms b" using b by (metis move_legal_extends)
  then show cw: "game_check_winner b = outcome_code (outcome b)" by (rule legal_check_winner)
  from inv ok have none: "gstate (state_data g) = GAME_IN_PROGRESS"
      "result_player_x (state_data g) = RESULT_NONE" "result_player_o (state_data g) = RESULT_NONE"
    by (auto simp: game_inv_def play_ok_def phase_ok_def move_legal_def)
  show "after_move g p row col = g\<lparr>state_data := (state_data g)\<lparr>board := b,
           current_turn := (if p = PLAYER_X then PLAYER_O else PLAYER_X),
           gstate := (if outcome b = Undecided then GAME_IN_PROGRESS else GAME_FINISHED),
           result_player_x := fst (results_of (outcome b)),
           result_player_o := snd (results_of (outcome b))\<rparr>\<rparr>"
  proof (cases "outcome b = Undecided")
    case True
    with cw none b [symmetric] show ?thesis by (simp add: after_move_def Let_def)
  next
    case False
    then obtain w where w: "outcome_code (outcome b) = (True, w)" by (cases "outcome b") auto
    with False cw b [symmetric] finalize_outcome [OF w refl] show ?thesis
      by (simp add: after_move_def Let_def)
  qed
qed

lemma game_inv_move:
  assumes inv: "game_inv g" and ok: "move_legal g p row col"
  shows "game_inv (after_move g p row col)"
proof -
  let ?b = "place (board (state_data g)) (unat row) (unat col) (mark p)"
  from inv ok obtain ms where ms: "legal (ms @ [(unat row, unat col)]) ?b" "p = turn_after (length ms)"
    by (rule move_legal_extends)
  have w: "waiting_player_socket g = -1"
    using inv ok by (auto simp: game_inv_def play_ok_def phase_ok_def move_legal_def)
  have "play_ok (after_move g p row col) (ms @ [(unat row, unat col)])"
    using ms w unfolding after_move_state(1) [OF inv ok refl]
    by (auto simp: play_ok_def phase_ok_def turn_after_def)
  then show ?thesis
    using inv unfolding after_move_state(1) [OF inv ok refl]
    by (auto simp: game_inv_def names_ok_def)
qed


subsection \<open>After the game\<close>

lemma results_drawn: "game_inv g \<Longrightarrow> result_player_x (state_data g) = RESULT_DRAW \<Longrightarrow>
  gstate (state_data g) = GAME_FINISHED \<and> waiting_player_socket g = -1"
  by (cases "gstate (state_data g)"; cases "outcome (board (state_data g))")
    (auto simp: game_inv_def play_ok_def phase_ok_def elim: legal.cases split: if_splits)

lemma game_inv_flags: "game_inv g \<Longrightarrow> game_inv (g\<lparr>post_game_x_received := a, post_game_x_continue := b\<rparr>)"
  "game_inv g \<Longrightarrow> game_inv (g\<lparr>post_game_o_received := a, post_game_o_continue := b\<rparr>)"
  "game_inv g \<Longrightarrow> game_inv (g\<lparr>post_game_x_received := a, post_game_o_received := b\<rparr>)"
  by (auto simp: game_inv_def play_ok_def phase_ok_def names_ok_def cong: GameState.case_cong)

lemma game_inv_restart:
  assumes "game_inv g" "waiting_player_socket g = -1"
  shows "game_inv (g\<lparr>state_data := clear_round (state_data g) GAME_IN_PROGRESS\<rparr>)"
  by (rule game_invI [OF play_ok_clear])
    (use assms in \<open>auto simp: game_inv_def names_ok_def clear_round_def\<close>)

lemma game_inv_reopen:
  assumes "game_inv g"
  shows "game_inv (g\<lparr>player_x_socket := s, player_o_socket := -1, waiting_player_socket := -1,
           state_data := clear_round (state_data g) GAME_WAITING\<rparr>)"
  by (rule game_invI [OF play_ok_clear])
    (use assms in \<open>auto simp: game_inv_def names_ok_def clear_round_def\<close>)

lemma game_inv_finish:
  assumes "game_inv g" "waiting_player_socket g = -1"
  shows "game_inv (g\<lparr>state_data := (state_data g)\<lparr>gstate := GAME_FINISHED\<rparr>\<rparr>)"
  using assms by (auto simp: game_inv_def play_ok_def phase_ok_def names_ok_def)

lemma game_inv_draw_post_game:
  assumes "game_inv g" "waiting_player_socket g = -1"
  shows "game_inv (fst (handle_draw_post_game g))"
  using assms game_inv_restart game_inv_reopen game_inv_reopen [of g "player_x_socket g"] game_inv_finish
  by (auto simp: handle_draw_post_game_def Let_def intro!: game_inv_flags(3))

text \<open>
  The seats of a game: the owner is neither the opponent nor the one who waits. A free seat is -1.
\<close>

definition seats_ok :: "Game \<Rightarrow> bool" where
  "seats_ok g \<longleftrightarrow> player_x_socket g \<noteq> -1 \<longrightarrow>
     player_x_socket g \<noteq> player_o_socket g \<and> player_x_socket g \<noteq> waiting_player_socket g"

text \<open>A winner who answers: when the winner's seat is taken by the socket, nobody waits.\<close>

lemma winner_answers_waiting:
  assumes inv: "game_inv g" and s: "s \<noteq> -1"
    and seat: "s = player_x_socket g \<or> s = player_o_socket g"
    and won: "x_won = (result_player_x (state_data g) = RESULT_WIN)"
    and turn: "\<not> (x_won \<and> s = player_o_socket g \<or> \<not> x_won \<and> s = player_x_socket g)"
  shows "waiting_player_socket g = -1"
proof (rule ccontr)
  assume w: "waiting_player_socket g \<noteq> -1"
  have "play_ok g []" "gstate (state_data g) = GAME_WAITING"
    using waiting_means_empty [OF inv w] by auto
  then have "player_o_socket g = -1" "result_player_x (state_data g) = RESULT_NONE"
    by (auto simp: play_ok_def phase_ok_def elim: legal.cases)
  with s seat won turn show False by auto
qed

lemma game_inv_win_post_game:
  assumes "game_inv g" "s \<noteq> -1" "s = player_x_socket g \<or> s = player_o_socket g"
    and "x_won = (result_player_x (state_data g) = RESULT_WIN)"
  shows "game_inv (fst (handle_win_post_game g x_won s wants))"
  using assms winner_answers_waiting [OF assms] game_inv_reopen game_inv_finish
  by (auto simp: handle_win_post_game_def Let_def)

lemma seats_ok_draw_post_game: "seats_ok g \<Longrightarrow> seats_ok (fst (handle_draw_post_game g))"
  by (auto simp: seats_ok_def handle_draw_post_game_def Let_def)

lemma seats_ok_win_post_game: "seats_ok g \<Longrightarrow> seats_ok (fst (handle_win_post_game g x_won s wants))"
  by (auto simp: seats_ok_def handle_win_post_game_def Let_def)

lemma gid_post_game [simp]:
  "gid (fst (handle_draw_post_game g)) = gid g" "gid (fst (handle_win_post_game g x_won s wants)) = gid g"
  by (auto simp: handle_draw_post_game_def handle_win_post_game_def Let_def)


section \<open>The manager\<close>

text \<open>
  \<open>manager_inv n gm\<close>: after \<open>n\<close> games were created, identifiers are distinct and older than the
  counter, and every game keeps its invariants. The counter is a 32-bit word: up to \<open>2^32\<close>
  creations no identifier is reused.
\<close>

definition manager_inv :: "nat \<Rightarrow> GameManager \<Rightarrow> bool" where
  "manager_inv n gm \<longleftrightarrow>
     ids_distinct gm \<and> next_game_id gm = of_nat n \<and> (\<forall>g \<in> set (games gm). unat (gid g) < n) \<and>
     gs.holds_all (\<lambda>g. game_inv g \<and> seats_ok g) gm"

lemma manager_inv_game:
  "manager_inv n gm \<Longrightarrow> find_game (games gm) i = Some g \<Longrightarrow> game_inv g \<and> seats_ok g"
  by (auto simp: manager_inv_def gs.holds_all_def get_game_def)

lemma gid_image_put: "gid g = i \<Longrightarrow> gid ` set (put_game xs i g) = gid ` set xs"
  using gids_put [of g i xs] by (metis set_map)

definition ids_below :: "nat \<Rightarrow> GameManager \<Rightarrow> bool" where
  "ids_below n gm \<longleftrightarrow> (\<forall>i \<in> gid ` set (games gm). unat i < n)"

lemma manager_inv_iff:
  "manager_inv n gm \<longleftrightarrow>
     ids_distinct gm \<and> next_game_id gm = of_nat n \<and> ids_below n gm \<and>
     gs.holds_all (\<lambda>g. game_inv g \<and> seats_ok g) gm"
  by (simp add: manager_inv_def ids_below_def)

lemma manager_inv_set:
  assumes "manager_inv n gm" "find_game (games gm) (gid g) \<noteq> None" "game_inv g" "seats_ok g"
  shows "manager_inv n (set_game gm g)"
proof -
  have old: "ids_distinct gm" "get_game gm (gid g) \<noteq> None"
    using assms by (auto simp: manager_inv_def get_game_def)
  have "ids_below n (set_game gm g) = ids_below n gm"
    by (simp add: ids_below_def set_game_def gid_image_put)
  with assms old show ?thesis
    using gs.invar_store [OF old] gs.holds_all_store [OF old]
    by (simp add: manager_inv_iff set_game_def)
qed

lemma manager_inv_unlink:
  assumes "manager_inv n gm"
  shows "manager_inv n (unlink_game gm i)"
proof -
  have d: "ids_distinct gm" using assms by (simp add: manager_inv_def)
  then have "gid ` set (games (unlink_game gm i)) = gid ` set (games gm) - {i}"
    by (simp add: unlink_game_def ids_distinct_def gids_remove)
  then have "ids_below n gm \<Longrightarrow> ids_below n (unlink_game gm i)"
    unfolding ids_below_def by blast
  with assms d show ?thesis
    using gs.invar_unlink [OF d] gs.holds_all_unlink [OF d]
    by (simp add: manager_inv_iff unlink_game_def)
qed

lemma manager_inv_create_manager: "game_manager_create alloc = Some gm \<Longrightarrow> manager_inv 0 gm"
  by (auto simp: game_manager_create_def manager_inv_def store_defs gs.holds_all_def split: if_splits)

subsection \<open>What each operation does when it succeeds\<close>

lemma create_game_cases:
  assumes "game_manager_create_game gm alloc s owner = Inr (gm', i)"
  shows "i = next_game_id gm \<and> alloc \<and>
    gm' = append_game (gm\<lparr>next_game_id := next_game_id gm + 1\<rparr>) (new_game (next_game_id gm) s owner)"
  using assms by (auto simp: game_manager_create_game_def generate_game_id_def append_game_def
      new_game_def zero_Game_def Let_def split: if_splits)

lemma join_game_cases:
  assumes "game_manager_join_game gm i s name = Inr gm'"
  obtains g where "find_game (games gm) i = Some g" "joinable g"
    "gm' = set_game gm (g\<lparr>waiting_player_socket := s,
             waiting_player_username := copy_string (waiting_player_username g) name 32\<rparr>)"
  using assms by (auto simp: game_manager_join_game_def joinable_def split: option.splits if_splits)

lemma join_decision_cases:
  assumes "game_manager_join_decision gm i accepted = Inr (gm', role)"
  obtains g where "find_game (games gm) i = Some g" "waiting_player_socket g \<noteq> -1"
    "gm' = set_game gm
       (if accepted then
          g\<lparr>player_o_socket := waiting_player_socket g, waiting_player_socket := -1,
            waiting_player_username := (waiting_player_username g)[0 := NUL],
            state_data := (state_data g)\<lparr>gstate := GAME_IN_PROGRESS\<rparr>\<rparr>
        else g\<lparr>waiting_player_socket := -1,
               waiting_player_username := (waiting_player_username g)[0 := NUL]\<rparr>)"
    "role = (if accepted then Some PLAYER_O else None)"
  using assms by (auto simp: game_manager_join_decision_def split: option.splits if_splits)

definition move_report :: "Game \<Rightarrow> Player \<Rightarrow> u8 \<Rightarrow> u8 \<Rightarrow> bool \<times> int option" where
  "move_report g p row col =
     (case game_check_winner (place (board (state_data g)) (unat row) (unat col) (mark p)) of
        (f, w) \<Rightarrow> (f, if f then Some w else None))"

lemma move_unfold:
  "game_manager_move gm i s row col =
     (case find_game (games gm) i of
        None \<Rightarrow> Inl Minus1
      | Some g \<Rightarrow>
          (case player_of_socket g s of
             None \<Rightarrow> Inl Minus1
           | Some p \<Rightarrow>
               if \<not> move_legal g p row col then Inl Minus1
               else Inr (set_game gm (after_move g p row col), move_report g p row col)))"
proof (cases "find_game (games gm) i")
  case None
  then show ?thesis by (simp add: game_manager_move_def)
next
  case g: (Some g)
  show ?thesis
  proof (cases "player_of_socket g s")
    case None
    with g show ?thesis by (simp add: game_manager_move_def)
  next
    case p: (Some p)
    show ?thesis
    proof (cases "move_legal g p row col")
      case False
      then have "gstate (state_data g) \<noteq> GAME_IN_PROGRESS \<or> 2 < row \<or> 2 < col \<or>
          cell (board (state_data g)) (unat row) (unat col) \<noteq> CHR '' '' \<or>
          current_turn (state_data g) \<noteq> p"
        by (auto simp: move_legal_def not_less)
      with False show ?thesis
        unfolding game_manager_move_def g p option.case by (simp only: if_P not_False_eq_True)
    next
      case True
      obtain f w where fw:
        "game_check_winner (place (board (state_data g)) (unat row) (unat col) (mark p)) = (f, w)"
        by fastforce
      from True show ?thesis
        unfolding game_manager_move_def g p option.case after_move_def move_report_def Let_def
        by (simp add: fw move_legal_def not_less)
    qed
  qed
qed

definition vacate :: "Game \<Rightarrow> socket \<Rightarrow> Game option" where
  "vacate g s =
     (if s = player_x_socket g then Some (g\<lparr>player_x_socket := -1\<rparr>)
      else if s = player_o_socket g then Some (g\<lparr>player_o_socket := -1\<rparr>)
      else if s = waiting_player_socket g then
        Some (g\<lparr>waiting_player_socket := -1,
                waiting_player_username := (waiting_player_username g)[0 := NUL]\<rparr>)
      else None)"

definition vacant :: "Game \<Rightarrow> bool" where
  "vacant g \<longleftrightarrow> player_x_socket g = -1 \<and> player_o_socket g = -1 \<and> waiting_player_socket g = -1"

lemma leave_game_unfold:
  "game_manager_leave_game gm i s =
     (case find_game (games gm) i of
        None \<Rightarrow> Inl Minus1
      | Some g \<Rightarrow>
          (case vacate g s of
             None \<Rightarrow> Inl Minus1
           | Some g' \<Rightarrow> Inr (if vacant g' then unlink_game gm i else set_game gm g')))"
  unfolding game_manager_leave_game_def vacate_def vacant_def unlink_game_def Let_def ..

definition note_answer :: "Game \<Rightarrow> socket \<Rightarrow> bool \<Rightarrow> Game" where
  "note_answer g s wants =
     (if s = player_x_socket g
      then g\<lparr>post_game_x_received := True, post_game_x_continue := wants\<rparr>
      else g\<lparr>post_game_o_received := True, post_game_o_continue := wants\<rparr>)"

definition drawn :: "Game \<Rightarrow> bool" where
  "drawn g \<longleftrightarrow> result_player_x (state_data g) = RESULT_DRAW \<and>
     result_player_o (state_data g) = RESULT_DRAW"

definition x_has_won :: "Game \<Rightarrow> bool" where
  "x_has_won g \<longleftrightarrow> result_player_x (state_data g) = RESULT_WIN"

definition decide_post_game :: "Game \<Rightarrow> socket \<Rightarrow> bool \<Rightarrow> Game \<times> bool" where
  "decide_post_game g s wants =
     (if drawn g then handle_draw_post_game (note_answer g s wants)
      else handle_win_post_game (note_answer g s wants) (x_has_won g) s wants)"

lemma note_answer_simps [simp]:
  "state_data (note_answer g s wants) = state_data g" "gid (note_answer g s wants) = gid g"
  "player_x_socket (note_answer g s wants) = player_x_socket g"
  "player_o_socket (note_answer g s wants) = player_o_socket g"
  "waiting_player_socket (note_answer g s wants) = waiting_player_socket g"
  by (simp_all add: note_answer_def)

lemma note_answer_results [simp]:
  "drawn (note_answer g s wants) = drawn g" "x_has_won (note_answer g s wants) = x_has_won g"
  by (simp_all add: drawn_def x_has_won_def)

lemma post_game_unfold:
  "game_manager_post_game_decision gm i s wants =
     (case find_game (games gm) i of
        None \<Rightarrow> Inl Minus1
      | Some g \<Rightarrow>
          if s \<noteq> player_x_socket g \<and> s \<noteq> player_o_socket g then Inl Minus1
          else Inr (set_game gm (fst (decide_post_game g s wants)), snd (decide_post_game g s wants)))"
  unfolding game_manager_post_game_decision_def Let_def note_answer_def [symmetric]
    drawn_def [symmetric] x_has_won_def [symmetric] note_answer_results split_beta
    decide_post_game_def [symmetric] de_Morgan_disj [symmetric]
  by (auto split: option.split)

end
