(* ===== verification/Game_Runs.thy ===== *)
theory Game_Runs
  imports Game_Inv
begin

text \<open>
  Every operation of the game manager keeps \<open>manager_inv\<close>, the runs of the manager under any
  sequence of operations, and the theorems on the states they reach.

  A failed operation leaves the manager as it was. The guard of a run is what the handlers
  ensure: sockets are not -1, and a client does not ask to join a game it owns.
\<close>

section \<open>Preservation\<close>

lemma manager_inv_step:
  assumes inv: "manager_inv n gm" and f: "find_game (games gm) i = Some g"
    and "gid g' = gid g" "game_inv g'" "seats_ok g'"
  shows "manager_inv n (set_game gm g')"
  using assms find_game_gid [OF f] by (intro manager_inv_set) auto

lemma manager_inv_create:
  assumes inv: "manager_inv n gm" and n: "n < 2 ^ 32"
    and c: "game_manager_create_game gm alloc s owner = Inr (gm', i)" and s: "s \<noteq> -1"
  shows "manager_inv (Suc n) gm'"
proof -
  let ?gm = "gm\<lparr>next_game_id := next_game_id gm + 1\<rparr>"
  let ?g = "new_game (next_game_id gm) s owner"
  have id: "next_game_id gm = of_nat n" and u: "unat (next_game_id gm) = n"
    using inv n by (auto simp: manager_inv_def unat_of_nat)
  have gid: "gid ?g = next_game_id gm" by (simp add: new_game_def)
  have fresh: "get_game ?gm (gid ?g) = None"
    using inv u by (fastforce simp: get_game_def find_game_None manager_inv_def gid)
  have d: "ids_distinct ?gm" using inv by (simp add: manager_inv_def ids_distinct_def)
  have all: "gs.holds_all (\<lambda>g. game_inv g \<and> seats_ok g) ?gm"
    using inv by (simp add: manager_inv_def gs.holds_all_def get_game_def)
  have seats: "seats_ok ?g" using s by (simp add: seats_ok_def new_game_def)
  have "ids_below (Suc n) (append_game ?gm ?g)"
    using inv u gid by (auto simp: ids_below_def append_game_def manager_inv_iff intro: less_SucI)
  moreover have "gm' = append_game ?gm ?g" using create_game_cases [OF c] by simp
  ultimately show ?thesis
    using gs.invar_append [OF d fresh] gs.holds_all_append [OF d fresh all] seats
      game_inv_new [of "next_game_id gm" s owner] id
    by (simp add: manager_inv_iff append_game_def)
qed

lemma manager_inv_join:
  assumes inv: "manager_inv n gm" and j: "game_manager_join_game gm i s name = Inr gm'"
    and s: "s \<noteq> -1" "s \<noteq> game_manager_get_owner_socket gm i"
  shows "manager_inv n gm'"
proof -
  obtain g where f: "find_game (games gm) i = Some g" and o: "joinable g"
    and gm': "gm' = set_game gm (g\<lparr>waiting_player_socket := s,
             waiting_player_username := copy_string (waiting_player_username g) name 32\<rparr>)"
    using join_game_cases [OF j] by metis
  have "game_inv g" "seats_ok g" using manager_inv_game [OF inv f] by auto
  moreover have "player_x_socket g \<noteq> s"
    using s f by (simp add: game_manager_get_owner_socket_def)
  ultimately show ?thesis
    unfolding gm' using o
    by (intro manager_inv_step [OF inv f] game_inv_join) (auto simp: seats_ok_def joinable_def)
qed

lemma manager_inv_decision:
  assumes inv: "manager_inv n gm" and j: "game_manager_join_decision gm i accepted = Inr (gm', r)"
  shows "manager_inv n gm'"
proof -
  obtain g where f: "find_game (games gm) i = Some g" and w: "waiting_player_socket g \<noteq> -1"
    and gm': "gm' = set_game gm
       (if accepted then
          g\<lparr>player_o_socket := waiting_player_socket g, waiting_player_socket := -1,
            waiting_player_username := (waiting_player_username g)[0 := NUL],
            state_data := (state_data g)\<lparr>gstate := GAME_IN_PROGRESS\<rparr>\<rparr>
        else g\<lparr>waiting_player_socket := -1,
               waiting_player_username := (waiting_player_username g)[0 := NUL]\<rparr>)"
    using join_decision_cases [OF j] by metis
  have g: "game_inv g" "seats_ok g" using manager_inv_game [OF inv f] by auto
  show ?thesis
  proof (cases accepted)
    case True
    show ?thesis unfolding gm' if_P [OF True]
      using g w by (intro manager_inv_step [OF inv f] game_inv_accept) (auto simp: seats_ok_def)
  next
    case False
    show ?thesis unfolding gm' if_not_P [OF False]
      using g w by (intro manager_inv_step [OF inv f] game_inv_refuse) (auto simp: seats_ok_def)
  qed
qed

lemma after_move_seats:
  assumes "game_inv g" "move_legal g p row col"
  shows "seats_ok (after_move g p row col) = seats_ok g" "gid (after_move g p row col) = gid g"
    "player_x_socket (after_move g p row col) = player_x_socket g"
    "player_o_socket (after_move g p row col) = player_o_socket g"
  unfolding after_move_state(1) [OF assms refl] by (simp_all add: seats_ok_def)

lemma move_cases:
  assumes "game_manager_move gm i s row col = Inr (gm', rep)"
  obtains g p where "find_game (games gm) i = Some g" "player_of_socket g s = Some p"
    "move_legal g p row col" "gm' = set_game gm (after_move g p row col)"
    "rep = move_report g p row col"
  using assms by (auto simp: move_unfold split: option.splits if_splits)

lemma manager_inv_move:
  assumes inv: "manager_inv n gm" and m: "game_manager_move gm i s row col = Inr (gm', rep)"
  shows "manager_inv n gm'"
proof -
  obtain g p where f: "find_game (games gm) i = Some g" and ok: "move_legal g p row col"
    and gm': "gm' = set_game gm (after_move g p row col)"
    using move_cases [OF m] by metis
  have g: "game_inv g" "seats_ok g" using manager_inv_game [OF inv f] by auto
  show ?thesis
    unfolding gm'
    by (rule manager_inv_step [OF inv f]) (simp_all add: after_move_seats [OF g(1) ok] g
        game_inv_move [OF g(1) ok])
qed

lemma game_inv_vacate: "game_inv g \<Longrightarrow> vacate g s = Some g' \<Longrightarrow> game_inv g'"
  using game_inv_leave_x game_inv_leave_o game_inv_refuse by (auto simp: vacate_def split: if_splits)

lemma vacate_inv:
  assumes "game_inv g" "seats_ok g" "vacate g s = Some g'"
  shows "game_inv g'" "seats_ok g'" "gid g' = gid g"
  using assms game_inv_vacate by (auto simp: vacate_def seats_ok_def split: if_splits)

lemma manager_inv_leave:
  assumes inv: "manager_inv n gm" and l: "game_manager_leave_game gm i s = Inr gm'"
  shows "manager_inv n gm'"
proof -
  obtain g g' where f: "find_game (games gm) i = Some g" and v: "vacate g s = Some g'"
    and gm': "gm' = (if vacant g' then unlink_game gm i else set_game gm g')"
    using l by (auto simp: leave_game_unfold split: option.splits)
  have g: "game_inv g" "seats_ok g" using manager_inv_game [OF inv f] by auto
  show ?thesis
    using manager_inv_unlink [OF inv] manager_inv_step [OF inv f] vacate_inv [OF g v]
    by (simp add: gm')
qed

lemma manager_inv_try_leave: "manager_inv n gm \<Longrightarrow> manager_inv n (try_leave s i gm)"
  by (auto simp: try_leave_def manager_inv_leave split: sum.split)

lemma manager_inv_cleanup: "manager_inv n gm \<Longrightarrow> manager_inv n (game_manager_cleanup_creator_games gm s i)"
  unfolding game_manager_cleanup_creator_games_def
  by (rule fold_invariant [where Q = "\<lambda>_. True" and P = "manager_inv n"])
    (auto intro: manager_inv_try_leave)

lemma note_answer_inv: "game_inv g \<Longrightarrow> game_inv (note_answer g s wants)"
  "seats_ok g \<Longrightarrow> seats_ok (note_answer g s wants)"
  by (auto simp: note_answer_def game_inv_flags seats_ok_def)

lemma game_inv_decide_post_game:
  assumes inv: "game_inv g" and s: "s \<noteq> -1" "s = player_x_socket g \<or> s = player_o_socket g"
  shows "game_inv (fst (decide_post_game g s wants))"
proof -
  let ?h = "note_answer g s wants"
  have h: "game_inv ?h" using inv by (simp add: note_answer_inv)
  show ?thesis
  proof (cases "drawn g")
    case True
    then have "waiting_player_socket ?h = -1"
      using results_drawn [OF inv] by (simp add: drawn_def)
    with True h show ?thesis by (simp add: decide_post_game_def game_inv_draw_post_game)
  next
    case False
    then show ?thesis
      using game_inv_win_post_game [OF h s(1), of "x_has_won g"] s
      by (simp add: decide_post_game_def x_has_won_def)
  qed
qed

lemma decide_post_game_inv:
  assumes "game_inv g" "seats_ok g" "s \<noteq> -1" "s = player_x_socket g \<or> s = player_o_socket g"
  shows "game_inv (fst (decide_post_game g s wants))" "seats_ok (fst (decide_post_game g s wants))"
    "gid (fst (decide_post_game g s wants)) = gid g"
  using assms game_inv_decide_post_game note_answer_inv
  by (simp_all add: decide_post_game_def seats_ok_draw_post_game seats_ok_win_post_game)

lemma post_game_cases:
  assumes "game_manager_post_game_decision gm i s wants = Inr (gm', decided)"
  obtains g where "find_game (games gm) i = Some g" "s = player_x_socket g \<or> s = player_o_socket g"
    "gm' = set_game gm (fst (decide_post_game g s wants))" "decided = snd (decide_post_game g s wants)"
  using assms by (auto simp: post_game_unfold split: option.splits if_splits)

lemma manager_inv_post_game:
  assumes inv: "manager_inv n gm" and s: "s \<noteq> -1"
    and p: "game_manager_post_game_decision gm i s wants = Inr (gm', decided)"
  shows "manager_inv n gm'"
proof -
  obtain g where f: "find_game (games gm) i = Some g" and seat: "s = player_x_socket g \<or> s = player_o_socket g"
    and gm': "gm' = set_game gm (fst (decide_post_game g s wants))"
    using post_game_cases [OF p] by metis
  have g: "game_inv g" "seats_ok g" using manager_inv_game [OF inv f] by auto
  show ?thesis
    unfolding gm' by (rule manager_inv_step [OF inv f]) (simp_all add: decide_post_game_inv [OF g s seat])
qed

section \<open>Runs\<close>

datatype gm_op =
    Create bool socket string
  | Join u32 socket string
  | Decide u32 bool
  | Play u32 socket u8 u8
  | Leave u32 socket
  | Cleanup socket u32
  | Answer u32 socket bool

definition keep :: "GameManager \<Rightarrow> ('a \<Rightarrow> GameManager) \<Rightarrow> 'a result \<Rightarrow> GameManager" where
  "keep gm f r = (case r of Inl e \<Rightarrow> gm | Inr x \<Rightarrow> f x)"

fun gm_apply :: "gm_op \<Rightarrow> GameManager \<Rightarrow> GameManager" where
  "gm_apply (Create alloc s owner) gm = keep gm fst (game_manager_create_game gm alloc s owner)"
| "gm_apply (Join i s name) gm = keep gm id (game_manager_join_game gm i s name)"
| "gm_apply (Decide i accepted) gm = keep gm fst (game_manager_join_decision gm i accepted)"
| "gm_apply (Play i s row col) gm = keep gm fst (game_manager_move gm i s row col)"
| "gm_apply (Leave i s) gm = keep gm id (game_manager_leave_game gm i s)"
| "gm_apply (Cleanup s i) gm = game_manager_cleanup_creator_games gm s i"
| "gm_apply (Answer i s wants) gm = keep gm fst (game_manager_post_game_decision gm i s wants)"

fun gm_guard :: "gm_op \<Rightarrow> GameManager \<Rightarrow> bool" where
  "gm_guard (Create alloc s owner) gm \<longleftrightarrow> s \<noteq> -1"
| "gm_guard (Join i s name) gm \<longleftrightarrow> s \<noteq> -1 \<and> s \<noteq> game_manager_get_owner_socket gm i"
| "gm_guard (Answer i s wants) gm \<longleftrightarrow> s \<noteq> -1"
| "gm_guard _ gm \<longleftrightarrow> True"

text \<open>The states a run reaches, with the number of games it created.\<close>

inductive gm_reach :: "nat \<Rightarrow> GameManager \<Rightarrow> bool" where
  gm_start: "game_manager_create True = Some gm \<Longrightarrow> gm_reach 0 gm"
| gm_create: "gm_reach n gm \<Longrightarrow> s \<noteq> -1 \<Longrightarrow>
    game_manager_create_game gm alloc s owner = Inr (gm', i) \<Longrightarrow> gm_reach (Suc n) gm'"
| gm_op: "gm_reach n gm \<Longrightarrow> gm_guard ev gm \<Longrightarrow> \<forall>alloc s owner. ev \<noteq> Create alloc s owner \<Longrightarrow>
    gm_reach n (gm_apply ev gm)"

lemma manager_inv_apply:
  assumes inv: "manager_inv n gm" and g: "gm_guard ev gm" and c: "\<forall>alloc s owner. ev \<noteq> Create alloc s owner"
  shows "manager_inv n (gm_apply ev gm)"
proof (cases ev)
  case (Join i s name)
  then show ?thesis using inv g manager_inv_join
    by (auto simp: keep_def split: sum.split)
next
  case (Decide i accepted)
  then show ?thesis using inv manager_inv_decision by (auto simp: keep_def split: sum.split)
next
  case (Play i s row col)
  then show ?thesis using inv manager_inv_move by (auto simp: keep_def split: sum.split)
next
  case (Leave i s)
  then show ?thesis using inv manager_inv_leave by (auto simp: keep_def split: sum.split)
next
  case (Cleanup s i)
  then show ?thesis using inv manager_inv_cleanup by simp
next
  case (Answer i s wants)
  then show ?thesis using inv g manager_inv_post_game by (auto simp: keep_def split: sum.split)
qed (use c in auto)

lemma gm_reach_inv: "gm_reach n gm \<Longrightarrow> n \<le> 2 ^ 32 \<Longrightarrow> manager_inv n gm"
proof (induction rule: gm_reach.induct)
  case (gm_start gm)
  then show ?case by (simp add: manager_inv_create_manager)
next
  case (gm_create n gm s alloc owner gm' i)
  then show ?case using manager_inv_create by (metis Suc_leD Suc_le_lessD)
next
  case (gm_op n gm ev)
  then show ?case using manager_inv_apply by blast
qed

section \<open>What a later search finds\<close>

text \<open>The two loops over the list, in closed form.\<close>

lemma list_games_from_eq:
  "list_games_from gs k = map snapshot (take (10 - k) (filter joinable gs))"
proof (induction gs k rule: list_games_from.induct)
  case (2 g gs k)
  show ?case
  proof (cases "k < 10")
    case True
    then have "10 - k = Suc (10 - (k + 1))" by simp
    with 2 True show ?thesis by simp
  qed simp
qed simp

lemma list_games_eq: "game_manager_list_games gm = map snapshot (take 10 (filter joinable (games gm)))"
  by (simp add: game_manager_list_games_def list_games_from_eq)

definition owned_by :: "socket \<Rightarrow> u32 \<Rightarrow> Game \<Rightarrow> bool" where
  "owned_by s accepted g \<longleftrightarrow> player_x_socket g = s \<and> gid g \<noteq> accepted"

lemma collect_eq:
  "collect_creator_games gs s a k = take (128 - k) (map gid (filter (owned_by s a) gs))"
proof (induction gs s a k rule: collect_creator_games.induct)
  case (2 g gs s a k)
  show ?case
  proof (cases "k < 128")
    case True
    then have "128 - k = Suc (128 - (k + 1))" by simp
    with 2 True show ?thesis by (simp add: owned_by_def)
  qed simp
qed simp

text \<open>What leaving does to the game with the identifier, and that it does nothing to the others.\<close>

definition left_by :: "socket \<Rightarrow> Game \<Rightarrow> Game option" where
  "left_by s g = (case vacate g s of None \<Rightarrow> Some g | Some g' \<Rightarrow> if vacant g' then None else Some g')"

lemma gid_vacate: "vacate g s = Some g' \<Longrightarrow> gid g' = gid g"
  by (auto simp: vacate_def split: if_splits)

lemma get_set: "ids_distinct gm \<Longrightarrow> get_game gm i = Some g \<Longrightarrow> gid g' = gid g \<Longrightarrow>
  get_game (set_game gm g') = (get_game gm)(i \<mapsto> g')"
  using gs.lookup_store [of gm g'] gs.lookup_gid [of gm i g] by simp

lemma get_try_leave:
  assumes "ids_distinct gm"
  shows "get_game (try_leave s i gm) = (get_game gm)(i := Option.bind (get_game gm i) (left_by s))"
proof (cases "get_game gm i")
  case None
  then show ?thesis
    by (auto simp: try_leave_def leave_game_unfold get_game_def)
next
  case (Some g)
  show ?thesis
  proof (cases "vacate g s")
    case None
    with Some show ?thesis
      by (auto simp: try_leave_def leave_game_unfold get_game_def left_by_def)
  next
    case v: (Some g')
    have "try_leave s i gm = (if vacant g' then unlink_game gm i else set_game gm g')"
      using Some v by (simp add: try_leave_def leave_game_unfold get_game_def)
    then show ?thesis
      using get_set [OF assms Some gid_vacate [OF v]] gs.lookup_unlink [OF assms] Some v
      by (simp add: left_by_def)
  qed
qed

lemma ids_distinct_try_leave:
  assumes "ids_distinct gm"
  shows "ids_distinct (try_leave s i gm)"
  using assms gs.invar_store [OF assms] gs.invar_unlink [OF assms] find_game_gid gid_vacate
  by (fastforce simp: try_leave_def leave_game_unfold get_game_def split: option.splits sum.splits)

lemma get_fold_leave:
  assumes "ids_distinct gm" "distinct ids"
  shows "get_game (fold (try_leave s) ids gm) i =
     (if i \<in> set ids then Option.bind (get_game gm i) (left_by s) else get_game gm i)"
  using assms by (induction ids arbitrary: gm) (auto simp: ids_distinct_try_leave get_try_leave)

lemma get_cleanup:
  assumes "ids_distinct gm"
  shows "get_game (game_manager_cleanup_creator_games gm s a) i =
     (if i \<in> set (take 128 (map gid (filter (owned_by s a) (games gm))))
      then Option.bind (get_game gm i) (left_by s) else get_game gm i)"
proof -
  have "distinct (map gid (filter (owned_by s a) (games gm)))"
    using assms by (simp add: ids_distinct_def distinct_map_filter)
  then show ?thesis
    using assms by (simp add: game_manager_cleanup_creator_games_def collect_eq get_fold_leave)
qed

end
