(* ===== verification/Server.thy ===== *)
theory Server
  imports Game_Runs "HOL-Library.Multiset"
begin

text \<open>
  The client table of \<open>server/src/server.c\<close> and the state of the whole server process.

  \<^item> \<open>Server\<close> collects the global variables: \<open>clients\<close>, \<open>active_clients_count\<close>, \<open>game_manager\<close>,
    and \<open>sent\<close>, the messages handed to \<open>send_message\<close> so far with the socket each one went to
    (the handlers ignore what \<open>send_message\<close> returns).
  \<^item> The loops of the code that look for the slot of a socket stop at the first one found.
    \<open>first_slot\<close> and \<open>update_slot\<close> are the two things they do there: read it or write to it.
  \<^item> \<open>table_inv\<close>: the table has 100 slots, every name is a terminated text in its 50 bytes, the
    counter is the number of active slots and no two active slots have one socket, which is a
    valid descriptor.
\<close>

section \<open>State\<close>

record Client =
  cl_socket :: socket
  username :: string
  current_game_id :: int
  is_playing :: bool
  is_active :: bool

record Server =
  clients :: "Client list"
  active_clients_count :: int
  game_manager :: GameManager
  sent :: "(socket \<times> Message) list"

definition MAX_CLIENTS :: nat where
  "MAX_CLIENTS = 100"

text \<open>Global variables start as zero bytes.\<close>

definition zero_Client :: Client where
  "zero_Client = \<lparr>cl_socket = 0, username = zeros 50, current_game_id = 0, is_playing = False,
     is_active = False\<rparr>"

text \<open>\<open>clients[i].is_active && clients[i].socket == s\<close>\<close>

definition active_on :: "socket \<Rightarrow> Client \<Rightarrow> bool" where
  "active_on s c \<longleftrightarrow> is_active c \<and> cl_socket c = s"

definition first_slot :: "(Client \<Rightarrow> bool) \<Rightarrow> Client list \<Rightarrow> Client option" where
  "first_slot P cs = find P cs"

fun update_slot :: "(Client \<Rightarrow> bool) \<Rightarrow> (Client \<Rightarrow> Client) \<Rightarrow> Client list \<Rightarrow> Client list" where
  "update_slot P f [] = []"
| "update_slot P f (c # cs) = (if P c then f c # cs else c # update_slot P f cs)"

definition send :: "socket \<Rightarrow> Message \<Rightarrow> Server \<Rightarrow> Server" where
  "send s m st = st\<lparr>sent := sent st @ [(s, m)]\<rparr>"

section \<open>Operations\<close>

definition client_connected :: "socket \<Rightarrow> Client \<Rightarrow> Client" where
  "client_connected s c =
     c\<lparr>cl_socket := s, is_active := True, is_playing := False, current_game_id := -1,
       username := snprintf (username c) 50 ''Guest''\<rparr>"

text \<open>The Boolean tells whether a pointer to a slot is returned, or NULL.\<close>

definition add_client :: "Server \<Rightarrow> socket \<Rightarrow> Server \<times> bool" where
  "add_client st s =
     (if active_clients_count st \<ge> int MAX_CLIENTS then (st, False)
      else case first_slot (\<lambda>c. \<not> is_active c) (clients st) of
        Some c \<Rightarrow>
          (st\<lparr>clients := update_slot (\<lambda>c. \<not> is_active c) (client_connected s) (clients st),
              active_clients_count := active_clients_count st + 1\<rparr>, True)
      | None \<Rightarrow> (st, False))"

definition client_removed :: "Client \<Rightarrow> Client" where
  "client_removed c = c\<lparr>is_active := False, is_playing := False, current_game_id := -1\<rparr>"

definition remove_client :: "Server \<Rightarrow> socket \<Rightarrow> Server" where
  "remove_client st s =
     (case first_slot (active_on s) (clients st) of
        Some c \<Rightarrow>
          st\<lparr>clients := update_slot (active_on s) client_removed (clients st),
             active_clients_count := active_clients_count st - 1\<rparr>
      | None \<Rightarrow> st)"

definition server_get_active_clients :: "Server \<Rightarrow> int" where
  "server_get_active_clients st = active_clients_count st"

text \<open>\<open>None\<close> is \<open>exit(EXIT_FAILURE)\<close>. The table of a fresh process is all zero.\<close>

definition initialize_server :: "Client list \<Rightarrow> bool \<Rightarrow> Server option" where
  "initialize_server table alloc =
     (let cs = map (\<lambda>c. c\<lparr>is_active := False\<rparr>) table
      in case game_manager_create alloc of
           None \<Rightarrow> None
         | Some gm \<Rightarrow> Some \<lparr>clients = cs, active_clients_count = 0, game_manager = gm, sent = []\<rparr>)"

text \<open>\<open>out\<close> is the caller's buffer of \<open>n\<close> characters; its new content is returned.\<close>

definition find_username_by_socket :: "Server \<Rightarrow> socket \<Rightarrow> string \<Rightarrow> nat \<Rightarrow> string" where
  "find_username_by_socket st s out n =
     (if n = 0 then out
      else case first_slot (active_on s) (clients st) of
        Some c \<Rightarrow> copy_string out (username c) n
      | None \<Rightarrow> copy_string out ''Unknown'' n)"

section \<open>The invariant of the table\<close>

definition active_sockets :: "Client list \<Rightarrow> socket list" where
  "active_sockets cs = map cl_socket (filter is_active cs)"

definition username_ok :: "string \<Rightarrow> bool" where
  "username_ok s \<longleftrightarrow> length s = 50 \<and> NUL \<in> set s"

definition table_inv :: "Server \<Rightarrow> bool" where
  "table_inv st \<longleftrightarrow>
     length (clients st) = MAX_CLIENTS \<and>
     (\<forall>c \<in> set (clients st). username_ok (username c)) \<and>
     active_clients_count st = int (length (active_sockets (clients st))) \<and>
     distinct (active_sockets (clients st)) \<and> (\<forall>s \<in> set (active_sockets (clients st)). 0 \<le> s)"

lemma length_update_slot [simp]: "length (update_slot P f cs) = length cs"
  by (induction cs) auto

lemma set_update_slot: "c \<in> set (update_slot P f cs) \<Longrightarrow> c \<in> set cs \<or> (\<exists>c' \<in> set cs. P c' \<and> c = f c')"
  by (induction cs) (auto split: if_splits)

lemma update_slot_none: "first_slot P cs = None \<Longrightarrow> update_slot P f cs = cs"
  by (induction cs) (auto simp: first_slot_def split: if_splits)

lemma first_slot_Some: "first_slot P cs = Some c \<Longrightarrow> c \<in> set cs \<and> P c"
  by (simp add: first_slot_def find_Some_mem)

lemma first_slot_None: "first_slot P cs = None \<longleftrightarrow> (\<forall>c \<in> set cs. \<not> P c)"
  by (auto simp: first_slot_def find_None_iff)

text \<open>What a search sees after an update.\<close>

lemma first_slot_update_new:
  "first_slot P cs = Some c \<Longrightarrow> (\<And>c. c \<in> set cs \<Longrightarrow> \<not> Q c) \<Longrightarrow> Q (f c) \<Longrightarrow>
   first_slot Q (update_slot P f cs) = Some (f c)"
  by (induction cs) (auto simp: first_slot_def split: if_splits)

lemma first_slot_update_other:
  "(\<And>c. c \<in> set cs \<Longrightarrow> P c \<Longrightarrow> \<not> Q c \<and> \<not> Q (f c)) \<Longrightarrow>
   first_slot Q (update_slot P f cs) = first_slot Q cs"
  by (induction cs) (auto simp: first_slot_def)

lemma first_slot_update_same:
  "(\<And>c. P c \<Longrightarrow> P (f c)) \<Longrightarrow> first_slot P (update_slot P f cs) = map_option f (first_slot P cs)"
  by (induction cs) (auto simp: first_slot_def)

lemma active_sockets_simps [simp]:
  "active_sockets [] = []"
  "active_sockets (c # cs) = (if is_active c then cl_socket c # active_sockets cs else active_sockets cs)"
  by (simp_all add: active_sockets_def)

lemma active_sockets_iff: "s \<in> set (active_sockets cs) \<longleftrightarrow> (\<exists>c \<in> set cs. active_on s c)"
  by (induction cs) (auto simp: active_on_def)

lemma active_sockets_add:
  "first_slot (\<lambda>c. \<not> is_active c) cs = Some c \<Longrightarrow>
   mset (active_sockets (update_slot (\<lambda>c. \<not> is_active c) (client_connected s) cs)) =
   add_mset s (mset (active_sockets cs))"
  by (induction cs) (auto simp: first_slot_def client_connected_def split: if_splits)

lemma active_sockets_remove:
  "active_sockets (update_slot (active_on s) client_removed cs) = remove1 s (active_sockets cs)"
  by (induction cs) (auto simp: client_removed_def active_on_def)

lemma active_sockets_le: "length (active_sockets cs) \<le> length cs"
  by (simp add: active_sockets_def)

lemma active_sockets_full: "first_slot (\<lambda>c. \<not> is_active c) cs = None \<Longrightarrow> length (active_sockets cs) = length cs"
  by (induction cs) (auto simp: first_slot_def split: if_splits)

text \<open>An update that keeps sockets, activity and names keeps the table.\<close>

lemma active_sockets_update:
  assumes "\<And>c. is_active (f c) = is_active c" "\<And>c. cl_socket (f c) = cl_socket c"
  shows "active_sockets (update_slot P f cs) = active_sockets cs"
  using assms by (induction cs) auto

lemma NUL_snprintf: "0 < n \<Longrightarrow> NUL \<in> set (snprintf d n s)"
  by (simp add: snprintf_def Let_def)

lemma username_ok_connected [simp]: "username_ok (username c) \<Longrightarrow> username_ok (username (client_connected s c))"
  by (simp add: username_ok_def client_connected_def length_snprintf NUL_snprintf)

lemma NUL_copy: "length d = n \<Longrightarrow> 0 < n \<Longrightarrow> NUL \<in> set (copy_string d s n)"
  by (simp add: copy_string_def set_update_memI)

lemma table_inv_add:
  assumes inv: "table_inv st" and s: "0 \<le> s" "s \<notin> set (active_sockets (clients st))"
  shows "table_inv (fst (add_client st s))"
proof (cases "add_client st s = (st, False)")
  case True
  with inv show ?thesis by simp
next
  case False
  let ?cs = "update_slot (\<lambda>c. \<not> is_active c) (client_connected s) (clients st)"
  from False obtain c where c: "first_slot (\<lambda>c. \<not> is_active c) (clients st) = Some c"
    and add: "fst (add_client st s) =
      st\<lparr>clients := ?cs, active_clients_count := active_clients_count st + 1\<rparr>"
    by (auto simp: add_client_def split: option.splits if_splits)
  have m: "mset (active_sockets ?cs) = mset (s # active_sockets (clients st))"
    using active_sockets_add [OF c] by simp
  then have "length (active_sockets ?cs) = length (active_sockets (clients st)) + 1"
    by (metis mset_eq_length length_Cons Suc_eq_plus1)
  moreover have "distinct (active_sockets ?cs)"
    using mset_eq_imp_distinct_iff [OF m] inv s by (simp add: table_inv_def)
  moreover have "\<forall>s \<in> set (active_sockets ?cs). 0 \<le> s"
    using mset_eq_setD [OF m] inv s by (simp add: table_inv_def)
  moreover have "\<forall>c \<in> set ?cs. username_ok (username c)"
    using inv by (auto simp: table_inv_def dest!: set_update_slot)
  ultimately show ?thesis
    using inv by (simp add: add table_inv_def)
qed

lemma table_inv_remove:
  assumes inv: "table_inv st"
  shows "table_inv (remove_client st s)"
proof (cases "first_slot (active_on s) (clients st)")
  case None
  with inv show ?thesis by (simp add: remove_client_def)
next
  case (Some c)
  then have "s \<in> set (active_sockets (clients st))"
    using first_slot_Some active_sockets_iff by blast
  then have "int (length (remove1 s (active_sockets (clients st)))) =
      int (length (active_sockets (clients st))) - 1"
    using length_pos_if_in_set [of s "active_sockets (clients st)"]
    by (simp add: length_remove1 of_nat_diff Suc_leI del: length_greater_0_conv)
  moreover have "\<forall>c \<in> set (update_slot (active_on s) client_removed (clients st)). username_ok (username c)"
    using inv by (auto simp: table_inv_def client_removed_def dest!: set_update_slot)
  ultimately show ?thesis
    using inv Some set_remove1_subset [of s "active_sockets (clients st)"]
    by (auto simp: remove_client_def table_inv_def active_sockets_remove)
qed

lemma table_inv_init:
  assumes "initialize_server (replicate MAX_CLIENTS zero_Client) alloc = Some st"
  shows "table_inv st"
proof -
  have "active_sockets (replicate n (zero_Client\<lparr>is_active := False\<rparr>)) = []" for n
    by (induction n) auto
  with assms show ?thesis
    by (auto simp: initialize_server_def table_inv_def Let_def zero_Client_def username_ok_def
        zeros_def MAX_CLIENTS_def map_replicate_const split: option.splits)
qed

text \<open>A client is refused exactly when 100 are connected.\<close>

lemma add_client_refuses:
  assumes "table_inv st"
  shows "snd (add_client st s) \<longleftrightarrow> length (active_sockets (clients st)) < 100"
proof (cases "first_slot (\<lambda>c. \<not> is_active c) (clients st)")
  case None
  with active_sockets_full [OF None] assms show ?thesis
    by (simp add: add_client_def table_inv_def MAX_CLIENTS_def)
next
  case (Some c)
  with assms show ?thesis
    by (simp add: add_client_def table_inv_def MAX_CLIENTS_def)
qed

end
