(* ===== verification/Handler.thy ===== *)
theory Handler
  imports Server
begin

text \<open>
  The message handlers of \<open>server/src/client_handler.c\<close>: one definition per function, from the
  state of the server before the call to the state after it.

  \<^item> A handler runs to its end before the next one starts. The locks of the code only make each
    access to the table and to the manager atomic; what other threads may do in between is in
    \<open>Server_Threads\<close>.
  \<^item> \<open>Env\<close> holds what the code does not determine: whether \<open>malloc\<close> succeeds, and the bytes an
    uninitialised local array starts with.
  \<^item> The source file is UTF-8: an en dash is the three bytes E2 80 93, the hyphen of
    \<open>Post-game\<close> the bytes E2 80 91.
\<close>

section \<open>Environment and messages\<close>

record Env =
  malloc_ok :: bool
  stack :: "nat \<Rightarrow> char"

definition uninit :: "Env \<Rightarrow> nat \<Rightarrow> string" where
  "uninit e n = map (stack e) [0..<n]"

text \<open>\<open>Message err = {0};\<close> and the text of the error.\<close>

definition error_reply :: "string \<Rightarrow> Message" where
  "error_reply text =
     \<lparr>msg_type = MSG_ERROR,
      payload = Error (zero_ErrorPayload\<lparr>err_message := snprintf (err_message zero_ErrorPayload) 64 text\<rparr>)\<rparr>"

text \<open>\<open>Message err;\<close> without initialisation.\<close>

definition error_reply_uninit :: "Env \<Rightarrow> string \<Rightarrow> Message" where
  "error_reply_uninit e text =
     \<lparr>msg_type = MSG_ERROR, payload = Error \<lparr>err_message = snprintf (uninit e 64) 64 text\<rparr>\<rparr>"

definition en_dash :: string where
  "en_dash = [CHR 0xE2, CHR 0x80, CHR 0x93]"

definition nb_hyphen :: string where
  "nb_hyphen = [CHR 0xE2, CHR 0x80, CHR 0x91]"

definition game_start_message :: "u32 \<Rightarrow> Player \<Rightarrow> Message" where
  "game_start_message game_id role =
     \<lparr>msg_type = MSG_GAME_START,
      payload = Game_start (zero_GameStartPayload\<lparr>st_game_id := game_id, st_player_role := role,
                              st_first_player := PLAYER_X\<rparr>)\<rparr>"

definition game_state_message :: "u32 \<Rightarrow> GameCommonState \<Rightarrow> Player \<Rightarrow> string \<Rightarrow> Message" where
  "game_state_message game_id state role text =
     \<lparr>msg_type = MSG_GAME_STATE,
      payload = Game_state (zero_GameStatePayload\<lparr>gs_game_id := game_id,
                  gs_state_data := state\<lparr>player_role := role\<rparr>,
                  gs_message := snprintf (gs_message zero_GameStatePayload) 64 text\<rparr>)\<rparr>"

definition game_created_message :: "u32 \<Rightarrow> Message" where
  "game_created_message game_id =
     \<lparr>msg_type = MSG_GAME_STATUS_CHANGE,
      payload = Status_change (zero_GameStatusChangePayload\<lparr>sc_game_id := game_id,
        sc_new_state := GAME_WAITING,
        sc_message := snprintf (sc_message zero_GameStatusChangePayload) 128
          (''Game created successfully '' @ en_dash @ '' waiting for opponent'')\<rparr>)\<rparr>"

definition game_over_message :: "u32 \<Rightarrow> int \<Rightarrow> Message" where
  "game_over_message game_id w =
     \<lparr>msg_type = MSG_GAME_OVER,
      payload = Game_over (zero_GameOverPayload\<lparr>ov_game_id := game_id, ov_winner := word_of_int w,
        ov_message := snprintf (ov_message zero_GameOverPayload) 64
          (if w = int_of_GameResult RESULT_DRAW then ''Game ended in a draw!''
           else if w = int_of_Player PLAYER_X then ''Player X wins!'' else ''Player O wins!'')\<rparr>)\<rparr>"

definition post_game_message :: "u32 \<Rightarrow> Message" where
  "post_game_message game_id =
     \<lparr>msg_type = MSG_POST_GAME_OPTIONS,
      payload = Post_game_options (zero_PostGameOptionsPayload\<lparr>pg_game_id := game_id\<rparr>)\<rparr>"

section \<open>The lobby\<close>

definition lobby_info :: "GameSnapshot \<Rightarrow> LobbyGameInfo" where
  "lobby_info s =
     zero_LobbyGameInfo\<lparr>li_game_id := snap_id s, li_state := snap_state s,
       li_owner_name := copy_string (li_owner_name zero_LobbyGameInfo) (snap_owner_name s) 32,
       li_players_connected := snap_players_connected s\<rparr>"

definition build_lobby_message :: "GameSnapshot list \<Rightarrow> u8 \<Rightarrow> Message" where
  "build_lobby_message snapshots cnt =
     \<lparr>msg_type = MSG_LOBBY_UPDATE,
      payload = Lobby_update (zero_LobbyUpdatePayload\<lparr>lu_game_count := cnt,
        lu_games := fold (\<lambda>i gs. gs[i := lobby_info (snapshots ! i)]) [0..<unat cnt]
                      (lu_games zero_LobbyUpdatePayload)\<rparr>)\<rparr>"

definition lobby_message :: "Server \<Rightarrow> Message" where
  "lobby_message st =
     (let snapshots = game_manager_list_games (game_manager st)
      in build_lobby_message snapshots (of_nat (length snapshots)))"

definition client_is_playing :: "Server \<Rightarrow> socket \<Rightarrow> bool" where
  "client_is_playing st s =
     (case first_slot (\<lambda>c. active_on s c \<and> is_playing c) (clients st) of
        Some c \<Rightarrow> True | None \<Rightarrow> False)"

definition client_set_playing :: "socket \<Rightarrow> bool \<Rightarrow> u32 \<Rightarrow> Server \<Rightarrow> Server" where
  "client_set_playing s playing game_id st =
     st\<lparr>clients := update_slot (active_on s)
          (\<lambda>c. c\<lparr>is_playing := playing, current_game_id := (if playing then int_of_u32 game_id else -1)\<rparr>)
          (clients st)\<rparr>"

definition broadcast_lobby_update :: "Server \<Rightarrow> Server" where
  "broadcast_lobby_update st =
     (let lobby_msg = lobby_message st;
          sockets_to_update = map cl_socket (filter (\<lambda>c. is_active c \<and> \<not> is_playing c) (clients st))
      in fold (\<lambda>s. send s lobby_msg) sockets_to_update st)"

definition handle_list_game :: "socket \<Rightarrow> Server \<Rightarrow> Server" where
  "handle_list_game s st = send s (lobby_message st) st"

section \<open>Creating and joining\<close>

definition handle_create_game :: "Env \<Rightarrow> socket \<Rightarrow> Server \<Rightarrow> Server" where
  "handle_create_game e s st =
     (if client_is_playing st s then send s (error_reply ''Already in a game'') st
      else
        let name = find_username_by_socket st s (''Unknown'' @ zeros 25) 32
        in case game_manager_create_game (game_manager st) (malloc_ok e) s name of
             Inl err \<Rightarrow> send s (error_reply ''Failed to create game'') st
           | Inr (gm, new_game_id) \<Rightarrow>
               let st = client_set_playing s True new_game_id (st\<lparr>game_manager := gm\<rparr>);
                   st = st\<lparr>clients := update_slot (active_on s)
                             (\<lambda>c. c\<lparr>is_playing := True, current_game_id := int_of_u32 new_game_id\<rparr>)
                             (clients st)\<rparr>
               in broadcast_lobby_update (send s (game_created_message new_game_id) st))"

definition handle_join_request :: "socket \<Rightarrow> u32 \<Rightarrow> Server \<Rightarrow> Server" where
  "handle_join_request s game_id st =
     (if client_is_playing st s then send s (error_reply ''Already in a game'') st
      else if game_manager_get_owner_socket (game_manager st) game_id = s then
        send s (error_reply ''You cant join your own game!'') st
      else
        let name = find_username_by_socket st s (''Unknown'' @ zeros 25) 32
        in case game_manager_join_game (game_manager st) game_id s name of
             Inl err \<Rightarrow> send s (error_reply ''Game not available for joining'') st
           | Inr gm \<Rightarrow>
               let st = st\<lparr>game_manager := gm\<rparr>;
                   owner_sock = game_manager_get_owner_socket (game_manager st) game_id
               in if owner_sock \<noteq> -1 then
                    let req = \<lparr>msg_type = MSG_JOIN_REQUEST,
                               payload = Join_request (zero_JoinRequestPayload\<lparr>
                                 jr_game_id := game_id, jr_player_id := u32_of_int s,
                                 jr_player_name := (snprintf (jr_player_name zero_JoinRequestPayload) 32
                                                      (cstr name))[31 := NUL]\<rparr>)\<rparr>
                    in send owner_sock req st
                  else st)"

text \<open>The loop over the whole table that marks both players.\<close>

definition mark_players :: "socket \<Rightarrow> socket \<Rightarrow> u32 \<Rightarrow> Server \<Rightarrow> Server" where
  "mark_players x_sock o_sock game_id st =
     st\<lparr>clients := map (\<lambda>c. if is_active c \<and> (cl_socket c = x_sock \<or> cl_socket c = o_sock)
                            then c\<lparr>is_playing := True, current_game_id := int_of_u32 game_id\<rparr>
                            else c) (clients st)\<rparr>"

definition handle_join_decision :: "socket \<Rightarrow> bool \<Rightarrow> u32 \<Rightarrow> Server \<Rightarrow> Server" where
  "handle_join_decision s accepted game_id st =
     (let waiting_sock = (case game_manager_get_waiting_socket (game_manager st) game_id of
                            Inl err \<Rightarrow> -1 | Inr w \<Rightarrow> w)
      in case game_manager_join_decision (game_manager st) game_id accepted of
           Inl err \<Rightarrow> send s (error_reply ''No pending join request or joiner disconnected'') st
         | Inr (gm, assigned_role) \<Rightarrow>
             let st = st\<lparr>game_manager := gm\<rparr>
             in if accepted then
                  let st = st\<lparr>game_manager :=
                             game_manager_cleanup_creator_games (game_manager st) s game_id\<rparr>
                  in case game_manager_get_players (game_manager st) game_id of
                       Inl err \<Rightarrow> st
                     | Inr (x_sock, o_sock) \<Rightarrow>
                         let st = send x_sock (game_start_message game_id PLAYER_X) st;
                             st = send o_sock (game_start_message game_id PLAYER_O) st;
                             st = (case game_manager_get_game_state (game_manager st) game_id of
                                     Inl err \<Rightarrow> st
                                   | Inr state \<Rightarrow>
                                       let st = client_set_playing x_sock True game_id st;
                                           st = client_set_playing o_sock True game_id st;
                                           st = send x_sock (game_state_message game_id state PLAYER_X ''Game started'') st
                                       in send o_sock (game_state_message game_id state PLAYER_O ''Game started'') st);
                             st = mark_players x_sock o_sock game_id st
                         in broadcast_lobby_update st
                else
                  let st = (if waiting_sock \<ge> 0 then
                              send waiting_sock (error_reply ''Join request was rejected by game owner'') st
                            else st)
                  in broadcast_lobby_update st)"

section \<open>Playing\<close>

definition handle_move :: "Env \<Rightarrow> socket \<Rightarrow> MovePayload \<Rightarrow> Server \<Rightarrow> Server" where
  "handle_move e s m st =
     (let game_id = mv_game_id m; row = mv_row m; col = mv_col m
      in case game_manager_move (game_manager st) game_id s row col of
           Inl err \<Rightarrow> send s (error_reply_uninit e ''Invalid move or not your turn'') st
         | Inr (gm, finished, winner) \<Rightarrow>
             let st = st\<lparr>game_manager := gm\<rparr>
             in case game_manager_get_players (game_manager st) game_id of
                  Inl err \<Rightarrow> st
                | Inr (x_sock, o_sock) \<Rightarrow>
                    (case game_manager_get_game_state (game_manager st) game_id of
                       Inl err \<Rightarrow> st
                     | Inr state \<Rightarrow>
                         (case winner of
                            Some w \<Rightarrow>
                              let over_msg = game_over_message game_id w;
                                  post_msg = post_game_message game_id;
                                  st = send o_sock over_msg (send x_sock over_msg st)
                              in if w = int_of_GameResult RESULT_DRAW then
                                   send o_sock post_msg (send x_sock post_msg st)
                                 else
                                   let winner_sock = (if w = int_of_Player PLAYER_X then x_sock else o_sock)
                                   in send winner_sock post_msg st
                          | None \<Rightarrow>
                              let st = send x_sock (game_state_message game_id state PLAYER_X ''Board updated'') st
                              in send o_sock (game_state_message game_id state PLAYER_O ''Board updated'') st)))"

text \<open>The two messages a player gets when a round begins again (lines 489 to 524).\<close>

definition restart_round :: "socket \<Rightarrow> socket \<Rightarrow> u32 \<Rightarrow> Server \<Rightarrow> Server" where
  "restart_round x_sock o_sock game_id st =
     (let st = send x_sock (game_start_message game_id PLAYER_X) st;
          st = send o_sock (game_start_message game_id PLAYER_O) st
      in case game_manager_get_game_state (game_manager st) game_id of
           Inl err \<Rightarrow> st
         | Inr new_state \<Rightarrow>
             let st = send x_sock (game_state_message game_id new_state PLAYER_X ''Game restarted'') st
             in send o_sock (game_state_message game_id new_state PLAYER_O ''Game restarted'') st)"

text \<open>The branch taken when the game waits or goes on (lines 466 to 525).\<close>

definition resume_game :: "Env \<Rightarrow> socket \<Rightarrow> u32 \<Rightarrow> bool \<Rightarrow> socket \<Rightarrow> socket \<Rightarrow> Server \<Rightarrow> Server" where
  "resume_game e s game_id wants_to_continue x_sock o_sock st =
     (let x_sock = (if \<not> wants_to_continue \<and> x_sock = s then -1 else x_sock);
          o_sock = (if \<not> wants_to_continue \<and> o_sock = s then -1 else o_sock)
      in if o_sock = -1 then
           if x_sock \<noteq> -1 then
             let st = client_set_playing x_sock True game_id st;
                 status = \<lparr>msg_type = MSG_GAME_STATUS_CHANGE,
                           payload = Status_change \<lparr>sc_game_id = game_id, sc_new_state = GAME_WAITING,
                             sc_message = snprintf (uninit e 128) 128
                               (''You are now owner '' @ en_dash @ '' waiting for opponent'')\<rparr>\<rparr>
             in send x_sock status st
           else st
         else
           let st = client_set_playing x_sock True game_id st;
               st = client_set_playing o_sock True game_id st
           in restart_round x_sock o_sock game_id st)"

definition handle_post_game_decision :: "Env \<Rightarrow> socket \<Rightarrow> u32 \<Rightarrow> bool \<Rightarrow> Server \<Rightarrow> Server" where
  "handle_post_game_decision e s game_id wants_to_continue st =
     (case game_manager_post_game_decision (game_manager st) game_id s wants_to_continue of
        Inl err \<Rightarrow> send s (error_reply (''Post'' @ nb_hyphen @ ''game decision failed'')) st
      | Inr (gm, both_decided) \<Rightarrow>
          let st = st\<lparr>game_manager := gm\<rparr>;
              st = (if \<not> wants_to_continue then
                      let st = client_set_playing s False 0 st
                      in st\<lparr>game_manager :=
                           (case game_manager_leave_game (game_manager st) game_id s of
                              Inl err \<Rightarrow> game_manager st | Inr gm \<Rightarrow> gm)\<rparr>
                    else st)
          in if both_decided then
               (case game_manager_get_game_state (game_manager st) game_id of
                  Inl err \<Rightarrow> broadcast_lobby_update st
                | Inr state \<Rightarrow>
                    let st = (if gstate state = GAME_WAITING \<or> gstate state = GAME_IN_PROGRESS then
                                (case game_manager_get_players (game_manager st) game_id of
                                   Inl err \<Rightarrow> st
                                 | Inr (x_sock, o_sock) \<Rightarrow>
                                     resume_game e s game_id wants_to_continue x_sock o_sock st)
                              else st)
                    in broadcast_lobby_update st)
             else st)"

section \<open>Names and leaving\<close>

text \<open>
  The 49 characters \<open>strncpy\<close> may read run past the 32 of \<open>payload->username\<close> into the rest of
  the union, which \<open>handle_client\<close> cleared before the message was received.
\<close>

definition handle_set_username :: "socket \<Rightarrow> SetUsernamePayload \<Rightarrow> Server \<Rightarrow> Server" where
  "handle_set_username s p st =
     st\<lparr>clients := update_slot (active_on s)
          (\<lambda>c. c\<lparr>username := copy_string (username c) (su_username p @ zeros 17) 50\<rparr>) (clients st)\<rparr>"

definition handle_leave_game :: "socket \<Rightarrow> u32 \<Rightarrow> Server \<Rightarrow> Server" where
  "handle_leave_game s client_provided_game_id st =
     (let target_game_id = (case first_slot (active_on s) (clients st) of
                              Some c \<Rightarrow> if current_game_id c \<noteq> -1 then u32_of_int (current_game_id c)
                                        else client_provided_game_id
                            | None \<Rightarrow> client_provided_game_id);
          gm = (case game_manager_leave_game (game_manager st) target_game_id s of
                  Inl err \<Rightarrow> game_manager st | Inr gm \<Rightarrow> gm);
          gm = game_manager_cleanup_creator_games gm s 0;
          st = client_set_playing s False (-1) (st\<lparr>game_manager := gm\<rparr>)
      in broadcast_lobby_update st)"

section \<open>The dispatcher\<close>

definition handle_message :: "Env \<Rightarrow> socket \<Rightarrow> Message \<Rightarrow> Server \<Rightarrow> Server" where
  "handle_message e s msg st =
     (case msg_type msg of
        MSG_CREATE_GAME \<Rightarrow> handle_create_game e s st
      | MSG_JOIN_GAME \<Rightarrow> handle_join_request s (jr_game_id (payload_join_request (payload msg))) st
      | MSG_JOIN_DECISION \<Rightarrow>
          handle_join_decision s (jd_accepted (payload_join_decision (payload msg)) \<noteq> 0)
            (jd_game_id (payload_join_decision (payload msg))) st
      | MSG_POST_GAME_OPTIONS \<Rightarrow>
          handle_post_game_decision e s (pg_game_id (payload_post_game_options (payload msg)))
            (pg_continue (payload_post_game_options (payload msg)) \<noteq> 0) st
      | MSG_SET_USERNAME \<Rightarrow> handle_set_username s (payload_set_username (payload msg)) st
      | MSG_MOVE \<Rightarrow> handle_move e s (payload_move (payload msg)) st
      | MSG_LIST_GAMES \<Rightarrow> handle_list_game s st
      | MSG_LEAVE_GAME \<Rightarrow> handle_leave_game s (mv_game_id (payload_move (payload msg))) st
      | t \<Rightarrow> send s (error_reply_uninit e
               (''Unsupported message type: '' @ decimal_int (int_of_u32 (MessageType_code t)))) st)"

section \<open>The life of a connection\<close>

text \<open>The refusal that a full server sends before it closes the connection.\<close>

definition MAX_CONN_MSG :: string where
  "MAX_CONN_MSG = ''Full server. Try again later.'' @ [CHR 0x0A]"

text \<open>The first part of \<open>handle_client\<close>: whether the connection stays open.\<close>

definition client_connect :: "socket \<Rightarrow> Server \<Rightarrow> Server \<times> bool" where
  "client_connect s st =
     (case add_client st s of
        (st, ok) \<Rightarrow> if \<not> ok then (send s (error_reply MAX_CONN_MSG) st, False) else (st, True))"

text \<open>The last part, when \<open>receive_message\<close> has failed.\<close>

definition client_disconnect :: "socket \<Rightarrow> Server \<Rightarrow> Server" where
  "client_disconnect s st =
     (let game_id = (case first_slot (active_on s) (clients st) of
                       Some c \<Rightarrow> current_game_id c | None \<Rightarrow> -1);
          st = remove_client st s;
          gm = (if game_id \<noteq> -1 then
                  (case game_manager_leave_game (game_manager st) (u32_of_int game_id) s of
                     Inl err \<Rightarrow> game_manager st | Inr gm \<Rightarrow> gm)
                else game_manager st);
          gm = game_manager_cleanup_creator_games gm s 0
      in broadcast_lobby_update (st\<lparr>game_manager := gm\<rparr>))"

end
