(* ===== verification/Handler_Inv.thy ===== *)
theory Handler_Inv
  imports Handler
begin

text \<open>
  What every handler keeps: the invariant \<open>server_inv\<close> of the whole server state, and the runs of
  the server.

  \<^item> \<open>server_inv n st\<close>: the client table keeps \<open>table_inv\<close>, the manager, after \<open>n\<close> creations,
    \<open>manager_inv\<close>, and every message handed to \<open>send_message\<close> is well-formed, so that it is
    encoded and arrives.
  \<^item> \<open>server_run n st\<close>: the states reached by connections, messages and disconnections.
\<close>

section \<open>The list of open games\<close>

lemma fold_fill:
  "k \<le> length xs \<Longrightarrow> fold (\<lambda>i ys. ys[i := f i]) [0..<k] xs = map f [0..<k] @ drop k xs"
proof (induction k)
  case (Suc k)
  then have "drop k xs = xs ! k # drop (Suc k) xs" by (simp add: Cons_nth_drop_Suc)
  with Suc show ?case by (simp add: list_update_append)
qed simp

definition open_games :: "Server \<Rightarrow> Game list" where
  "open_games st = take 10 (filter joinable (games (game_manager st)))"

lemma length_open_games: "length (open_games st) \<le> 10"
  by (simp add: open_games_def)

lemma lobby_message_eq:
  "lobby_message st =
     \<lparr>msg_type = MSG_LOBBY_UPDATE,
      payload = Lobby_update \<lparr>lu_game_count = of_nat (length (open_games st)),
        lu_games = map (lobby_info \<circ> snapshot) (open_games st) @
                   replicate (10 - length (open_games st)) zero_LobbyGameInfo\<rparr>\<rparr>"
proof -
  let ?n = "length (open_games st)"
  have n: "?n \<le> 10" by (rule length_open_games)
  then have u: "unat (of_nat ?n :: u8) = ?n" by (simp add: unat_of_nat)
  have m: "map (\<lambda>i. lobby_info (map snapshot (open_games st) ! i)) [0..<?n] =
      map (lobby_info \<circ> snapshot) (open_games st)"
    by (rule nth_equalityI) auto
  have "fold (\<lambda>i gs. gs[i := lobby_info (map snapshot (open_games st) ! i)]) [0..<?n]
      (replicate 10 zero_LobbyGameInfo) =
      map (lobby_info \<circ> snapshot) (open_games st) @ replicate (10 - ?n) zero_LobbyGameInfo"
    using n by (subst fold_fill) (simp_all add: m drop_replicate)
  then show ?thesis
    unfolding lobby_message_def Let_def list_games_eq open_games_def [symmetric] build_lobby_message_def
    by (simp add: u zero_LobbyUpdatePayload_def)
qed

section \<open>The messages of the handlers are well-formed\<close>

text \<open>
  Beside being well-formed, the messages of the server are kind to a receiver that takes their
  texts for C strings: every text ends within its array, and a list of games counts at most ten.
\<close>

definition texts_end :: "Message \<Rightarrow> bool" where
  "texts_end m \<longleftrightarrow>
     (case payload m of
        Game_over p \<Rightarrow> NUL \<in> set (ov_message p)
      | Error p \<Rightarrow> NUL \<in> set (err_message p)
      | Join_request p \<Rightarrow> NUL \<in> set (jr_player_name p)
      | Lobby_update p \<Rightarrow> unat (lu_game_count p) \<le> 10 \<and>
          (\<forall>g \<in> set (take (unat (lu_game_count p)) (lu_games p)). NUL \<in> set (li_owner_name g))
      | _ \<Rightarrow> True)"

text \<open>The types the client turns into an event.\<close>

definition for_client :: "MessageType \<Rightarrow> bool" where
  "for_client t \<longleftrightarrow> t \<in> {MSG_GAME_STATE, MSG_GAME_START, MSG_GAME_STATUS_CHANGE, MSG_GAME_OVER, MSG_LOBBY_UPDATE,
     MSG_ERROR, MSG_JOIN_REQUEST, MSG_POST_GAME_OPTIONS}"

definition good_message :: "Message \<Rightarrow> bool" where
  "good_message m \<longleftrightarrow> wf_message m \<and> texts_end m \<and> for_client (msg_type m)"

lemma wf_error_reply [simp]: "good_message (error_reply t)" "good_message (error_reply_uninit e t)"
  by (simp_all add: good_message_def for_client_def wf_message_def texts_end_def error_reply_def error_reply_uninit_def wf_ErrorPayload_def
      zero_ErrorPayload_def length_snprintf uninit_def NUL_snprintf)

lemma wf_game_start_message [simp]: "p = PLAYER_X \<or> p = PLAYER_O \<Longrightarrow> good_message (game_start_message i p)"
  by (auto simp: good_message_def for_client_def wf_message_def texts_end_def game_start_message_def wf_GameStartPayload_def)

lemma canonical_turn_after [simp]: "player.canonical (turn_after n)"
  using turn_after_cases [of n] by auto

lemma wf_state_of_game:
  assumes "game_inv g"
  shows "wf_GameCommonState (state_data g)"
proof -
  obtain ms where ms: "play_ok g ms" "player_role (state_data g) = PLAYER_X"
    using assms by (auto elim: game_invE)
  let ?s = "state_data g"
  have b: "board_shape (board ?s)" using ms legal_shape by (auto simp: play_ok_def)
  have r: "(result_player_x ?s, result_player_o ?s) = results_of (outcome (board ?s))"
    using ms by (simp add: play_ok_def)
  have "game_result.canonical (result_player_x ?s) \<and> game_result.canonical (result_player_o ?s)"
    using r by (cases "outcome (board ?s)") (auto split: if_splits)
  moreover have "game_state.canonical (gstate ?s)"
    using ms by (auto simp: play_ok_def phase_ok_def split: GameState.splits)
  ultimately show ?thesis
    using ms b by (auto simp: wf_GameCommonState_def board_shape_def play_ok_def)
qed

lemma wf_game_state_message [simp]:
  "wf_GameCommonState s \<Longrightarrow> p = PLAYER_X \<or> p = PLAYER_O \<Longrightarrow> good_message (game_state_message i s p t)"
  by (auto simp: good_message_def for_client_def wf_message_def texts_end_def game_state_message_def wf_GameStatePayload_def wf_GameCommonState_def
      zero_GameStatePayload_def length_snprintf)

lemma wf_lobby_message: "good_message (lobby_message st)"
proof -
  have g: "wf_LobbyGameInfo (lobby_info (snapshot g)) \<and> NUL \<in> set (li_owner_name (lobby_info (snapshot g)))"
    if "g \<in> set (open_games st)" for g
  proof -
    have "joinable g" using that by (auto simp: open_games_def dest: in_set_takeD)
    then show ?thesis
      by (simp add: joinable_def wf_LobbyGameInfo_def lobby_info_def snapshot_def
          zero_LobbyGameInfo_def length_copy_string NUL_copy_string)
  qed
  have z: "wf_LobbyGameInfo zero_LobbyGameInfo"
    by (simp add: wf_LobbyGameInfo_def zero_LobbyGameInfo_def zero_GameState_def)
  have n: "unat (of_nat (length (open_games st)) :: u8) = length (open_games st)"
    using length_open_games [of st] by (simp add: unat_of_nat)
  have "wf_message (lobby_message st)"
    using length_open_games [of st] g z by (auto simp: lobby_message_eq wf_message_def wf_LobbyUpdatePayload_def)
  moreover have "texts_end (lobby_message st)"
    using length_open_games [of st] g n by (auto simp: lobby_message_eq texts_end_def)
  moreover have "for_client (msg_type (lobby_message st))" by (simp add: lobby_message_eq for_client_def)
  ultimately show ?thesis by (simp add: good_message_def)
qed

section \<open>The invariant of the server\<close>

definition sent_ok :: "Server \<Rightarrow> bool" where
  "sent_ok st \<longleftrightarrow> (\<forall>(s, m) \<in> set (sent st). good_message m)"

definition server_inv :: "nat \<Rightarrow> Server \<Rightarrow> bool" where
  "server_inv n st \<longleftrightarrow> table_inv st \<and> manager_inv n (game_manager st) \<and> sent_ok st"

named_theorems keeps \<open>the steps a handler is made of keep the invariant\<close>

lemma inv_send [keeps]: "server_inv n st \<Longrightarrow> good_message m \<Longrightarrow> server_inv n (send s m st)"
  by (auto simp: server_inv_def send_def sent_ok_def table_inv_def)

lemma inv_manager [keeps]: "server_inv n st \<Longrightarrow> manager_inv n' gm \<Longrightarrow> server_inv n' (st\<lparr>game_manager := gm\<rparr>)"
  by (simp add: server_inv_def table_inv_def sent_ok_def)

lemma inv_table:
  assumes "server_inv n st" "\<And>c. is_active (f c) = is_active c" "\<And>c. cl_socket (f c) = cl_socket c"
    "\<And>c. username_ok (username c) \<Longrightarrow> username_ok (username (f c))"
  shows "server_inv n (st\<lparr>clients := update_slot P f (clients st)\<rparr>)"
  using assms by (auto simp: server_inv_def table_inv_def sent_ok_def active_sockets_update
      dest!: set_update_slot)

lemma inv_set_playing [keeps]: "server_inv n st \<Longrightarrow> server_inv n (client_set_playing s p i st)"
  unfolding client_set_playing_def by (rule inv_table) auto

lemma send_simps [simp]:
  "clients (send s m st) = clients st" "game_manager (send s m st) = game_manager st"
  "active_clients_count (send s m st) = active_clients_count st"
  "sent (send s m st) = sent st @ [(s, m)]"
  by (simp_all add: send_def)

lemma set_playing_simps [simp]:
  "game_manager (client_set_playing s p i st) = game_manager st"
  "sent (client_set_playing s p i st) = sent st"
  "active_clients_count (client_set_playing s p i st) = active_clients_count st"
  by (simp_all add: client_set_playing_def)

lemma fold_send:
  "fold (\<lambda>s. send s m) ss st = st\<lparr>sent := sent st @ map (\<lambda>s. (s, m)) ss\<rparr>"
  by (induction ss arbitrary: st) (simp_all add: send_def)

lemma broadcast_eq:
  "broadcast_lobby_update st =
     st\<lparr>sent := sent st @ map (\<lambda>c. (cl_socket c, lobby_message st))
                            (filter (\<lambda>c. is_active c \<and> \<not> is_playing c) (clients st))\<rparr>"
  by (simp add: broadcast_lobby_update_def Let_def fold_send comp_def)

lemma broadcast_simps [simp]:
  "clients (broadcast_lobby_update st) = clients st"
  "game_manager (broadcast_lobby_update st) = game_manager st"
  by (simp_all add: broadcast_eq)

lemma inv_broadcast [keeps]: "server_inv n st \<Longrightarrow> server_inv n (broadcast_lobby_update st)"
  using wf_lobby_message [of st] by (auto simp: broadcast_eq server_inv_def table_inv_def sent_ok_def)

lemma inv_manager_inv: "server_inv n st \<Longrightarrow> manager_inv n (game_manager st)"
  by (simp add: server_inv_def)

lemma inv_state: "server_inv n st \<Longrightarrow> game_manager_get_game_state (game_manager st) i = Inr s \<Longrightarrow>
  wf_GameCommonState s"
  by (auto simp: game_manager_get_game_state_def server_inv_def split: option.splits
      dest!: manager_inv_game wf_state_of_game)

section \<open>Every handler keeps the invariant\<close>

lemma leave_keeps [keeps]:
  "manager_inv n gm \<Longrightarrow>
   manager_inv n (case game_manager_leave_game gm i s of Inl e \<Rightarrow> gm | Inr gm' \<Rightarrow> gm')"
  by (auto split: sum.split intro: manager_inv_leave)

lemma inv_leave_step [keeps]:
  "server_inv n st \<Longrightarrow> server_inv n (st\<lparr>game_manager :=
     (case game_manager_leave_game (game_manager st) i s of
        Inl err \<Rightarrow> game_manager st | Inr gm \<Rightarrow> gm)\<rparr>)"
  by (rule inv_manager [OF _ leave_keeps]) (auto intro: inv_manager_inv)

lemma inv_list_game: "server_inv n st \<Longrightarrow> server_inv n (handle_list_game s st)"
  by (simp add: handle_list_game_def inv_send wf_lobby_message)

text \<open>The clients that create a game.\<close>

definition creates :: "Env \<Rightarrow> socket \<Rightarrow> Message \<Rightarrow> Server \<Rightarrow> bool" where
  "creates e s m st \<longleftrightarrow> msg_type m = MSG_CREATE_GAME \<and> \<not> client_is_playing st s \<and> malloc_ok e"

lemma wf_status_change [simp]:
  "game_state.canonical t \<Longrightarrow> length txt = 128 \<Longrightarrow>
   good_message \<lparr>msg_type = MSG_GAME_STATUS_CHANGE, payload = Status_change
     \<lparr>sc_game_id = i, sc_new_state = t, sc_message = txt\<rparr>\<rparr>"
  by (simp add: good_message_def for_client_def wf_message_def texts_end_def wf_GameStatusChangePayload_def)

lemma create_game_Inl: "game_manager_create_game gm alloc s name = Inl e \<Longrightarrow> \<not> alloc"
  by (auto simp: game_manager_create_game_def generate_game_id_def Let_def split: if_splits)

lemma inv_create_game:
  assumes inv: "server_inv n st" and n: "n < 2 ^ 32" and s: "s \<noteq> -1"
  shows "server_inv (if \<not> client_is_playing st s \<and> malloc_ok e then Suc n else n) (handle_create_game e s st)"
proof (cases "client_is_playing st s")
  case True
  then show ?thesis using inv by (simp add: handle_create_game_def inv_send)
next
  case False
  let ?name = "find_username_by_socket st s (''Unknown'' @ zeros 25) 32"
  show ?thesis
  proof (cases "game_manager_create_game (game_manager st) (malloc_ok e) s ?name")
    case (Inl err)
    then show ?thesis using False inv create_game_Inl [OF Inl]
      by (simp add: handle_create_game_def Let_def inv_send)
  next
    case (Inr r)
    obtain gm i where c: "game_manager_create_game (game_manager st) (malloc_ok e) s ?name = Inr (gm, i)"
      using Inr by (cases r) auto
    have "manager_inv (Suc n) gm" using manager_inv_create [OF inv_manager_inv [OF inv] n c s] .
    then show ?thesis
      using False create_game_cases [OF c]
      unfolding handle_create_game_def Let_def c if_not_P [OF False] sum.case prod.case
      by (auto simp: game_created_message_def zero_GameStatusChangePayload_def length_snprintf
          intro!: inv_broadcast inv_send inv_table inv_set_playing inv_manager [OF inv])
  qed
qed

lemma wf_join_request [simp]:
  "length txt = 32 \<Longrightarrow> NUL \<in> set txt \<Longrightarrow> good_message \<lparr>msg_type = MSG_JOIN_REQUEST, payload = Join_request
     \<lparr>jr_game_id = i, jr_player_id = j, jr_player_name = txt\<rparr>\<rparr>"
  by (simp add: good_message_def for_client_def wf_message_def texts_end_def wf_JoinRequestPayload_def)

lemma inv_join_request:
  assumes inv: "server_inv n st" and s: "s \<noteq> -1"
  shows "server_inv n (handle_join_request s i st)"
proof (cases "client_is_playing st s \<or> game_manager_get_owner_socket (game_manager st) i = s")
  case True
  then show ?thesis using inv by (auto simp: handle_join_request_def inv_send)
next
  case False
  let ?name = "find_username_by_socket st s (''Unknown'' @ zeros 25) 32"
  show ?thesis
  proof (cases "game_manager_join_game (game_manager st) i s ?name")
    case (Inl err)
    then show ?thesis using False inv by (simp add: handle_join_request_def Let_def inv_send)
  next
    case (Inr gm)
    have "manager_inv n gm"
      using manager_inv_join [OF inv_manager_inv [OF inv] Inr s] False by auto
    with False Inr show ?thesis
      by (auto simp: handle_join_request_def Let_def zero_JoinRequestPayload_def length_snprintf set_update_memI
          intro!: inv_send inv_manager [OF inv])
  qed
qed

lemma inv_mark_players [keeps]:
  assumes "server_inv n st"
  shows "server_inv n (mark_players x y i st)"
proof -
  have "active_sockets (map (\<lambda>c. if is_active c \<and> (cl_socket c = x \<or> cl_socket c = y)
      then c\<lparr>is_playing := True, current_game_id := k\<rparr> else c) cs) = active_sockets cs" for cs k
    by (induction cs) auto
  with assms show ?thesis
    by (auto simp: mark_players_def server_inv_def table_inv_def sent_ok_def)
qed

lemma inv_join_decision:
  assumes inv: "server_inv n st"
  shows "server_inv n (handle_join_decision s accepted i st)"
proof (cases "game_manager_join_decision (game_manager st) i accepted")
  case (Inl err)
  then show ?thesis using inv by (simp add: handle_join_decision_def Let_def inv_send)
next
  case (Inr r)
  then obtain gm role where j: "game_manager_join_decision (game_manager st) i accepted = Inr (gm, role)"
    by (cases r) auto
  have gm: "manager_inv n gm" using manager_inv_decision [OF inv_manager_inv [OF inv] j] .
  show ?thesis
  proof (cases accepted)
    case False
    with j gm show ?thesis
      by (auto simp: handle_join_decision_def Let_def intro!: inv_broadcast inv_send inv_manager [OF inv])
  next
    case True
    let ?st = "st\<lparr>game_manager := game_manager_cleanup_creator_games gm s i\<rparr>"
    have st: "server_inv n ?st" using inv_manager [OF inv manager_inv_cleanup [OF gm]] .
    show ?thesis
      using True j inv_state [OF st] st
      by (auto simp: handle_join_decision_def Let_def split: sum.split
          intro!: inv_broadcast inv_mark_players inv_send inv_set_playing)
  qed
qed

lemma wf_game_over [simp]: "good_message (game_over_message i w)" "good_message (post_game_message i)"
  by (simp_all add: good_message_def for_client_def wf_message_def texts_end_def wf_GameOverPayload_def wf_PostGameOptionsPayload_def
      game_over_message_def post_game_message_def zero_GameOverPayload_def
      zero_PostGameOptionsPayload_def length_snprintf NUL_snprintf)

lemma inv_move:
  assumes inv: "server_inv n st"
  shows "server_inv n (handle_move e s m st)"
proof (cases "game_manager_move (game_manager st) (mv_game_id m) s (mv_row m) (mv_col m)")
  case (Inl err)
  then show ?thesis using inv by (simp add: handle_move_def Let_def inv_send)
next
  case (Inr r)
  then obtain gm f w where
    mv: "game_manager_move (game_manager st) (mv_game_id m) s (mv_row m) (mv_col m) = Inr (gm, f, w)"
    by (cases r) auto
  have st: "server_inv n (st\<lparr>game_manager := gm\<rparr>)"
    using inv_manager [OF inv manager_inv_move [OF inv_manager_inv [OF inv] mv]] .
  show ?thesis
    using mv st inv_state [OF st]
    by (auto simp: handle_move_def Let_def split: sum.split option.split intro!: inv_send)
qed

lemma inv_restart_round [keeps]: "server_inv n st \<Longrightarrow> server_inv n (restart_round x y i st)"
  using inv_state [of n st i]
  by (auto simp: restart_round_def Let_def split: sum.split intro!: inv_send)

lemma inv_resume_game [keeps]: "server_inv n st \<Longrightarrow> server_inv n (resume_game e s i wants x y st)"
  by (simp add: resume_game_def Let_def length_snprintf NUL_snprintf uninit_def inv_send inv_set_playing
      inv_restart_round)

lemma inv_post_game:
  assumes inv: "server_inv n st" and s: "s \<noteq> -1"
  shows "server_inv n (handle_post_game_decision e s i wants st)"
proof (cases "game_manager_post_game_decision (game_manager st) i s wants")
  case (Inl err)
  then show ?thesis using inv by (simp add: handle_post_game_decision_def inv_send)
next
  case (Inr r)
  then obtain gm d where p: "game_manager_post_game_decision (game_manager st) i s wants = Inr (gm, d)"
    by (cases r) auto
  have st: "server_inv n (st\<lparr>game_manager := gm\<rparr>)"
    using inv_manager [OF inv manager_inv_post_game [OF inv_manager_inv [OF inv] s p]] .
  define st1 where "st1 = (if \<not> wants then
      let st = client_set_playing s False 0 (st\<lparr>game_manager := gm\<rparr>)
      in st\<lparr>game_manager := (case game_manager_leave_game (game_manager st) i s of
              Inl err \<Rightarrow> game_manager st | Inr gm \<Rightarrow> gm)\<rparr>
      else st\<lparr>game_manager := gm\<rparr>)"
  have st1: "server_inv n st1"
    unfolding st1_def Let_def if_split using st inv_leave_step [OF inv_set_playing [OF st]] by blast
  show ?thesis
    unfolding handle_post_game_decision_def p sum.case prod.case Let_def
      st1_def [unfolded Let_def, symmetric]
    using st1 by (auto split: sum.split intro!: inv_broadcast inv_resume_game)
qed

lemma inv_set_username: "server_inv n st \<Longrightarrow> server_inv n (handle_set_username s p st)"
  unfolding handle_set_username_def
  by (rule inv_table) (auto simp: username_ok_def length_copy_string NUL_copy)

lemma inv_leave_game:
  assumes "server_inv n st"
  shows "server_inv n (handle_leave_game s i st)"
  unfolding handle_leave_game_def Let_def
  by (intro inv_broadcast inv_set_playing inv_manager [OF assms] manager_inv_cleanup leave_keeps
      inv_manager_inv [OF assms])

lemma inv_handle_message:
  assumes inv: "server_inv n st" and n: "creates e s m st \<Longrightarrow> n < 2 ^ 32" and s: "s \<noteq> -1"
  shows "server_inv (if creates e s m st then Suc n else n) (handle_message e s m st)"
proof (cases "msg_type m = MSG_CREATE_GAME")
  case True
  show ?thesis
  proof (cases "creates e s m st")
    case c: True
    with True inv_create_game [OF inv n [OF c] s, of e] show ?thesis
      by (simp add: handle_message_def creates_def)
  next
    case False
    with True have "client_is_playing st s \<or> \<not> malloc_ok e" by (simp add: creates_def)
    with True False inv show ?thesis
      by (auto simp: handle_message_def handle_create_game_def game_manager_create_game_def Let_def inv_send)
  qed
next
  case False
  then have "\<not> creates e s m st" by (simp add: creates_def)
  with False inv s show ?thesis
    by (cases "msg_type m")
      (simp_all add: handle_message_def inv_join_request inv_join_decision inv_post_game
        inv_set_username inv_move inv_list_game inv_leave_game inv_send)
qed

lemma inv_connect:
  assumes inv: "server_inv n st" and s: "0 \<le> s" "s \<notin> set (active_sockets (clients st))"
  shows "server_inv n (fst (client_connect s st))"
proof -
  have "game_manager (fst (add_client st s)) = game_manager st" "sent (fst (add_client st s)) = sent st"
    by (auto simp: add_client_def split: option.split)
  then have "server_inv n (fst (add_client st s))"
    using inv table_inv_add [of st s] s by (simp add: server_inv_def sent_ok_def)
  then show ?thesis by (auto simp: client_connect_def split: prod.split intro: inv_send)
qed

lemma inv_disconnect: "server_inv n st \<Longrightarrow> server_inv n (client_disconnect s st)"
proof -
  assume inv: "server_inv n st"
  have "game_manager (remove_client st s) = game_manager st" "sent (remove_client st s) = sent st"
    by (auto simp: remove_client_def split: option.split)
  then have r: "server_inv n (remove_client st s)"
    using inv table_inv_remove [of st s] by (simp add: server_inv_def sent_ok_def)
  show ?thesis
    unfolding client_disconnect_def Let_def
    using inv_manager_inv [OF r]
    by (auto intro!: inv_broadcast inv_manager [OF r] manager_inv_cleanup leave_keeps)
qed

section \<open>The runs of the server\<close>

text \<open>
  The operating system gives a new connection a descriptor that is not in use: \<open>close\<close> is the
  last thing \<open>handle_client\<close> does with it.
\<close>

inductive server_run :: "nat \<Rightarrow> Server \<Rightarrow> bool" where
  run_start: "initialize_server (replicate MAX_CLIENTS zero_Client) True = Some st \<Longrightarrow> server_run 0 st"
| run_connect: "server_run n st \<Longrightarrow> 0 \<le> s \<Longrightarrow> s \<notin> set (active_sockets (clients st)) \<Longrightarrow>
    server_run n (fst (client_connect s st))"
| run_message: "server_run n st \<Longrightarrow> s \<in> set (active_sockets (clients st)) \<Longrightarrow>
    server_run (if creates e s m st then Suc n else n) (handle_message e s m st)"
| run_disconnect: "server_run n st \<Longrightarrow> s \<in> set (active_sockets (clients st)) \<Longrightarrow>
    server_run n (client_disconnect s st)"

lemma server_run_inv: "server_run n st \<Longrightarrow> n \<le> 2 ^ 32 \<Longrightarrow> server_inv n st"
proof (induction rule: server_run.induct)
  case (run_start st)
  have "table_inv st" by (rule table_inv_init [OF run_start(1)])
  with run_start show ?case
    by (auto simp: initialize_server_def Let_def server_inv_def sent_ok_def
        manager_inv_create_manager split: option.splits)
next
  case (run_connect n st s)
  then show ?case by (simp add: inv_connect)
next
  case (run_message n st s e m)
  then have inv: "server_inv n st" by (simp split: if_splits)
  then have "0 \<le> s" using run_message by (simp add: server_inv_def table_inv_def)
  with run_message inv show ?case by (intro inv_handle_message) (auto split: if_splits)
next
  case (run_disconnect n st s)
  then show ?case by (simp add: inv_disconnect)
qed

section \<open>The manager of a running server is reachable\<close>

text \<open>A handler works on the manager by its public functions only.\<close>

named_theorems reaches \<open>the manager's functions lead from reachable states to reachable states\<close>

lemma reach_join [reaches]:
  "gm_reach n gm \<Longrightarrow> game_manager_join_game gm i s name = Inr gm' \<Longrightarrow> s \<noteq> -1 \<Longrightarrow>
   s \<noteq> game_manager_get_owner_socket gm i \<Longrightarrow> gm_reach n gm'"
  using gm_op [of n gm "Join i s name"] by (simp add: keep_def)

lemma reach_decision [reaches]:
  "gm_reach n gm \<Longrightarrow> game_manager_join_decision gm i a = Inr (gm', r) \<Longrightarrow> gm_reach n gm'"
  using gm_op [of n gm "Decide i a"] by (simp add: keep_def)

lemma reach_move [reaches]:
  "gm_reach n gm \<Longrightarrow> game_manager_move gm i s row col = Inr (gm', r) \<Longrightarrow> gm_reach n gm'"
  using gm_op [of n gm "Play i s row col"] by (simp add: keep_def)

lemma reach_post_game [reaches]:
  "gm_reach n gm \<Longrightarrow> game_manager_post_game_decision gm i s w = Inr (gm', d) \<Longrightarrow> s \<noteq> -1 \<Longrightarrow> gm_reach n gm'"
  using gm_op [of n gm "Answer i s w"] by (simp add: keep_def)

lemma reach_leave [reaches]:
  "gm_reach n gm \<Longrightarrow> gm_reach n (case game_manager_leave_game gm i s of Inl e \<Rightarrow> gm | Inr gm' \<Rightarrow> gm')"
  using gm_op [of n gm "Leave i s"] by (simp add: keep_def split: sum.splits)

lemma reach_cleanup [reaches]:
  "gm_reach n gm \<Longrightarrow> gm_reach n (game_manager_cleanup_creator_games gm s i)"
  using gm_op [of n gm "Cleanup s i"] by simp

lemma mark_players_manager [simp]: "game_manager (mark_players x y i st) = game_manager st"
  by (simp add: mark_players_def)

lemma restart_round_manager [simp]: "game_manager (restart_round x y i st) = game_manager st"
  by (simp add: restart_round_def Let_def split: sum.split)

lemma resume_game_manager [simp]: "game_manager (resume_game e s i w x y st) = game_manager st"
  by (simp add: resume_game_def Let_def)

lemma reach_handle_create:
  assumes "gm_reach n (game_manager st)" "s \<noteq> -1"
  shows "gm_reach (if \<not> client_is_playing st s \<and> malloc_ok e then Suc n else n)
           (game_manager (handle_create_game e s st))"
proof (cases "client_is_playing st s")
  case True
  with assms show ?thesis by (simp add: handle_create_game_def)
next
  case False
  let ?name = "find_username_by_socket st s (''Unknown'' @ zeros 25) 32"
  show ?thesis
  proof (cases "game_manager_create_game (game_manager st) (malloc_ok e) s ?name")
    case (Inl err)
    with False assms create_game_Inl [OF Inl] show ?thesis by (simp add: handle_create_game_def Let_def)
  next
    case (Inr r)
    then obtain gm i where c: "game_manager_create_game (game_manager st) (malloc_ok e) s ?name = Inr (gm, i)"
      by (cases r) auto
    have "game_manager (handle_create_game e s st) = gm"
      unfolding handle_create_game_def Let_def c if_not_P [OF False] sum.case prod.case by simp
    with gm_create [OF assms c] create_game_cases [OF c] False show ?thesis by simp
  qed
qed

lemma reach_handle_join:
  assumes "gm_reach n (game_manager st)" "s \<noteq> -1"
  shows "gm_reach n (game_manager (handle_join_request s i st))"
  using assms reach_join [OF assms(1)]
  by (auto simp: handle_join_request_def Let_def split: sum.split)

lemma reach_handle_decision:
  assumes "gm_reach n (game_manager st)"
  shows "gm_reach n (game_manager (handle_join_decision s a i st))"
  using assms reach_decision [OF assms]
  by (auto simp: handle_join_decision_def Let_def split: sum.split intro: reach_cleanup)

lemma reach_handle_move:
  assumes "gm_reach n (game_manager st)"
  shows "gm_reach n (game_manager (handle_move e s m st))"
  using assms reach_move [OF assms]
  by (auto simp: handle_move_def Let_def split: sum.split option.split)

lemma reach_handle_post_game:
  assumes "gm_reach n (game_manager st)" "s \<noteq> -1"
  shows "gm_reach n (game_manager (handle_post_game_decision e s i w st))"
proof (cases "game_manager_post_game_decision (game_manager st) i s w")
  case (Inl err)
  with assms show ?thesis by (simp add: handle_post_game_decision_def)
next
  case (Inr r)
  then obtain gm d where p: "game_manager_post_game_decision (game_manager st) i s w = Inr (gm, d)"
    by (cases r) auto
  have gm: "gm_reach n gm" by (rule reach_post_game [OF assms(1) p assms(2)])
  have "game_manager (handle_post_game_decision e s i w st) =
      (if w then gm else case game_manager_leave_game gm i s of Inl e \<Rightarrow> gm | Inr gm' \<Rightarrow> gm')"
    unfolding handle_post_game_decision_def p sum.case prod.case Let_def
    by (auto split: sum.split)
  with gm reach_leave [OF gm] show ?thesis by simp
qed

lemma reach_handle_message:
  assumes "gm_reach n (game_manager st)" "s \<noteq> -1"
  shows "gm_reach (if creates e s m st then Suc n else n) (game_manager (handle_message e s m st))"
proof (cases "msg_type m = MSG_CREATE_GAME")
  case True
  with reach_handle_create [OF assms, of e] show ?thesis by (simp add: creates_def handle_message_def)
next
  case False
  then have "\<not> creates e s m st" by (simp add: creates_def)
  with False assms show ?thesis
    by (cases "msg_type m")
      (simp_all add: handle_message_def reach_handle_join reach_handle_decision reach_handle_post_game
        reach_handle_move handle_set_username_def handle_list_game_def handle_leave_game_def
        Let_def reach_cleanup reach_leave)
qed

lemma server_run_reach: "server_run n st \<Longrightarrow> n \<le> 2 ^ 32 \<Longrightarrow> gm_reach n (game_manager st)"
proof (induction rule: server_run.induct)
  case (run_start st)
  then show ?case
    by (auto simp: initialize_server_def Let_def intro: gm_start split: option.splits)
next
  case (run_connect n st s)
  have "game_manager (fst (client_connect s st)) = game_manager st"
    by (auto simp: client_connect_def add_client_def split: option.split)
  with run_connect show ?case by simp
next
  case (run_message n st s e m)
  then have n: "n \<le> 2 ^ 32" by (simp split: if_splits)
  then have "0 \<le> s"
    using server_run_inv [OF run_message(1)] run_message(2) by (simp add: server_inv_def table_inv_def)
  with run_message n show ?case by (intro reach_handle_message) auto
next
  case (run_disconnect n st s)
  have "game_manager (remove_client st s) = game_manager st"
    by (simp add: remove_client_def split: option.split)
  with run_disconnect have "gm_reach n (game_manager (remove_client st s))" by simp
  then show ?case
    by (simp add: client_disconnect_def Let_def reach_cleanup reach_leave)
qed

end
