(* ===== verification/Game_Props.thy ===== *)
theory Game_Props
  imports Game_Runs
begin

text \<open>
  The properties of the game manager, over every state that \<open>gm_reach\<close> reaches: what a move does,
  that games follow the rules, identifiers, seats, leaving, the clean-up of a creator's games, the
  list of open games, and what the answers after a game lead to.

  \<open>run_ops\<close> executes a list of operations and checks the guards: the concrete runs of the
  witnesses are evaluated with it.
\<close>

section \<open>Concrete runs\<close>

fun run_ops :: "gm_op list \<Rightarrow> nat \<Rightarrow> GameManager \<Rightarrow> (nat \<times> GameManager) option" where
  "run_ops [] n gm = Some (n, gm)"
| "run_ops (ev # evs) n gm =
     (if \<not> gm_guard ev gm then None
      else case ev of
        Create alloc s owner \<Rightarrow>
          (case game_manager_create_game gm alloc s owner of
             Inl e \<Rightarrow> run_ops evs n gm | Inr (gm', i) \<Rightarrow> run_ops evs (n + 1) gm')
      | _ \<Rightarrow> run_ops evs n (gm_apply ev gm))"

lemma run_ops_reach: "run_ops evs n gm = Some (n', gm') \<Longrightarrow> gm_reach n gm \<Longrightarrow> gm_reach n' gm'"
proof (induction evs n gm rule: run_ops.induct)
  case (2 ev evs n gm)
  then have g: "gm_guard ev gm" by (simp split: if_splits)
  show ?case
  proof (cases ev)
    case (Create alloc s owner)
    with 2 g gm_create [of n gm s alloc owner] show ?thesis
      by (cases "game_manager_create_game gm alloc s owner") auto
  next
    case (Join i s name)
    with 2 g gm_op [OF "2.prems"(2) g] show ?thesis by auto
  next
    case (Decide i a)
    with 2 g gm_op [OF "2.prems"(2) g] show ?thesis by simp
  next
    case (Play i s r c)
    with 2 g gm_op [OF "2.prems"(2) g] show ?thesis by simp
  next
    case (Leave i s)
    with 2 g gm_op [OF "2.prems"(2) g] show ?thesis by simp
  next
    case (Cleanup s i)
    with 2 g gm_op [OF "2.prems"(2) g] show ?thesis by simp
  next
    case (Answer i s w)
    with 2 g gm_op [OF "2.prems"(2) g] show ?thesis by simp
  qed
qed simp

lemma run_ops_start: "run_ops evs 0 \<lparr>games = [], next_game_id = 0\<rparr> = Some (n, gm) \<Longrightarrow> gm_reach n gm"
  by (rule run_ops_reach, assumption) (rule gm_start, simp add: game_manager_create_def)

text \<open>A game in progress: client 3 has created it, client 4 has joined, X has the middle.\<close>

definition first_moves :: "gm_op list" where
  "first_moves = [Create True 3 ''ann'', Join 0 4 ''bob'', Decide 0 True, Play 0 3 1 1]"

definition x_wins :: "gm_op list" where
  "x_wins = first_moves @ [Play 0 4 0 0, Play 0 3 0 2, Play 0 4 0 1, Play 0 3 2 0]"

definition draw_game :: "gm_op list" where
  "draw_game = first_moves @ [Play 0 4 0 0, Play 0 3 0 1, Play 0 4 2 1, Play 0 3 1 0, Play 0 4 1 2,
     Play 0 3 0 2, Play 0 4 2 0, Play 0 3 2 2]"

definition manager_after :: "gm_op list \<Rightarrow> GameManager" where
  "manager_after evs = snd (the (run_ops evs 0 \<lparr>games = [], next_game_id = 0\<rparr>))"

definition game_after :: "gm_op list \<Rightarrow> Game" where
  "game_after evs = the (find_game (games (manager_after evs)) 0)"

lemma runs_reach:
  assumes "map_option fst (run_ops evs 0 \<lparr>games = [], next_game_id = 0\<rparr>) = Some n"
  shows "gm_reach n (manager_after evs)"
  using assms by (auto simp: manager_after_def intro: run_ops_start)

lemma game_found:
  "find_game (games (manager_after evs)) 0 \<noteq> None \<Longrightarrow>
   find_game (games (manager_after evs)) 0 = Some (game_after evs)"
  by (auto simp: game_after_def)

lemma first_moves_reach: "gm_reach 1 (manager_after first_moves)"
  by (rule runs_reach) code_simp

lemma first_moves_game: "find_game (games (manager_after first_moves)) 0 = Some (game_after first_moves)"
  by (rule game_found) code_simp

lemma x_wins_reach: "gm_reach 1 (manager_after x_wins)"
  by (rule runs_reach) code_simp

lemma x_wins_game: "find_game (games (manager_after x_wins)) 0 = Some (game_after x_wins)"
  by (rule game_found) code_simp

lemma draw_game_reach: "gm_reach 1 (manager_after draw_game)"
  by (rule runs_reach) code_simp

lemma draw_game_game: "find_game (games (manager_after draw_game)) 0 = Some (game_after draw_game)"
  by (rule game_found) code_simp

lemma get_game_eq: "get_game gm = find_game (games gm)"
  by (simp add: get_game_def fun_eq_iff)

section \<open>Games follow the rules\<close>

text \<open>C5. Whatever sequence of requests the manager serves, in whatever order, every game it holds
  is the result of a legal play: the board shows alternating moves on free cells of an undecided
  game, the turn is the one the number of moves demands, the two results are the outcome of the
  board, a waiting game has an empty board and a game in progress is undecided.\<close>

theorem games_follow_the_rules:
  assumes "gm_reach n gm" and "n \<le> 2 ^ 32" and "find_game (games gm) i = Some g"
  shows "\<exists>ms. legal ms (board (state_data g)) \<and>
    current_turn (state_data g) = turn_after (length ms) \<and>
    (result_player_x (state_data g), result_player_o (state_data g)) =
      results_of (outcome (board (state_data g))) \<and>
    (gstate (state_data g) = GAME_WAITING \<longrightarrow> ms = []) \<and>
    (gstate (state_data g) = GAME_IN_PROGRESS \<longrightarrow> outcome (board (state_data g)) = Undecided)"
proof -
  have "game_inv g" using manager_inv_game [OF gm_reach_inv [OF assms(1,2)] assms(3)] by simp
  then obtain ms where "play_ok g ms" by (rule game_invE)
  then show ?thesis by (intro exI [of _ ms]) (auto simp: play_ok_def phase_ok_def)
qed

theorem games_follow_the_rules_witness:
  "\<exists>ms. legal ms (board (state_data (game_after x_wins)))"
  using games_follow_the_rules [OF x_wins_reach _ x_wins_game] by auto

text \<open>C10. The manager accepts a move exactly when the rules allow it. In any state the manager reaches,
  if the board of a game is the result of the play \<open>ms\<close>, then a client's move is accepted exactly when
  the game is in progress, the client sits in the seat whose turn it is after these moves (X's after an
  even number, O's after an odd one) and playing the cell continues the play legally.\<close>

theorem move_accepted_iff:
  assumes "gm_reach n gm" and "n \<le> 2 ^ 32" and "find_game (games gm) i = Some g" and "s \<noteq> -1"
    and "legal ms (board (state_data g))"
  shows "(\<exists>r. game_manager_move gm i s row col = Inr r) \<longleftrightarrow>
    gstate (state_data g) = GAME_IN_PROGRESS \<and>
    s = (if even (length ms) then player_x_socket g else player_o_socket g) \<and>
    (\<exists>b. legal (ms @ [(unat row, unat col)]) b)"
proof -
  have inv: "game_inv g" "seats_ok g" using manager_inv_game [OF gm_reach_inv [OF assms(1,2)] assms(3)] by simp_all
  then obtain ns where ns: "play_ok g ns" by (auto elim: game_invE)
  then have "length ns = length ms" using legal_same_length [OF _ assms(5)] by (simp add: play_ok_def)
  with ns have turn: "current_turn (state_data g) = (if even (length ms) then PLAYER_X else PLAYER_O)"
    by (simp add: play_ok_def turn_after_def)
  have undecided: "gstate (state_data g) = GAME_IN_PROGRESS \<Longrightarrow> outcome (board (state_data g)) = Undecided"
    using ns by (simp add: play_ok_def phase_ok_def)
  have seat: "player_of_socket g s = Some (current_turn (state_data g)) \<longleftrightarrow>
      s = (if even (length ms) then player_x_socket g else player_o_socket g)"
    using inv(2) assms(4) by (auto simp: turn player_of_socket_def seats_ok_def)
  have bounds: "row \<le> 2 \<longleftrightarrow> unat row < 3" "col \<le> 2 \<longleftrightarrow> unat col < 3" by (auto simp: word_le_nat_alt)
  have "(\<exists>r. game_manager_move gm i s row col = Inr r) \<longleftrightarrow>
      player_of_socket g s = Some (current_turn (state_data g)) \<and> move_legal g (current_turn (state_data g)) row col"
    using assms(3) by (auto simp: move_unfold move_legal_def split: option.split)
  with seat undecided bounds show ?thesis
    unfolding legal_next_iff [OF assms(5)] by (auto simp: move_legal_def)
qed

text \<open>After X has taken the middle, O may take a corner, X may not, and nobody may take the middle.\<close>

theorem move_accepted_iff_witness:
  "(\<exists>r. game_manager_move (manager_after first_moves) 0 4 0 0 = Inr r) \<and>
   \<not> (\<exists>r. game_manager_move (manager_after first_moves) 0 3 0 0 = Inr r) \<and>
   \<not> (\<exists>r. game_manager_move (manager_after first_moves) 0 4 1 1 = Inr r)"
proof -
  let ?b = "board (state_data (game_after first_moves))"
  have b: "?b = place empty_board 1 1 (mark (turn_after (length ([] :: (nat \<times> nat) list))))" by code_simp
  have l: "legal [(1, 1)] ?b" unfolding b using legal_move [OF legal_start, of 1 1] by simp
  note m = move_accepted_iff [OF first_moves_reach _ first_moves_game _ l]
  have f: "gstate (state_data (game_after first_moves)) = GAME_IN_PROGRESS" "player_o_socket (game_after first_moves) = 4"
    "outcome ?b = Undecided" "cell ?b 0 0 = CHR '' ''" "cell ?b 1 1 \<noteq> CHR '' ''" by code_simp+
  show ?thesis
    using m [of 4 0 0] m [of 3 0 0] m [of 4 1 1] f unfolding legal_next_iff [OF l] by simp
qed

text \<open>C9. An accepted move marks exactly the cell it names with the mover's sign, passes the turn to
  the other player, ends the game exactly when the rules say so and reports the winner, leaves
  the seats as they are and does not touch any other game.\<close>

theorem move_effect:
  assumes reach: "gm_reach n gm" "n \<le> 2 ^ 32"
    and move: "game_manager_move gm i s row col = Inr (gm', finished, winner)"
    and g: "find_game (games gm) i = Some g" "player_of_socket g s = Some p"
    and b: "b = place (board (state_data g)) (unat row) (unat col) (mark p)"
  shows "\<exists>g'. find_game (games gm') = (find_game (games gm))(i \<mapsto> g') \<and>
    board (state_data g') = b \<and>
    current_turn (state_data g') = (if p = PLAYER_X then PLAYER_O else PLAYER_X) \<and>
    gstate (state_data g') = (if outcome b = Undecided then GAME_IN_PROGRESS else GAME_FINISHED) \<and>
    (finished, winner) = (outcome b \<noteq> Undecided,
       if outcome b = Undecided then None else Some (snd (outcome_code (outcome b)))) \<and>
    player_x_socket g' = player_x_socket g \<and> player_o_socket g' = player_o_socket g"
proof -
  have inv: "manager_inv n gm" by (rule gm_reach_inv [OF reach])
  then have gi: "game_inv g" and d: "ids_distinct gm"
    using manager_inv_game [OF inv g(1)] by (simp_all add: manager_inv_def)
  obtain h q where h: "find_game (games gm) i = Some h" "player_of_socket h s = Some q"
    "move_legal h q row col" "gm' = set_game gm (after_move h q row col)"
    "(finished, winner) = move_report h q row col"
    by (rule move_cases [OF move])
  then have "h = g" "q = p" using g by simp_all
  with h have ok: "move_legal g p row col" and gm': "gm' = set_game gm (after_move g p row col)"
    and rep: "(finished, winner) = move_report g p row col" by simp_all
  note after = after_move_state [OF gi ok b]
  have "find_game (games gm') = (find_game (games gm))(i \<mapsto> after_move g p row col)"
    using get_set [OF d, of i g "after_move g p row col"] g after_move_seats(2) [OF gi ok]
    by (simp add: gm' get_game_eq)
  moreover have "(finished, winner) = (outcome b \<noteq> Undecided,
       if outcome b = Undecided then None else Some (snd (outcome_code (outcome b))))"
    using after(2) b by (cases "outcome b") (simp_all add: rep move_report_def)
  ultimately show ?thesis
    using after(1) by (intro exI [of _ "after_move g p row col"]) simp
qed

theorem move_effect_witness:
  "\<exists>g'. find_game (games (manager_after (first_moves @ [Play 0 4 0 0]))) 0 = Some g' \<and>
     board (state_data g') = [''O  '', '' X '', ''   '']"
proof -
  have "game_manager_move (manager_after first_moves) 0 4 0 0 =
      Inr (manager_after (first_moves @ [Play 0 4 0 0]), False, None)" by code_simp
  moreover have "player_of_socket (game_after first_moves) 4 = Some PLAYER_O" by code_simp
  moreover have "[''O  '', '' X '', ''   ''] =
      place (board (state_data (game_after first_moves))) (unat (0::u8)) (unat (0::u8)) (mark PLAYER_O)"
    by code_simp
  ultimately show ?thesis
    using move_effect [OF first_moves_reach _ _ first_moves_game] by fastforce
qed

section \<open>Identifiers and seats\<close>

text \<open>The identifiers that were given out in the course of a sequence of operations.\<close>

fun created_ids :: "gm_op list \<Rightarrow> GameManager \<Rightarrow> u32 list" where
  "created_ids [] gm = []"
| "created_ids (ev # evs) gm =
     (case ev of
        Create alloc s owner \<Rightarrow>
          (case game_manager_create_game gm alloc s owner of Inl e \<Rightarrow> [] | Inr (gm', i) \<Rightarrow> [i])
      | _ \<Rightarrow> []) @ created_ids evs (gm_apply ev gm)"

definition gids :: "GameManager \<Rightarrow> u32 set" where
  "gids gm = gid ` set (games gm)"

lemma set_remove_game: "set (remove_game gs i) \<subseteq> set gs"
  by (induction gs) auto

lemma gids_set_game [simp]: "gids (set_game gm g) = gids gm"
  by (simp add: gids_def set_game_def gid_image_put)

lemma try_leave_ids: "next_game_id (try_leave s i gm) = next_game_id gm \<and> gids (try_leave s i gm) \<subseteq> gids gm"
  using set_remove_game [of "games gm" i]
  by (auto simp: try_leave_def leave_game_unfold unlink_game_def set_game_def split: option.split sum.split)
    (auto simp: gids_def gid_image_put)

lemma cleanup_ids: "next_game_id (fold (try_leave s) is gm) = next_game_id gm \<and> gids (fold (try_leave s) is gm) \<subseteq> gids gm"
proof (induction "is" arbitrary: gm)
  case (Cons i "is")
  from Cons.IH [of "try_leave s i gm"] try_leave_ids [of s i gm] show ?case by auto
qed simp

lemma leave_ids: "gm_apply (Leave i s) gm = try_leave s i gm"
  by (simp add: try_leave_def keep_def split: sum.split)

lemma next_id_set_game [simp]: "next_game_id (set_game gm g) = next_game_id gm"
  by (simp add: set_game_def)

lemma ops_set_game:
  "game_manager_join_game gm i s name = Inr gm' \<Longrightarrow> \<exists>g. gm' = set_game gm g"
  "game_manager_join_decision gm i a = Inr (gm', r) \<Longrightarrow> \<exists>g. gm' = set_game gm g"
  "game_manager_move gm i s row col = Inr (gm', m) \<Longrightarrow> \<exists>g. gm' = set_game gm g"
  "game_manager_post_game_decision gm i s a = Inr (gm', d) \<Longrightarrow> \<exists>g. gm' = set_game gm g"
proof -
  show "game_manager_join_game gm i s name = Inr gm' \<Longrightarrow> \<exists>g. gm' = set_game gm g"
    by (auto simp: game_manager_join_game_def split: option.splits if_splits)
  show "game_manager_join_decision gm i a = Inr (gm', r) \<Longrightarrow> \<exists>g. gm' = set_game gm g"
    by (auto simp: game_manager_join_decision_def split: option.splits if_splits)
qed (use move_cases post_game_cases in blast)+

text \<open>Only a creation moves the counter, and no other operation brings an identifier into the list.\<close>

lemma apply_ids:
  assumes "\<forall>alloc s owner. ev \<noteq> Create alloc s owner"
  shows "next_game_id (gm_apply ev gm) = next_game_id gm \<and> gids (gm_apply ev gm) \<subseteq> gids gm"
proof (cases ev)
  case (Leave i s)
  show ?thesis unfolding Leave leave_ids by (rule try_leave_ids)
next
  case (Cleanup s i)
  then show ?thesis using cleanup_ids by (simp add: game_manager_cleanup_creator_games_def)
qed (use assms in \<open>auto simp: keep_def split: sum.splits prod.splits
    dest!: ops_set_game\<close>)

text \<open>The counter has gone up by one with each creation, and every game has one of the identifiers given out.\<close>

definition ids_inv :: "u32 list \<Rightarrow> GameManager \<Rightarrow> bool" where
  "ids_inv is gm \<longleftrightarrow> next_game_id gm = of_nat (length is) \<and> is = map of_nat [0..<length is] \<and> gids gm \<subseteq> set is"

lemma ids_inv_create:
  assumes "ids_inv is gm" "game_manager_create_game gm alloc s owner = Inr (gm', i)"
  shows "ids_inv (is @ [i]) gm'"
proof -
  have c: "i = next_game_id gm" "gm' = append_game (gm\<lparr>next_game_id := next_game_id gm + 1\<rparr>) (new_game i s owner)"
    using create_game_cases [OF assms(2)] by auto
  then have "gids gm' = insert i (gids gm)" by (simp add: gids_def append_game_def new_game_def)
  moreover have "next_game_id gm' = next_game_id gm + 1" using c by (simp add: append_game_def)
  moreover have "is @ [i] = map of_nat [0..<length (is @ [i])]" using assms(1) c(1) by (simp add: ids_inv_def)
  ultimately show ?thesis using assms(1) by (auto simp: ids_inv_def)
qed

lemma ids_inv_run: "ids_inv is gm \<Longrightarrow> ids_inv (is @ created_ids ops gm) (fold gm_apply ops gm)"
proof (induction ops arbitrary: "is" gm)
  case (Cons ev ops)
  let ?new = "case ev of
      Create alloc s owner \<Rightarrow> (case game_manager_create_game gm alloc s owner of Inl e \<Rightarrow> [] | Inr (gm', i) \<Rightarrow> [i])
    | _ \<Rightarrow> []"
  have "ids_inv (is @ ?new) (gm_apply ev gm)"
  proof (cases "\<exists>alloc s owner. ev = Create alloc s owner")
    case True
    then show ?thesis
      using Cons.prems ids_inv_create by (auto simp: keep_def split: sum.split prod.split)
  next
    case False
    then have "?new = []" by (cases ev) auto
    with apply_ids [of ev gm] False Cons.prems show ?thesis by (auto simp: ids_inv_def)
  qed
  from Cons.IH [OF this] show ?case by simp
qed simp

text \<open>C24. A new game gets an identifier that was never given out before, not even to a game that has gone
  since: whatever operations were served after the start, in whatever order, as long as fewer than
  2^32 games were created among them, the next creation returns an identifier different from all theirs.
  The new game is appended to the list, waiting and empty, with its owner as player X.\<close>

theorem create_gives_fresh_game:
  assumes "game_manager_create True = Some gm0" and "gm = fold gm_apply ops gm0"
    and "length (created_ids ops gm0) < 2 ^ 32"
    and "game_manager_create_game gm alloc s owner = Inr (gm', i)"
  shows "i \<notin> set (created_ids ops gm0) \<and> find_game (games gm) i = None \<and>
    (\<exists>g. games gm' = games gm @ [g] \<and> gid g = i \<and> joinable g \<and> player_x_socket g = s \<and>
         cstr (owner_username g) = take 31 (cstr owner) \<and> board (state_data g) = empty_board)"
proof -
  let ?is = "created_ids ops gm0"
  have "ids_inv [] gm0" using assms(1) by (auto simp: game_manager_create_def ids_inv_def gids_def)
  from ids_inv_run [OF this, of ops] have inv: "ids_inv ?is gm" by (simp add: assms(2))
  have i: "i = next_game_id gm" and gm': "games gm' = games gm @ [new_game i s owner]"
    using create_game_cases [OF assms(4)] by (simp_all add: append_game_def)
  have "i \<notin> set ?is"
  proof
    assume "i \<in> set ?is"
    with inv obtain k where k: "k < length ?is" "i = of_nat k"
      unfolding ids_inv_def by (metis (no_types, lifting) atLeastLessThan_iff imageE list.set_map set_upt)
    have l: "i = of_nat (length ?is)" using inv i by (simp add: ids_inv_def)
    have "unat i = k" unfolding k(2) using k(1) assms(3) by (simp add: unat_of_nat)
    moreover have "unat i = length ?is" unfolding l using assms(3) by (simp add: unat_of_nat)
    ultimately show False using k(1) by simp
  qed
  moreover from this have "find_game (games gm) i = None"
    using inv by (auto simp: ids_inv_def gids_def find_game_None)
  ultimately show ?thesis
    using gm' by (simp add: new_game_def joinable_def clear_round_def cstr_copy_string)
qed

text \<open>Game 0 is created and left, which unlinks it; the next game is not game 0 again.\<close>

theorem create_gives_fresh_game_witness:
  "\<exists>gm' i. game_manager_create_game
       (fold gm_apply [Create True 3 ''ann'', Leave 0 3] \<lparr>games = [], next_game_id = 0\<rparr>) True 5 ''eve'' = Inr (gm', i) \<and>
     created_ids [Create True 3 ''ann'', Leave 0 3] \<lparr>games = [], next_game_id = 0\<rparr> = [0] \<and> i \<noteq> 0"
proof -
  let ?ops = "[Create True 3 ''ann'', Leave 0 3]" and ?gm0 = "\<lparr>games = [], next_game_id = 0\<rparr> :: GameManager"
  have c: "created_ids ?ops ?gm0 = [0]" by code_simp
  have "\<not> isl (game_manager_create_game (fold gm_apply ?ops ?gm0) True 5 ''eve'')" by code_simp
  then obtain gm' i where g: "game_manager_create_game (fold gm_apply ?ops ?gm0) True 5 ''eve'' = Inr (gm', i)"
    by (cases "game_manager_create_game (fold gm_apply ?ops ?gm0) True 5 ''eve''") auto
  have s: "game_manager_create True = Some ?gm0" by (simp add: game_manager_create_def)
  have l: "length (created_ids ?ops ?gm0) < 2 ^ 32" unfolding c by simp
  from conjunct1 [OF create_gives_fresh_game [OF s refl l g]] have "i \<noteq> 0" unfolding c by simp
  with g c show ?thesis by blast
qed


text \<open>Nobody plays against himself: in every game whose owner is present, the owner is neither
  the opponent nor the client that waits for the owner's decision.\<close>

theorem seats_are_distinct:
  assumes "gm_reach n gm" and "n \<le> 2 ^ 32" and "find_game (games gm) i = Some g"
    and "player_x_socket g \<noteq> -1"
  shows "player_x_socket g \<noteq> player_o_socket g \<and> player_x_socket g \<noteq> waiting_player_socket g"
  using manager_inv_game [OF gm_reach_inv [OF assms(1,2)] assms(3)] assms(4) by (simp add: seats_ok_def)

theorem seats_are_distinct_witness:
  "player_x_socket (game_after first_moves) \<noteq> player_o_socket (game_after first_moves)"
proof -
  have "player_x_socket (game_after first_moves) \<noteq> -1" by code_simp
  with seats_are_distinct [OF first_moves_reach _ first_moves_game] show ?thesis by simp
qed

text \<open>Leaving frees the seat: afterwards the leaver holds no seat of the game, an emptied game
  is gone from the list, and no other game changes.\<close>

theorem leave_frees_the_seat:
  assumes reach: "gm_reach n gm" "n \<le> 2 ^ 32" and s: "s \<noteq> -1"
    and leave: "game_manager_leave_game gm i s = Inr gm'"
  shows "(\<forall>j. j \<noteq> i \<longrightarrow> find_game (games gm') j = find_game (games gm) j) \<and>
    (\<forall>g'. find_game (games gm') i = Some g' \<longrightarrow>
       s \<notin> {player_x_socket g', player_o_socket g', waiting_player_socket g'} \<and> \<not> vacant g')"
proof -
  have inv: "manager_inv n gm" by (rule gm_reach_inv [OF reach])
  then have d: "ids_distinct gm" by (simp add: manager_inv_def)
  obtain g g' where f: "find_game (games gm) i = Some g" and v: "vacate g s = Some g'"
    using leave by (auto simp: leave_game_unfold split: option.splits)
  have "try_leave s i gm = gm'" using leave by (simp add: try_leave_def)
  then have look: "get_game gm' = (get_game gm)(i := if vacant g' then None else Some g')"
    using get_try_leave [OF d, of s i] f v by (simp add: get_game_eq left_by_def)
  have g: "game_inv g" "seats_ok g" using manager_inv_game [OF inv f] by auto
  then have "player_o_socket g = -1 \<or> waiting_player_socket g = -1"
    by (cases "gstate (state_data g)") (auto simp: game_inv_def play_ok_def phase_ok_def)
  then have "s \<notin> {player_x_socket g', player_o_socket g', waiting_player_socket g'}"
    using v s g(2) by (auto simp: vacate_def seats_ok_def split: if_splits)
  then show ?thesis using look by (auto simp: get_game_eq split: if_splits)
qed

theorem leave_frees_the_seat_witness:
  "3 \<notin> {player_x_socket (game_after (first_moves @ [Leave 0 3])),
          player_o_socket (game_after (first_moves @ [Leave 0 3])),
          waiting_player_socket (game_after (first_moves @ [Leave 0 3]))}"
proof -
  have l: "game_manager_leave_game (manager_after first_moves) 0 3 =
      Inr (manager_after (first_moves @ [Leave 0 3]))" by code_simp
  have "find_game (games (manager_after (first_moves @ [Leave 0 3]))) 0 =
      Some (game_after (first_moves @ [Leave 0 3]))" by (rule game_found) code_simp
  with leave_frees_the_seat [OF first_moves_reach _ _ l] show ?thesis by simp
qed

lemma cleanup_look:
  assumes reach: "gm_reach n gm" "n \<le> 2 ^ 32"
    and few: "length (filter (owned_by s a) (games gm)) \<le> 128"
    and gm': "gm' = game_manager_cleanup_creator_games gm s a"
  shows "find_game (games gm') i =
     (case find_game (games gm) i of None \<Rightarrow> None
      | Some g \<Rightarrow> if owned_by s a g then left_by s g else Some g)"
proof -
  have "ids_distinct gm" using gm_reach_inv [OF reach] by (simp add: manager_inv_def)
  from get_cleanup [OF this, of s a] few have look: "find_game (games gm') i =
      (if i \<in> gid ` set (filter (owned_by s a) (games gm))
       then Option.bind (find_game (games gm) i) (left_by s) else find_game (games gm) i)" for i
    by (simp add: gm' get_game_eq)
  have own: "i \<in> gid ` set (filter (owned_by s a) (games gm)) \<longleftrightarrow> owned_by s a g"
    if f: "find_game (games gm) i = Some g" for i g
  proof -
    have "h = g" if "h \<in> set (games gm)" "gid h = i" for h
      using that f \<open>ids_distinct gm\<close> find_game_mem [OF f] find_game_gid [OF f]
      by (auto simp: ids_distinct_def distinct_map inj_on_def)
    note uniq = this
    show ?thesis
    proof
      assume "i \<in> gid ` set (filter (owned_by s a) (games gm))"
      then obtain h where "h \<in> set (games gm)" "gid h = i" "owned_by s a h" by auto
      with uniq show "owned_by s a g" by metis
    next
      assume "owned_by s a g"
      with find_game_mem [OF f] find_game_gid [OF f]
      show "i \<in> gid ` set (filter (owned_by s a) (games gm))" by force
    qed
  qed
  show ?thesis
  proof (cases "find_game (games gm) i")
    case None
    then show ?thesis using look [of i] by simp
  next
    case (Some g)
    then show ?thesis using look [of i] own [OF Some] by simp
  qed
qed

lemma cleanup_owns_nothing:
  assumes "gm_reach n gm" "n \<le> 2 ^ 32" and s: "s \<noteq> -1"
    and "length (filter (owned_by s a) (games gm)) \<le> 128"
    and "gm' = game_manager_cleanup_creator_games gm s a"
  shows "find_game (games gm') i = Some g' \<Longrightarrow> \<not> owned_by s a g'"
proof -
  have "\<not> owned_by s a g'" if "owned_by s a g" "left_by s g = Some g'" for g g'
    using that s by (auto simp: owned_by_def left_by_def vacate_def split: if_splits)
  then show "find_game (games gm') i = Some g' \<Longrightarrow> \<not> owned_by s a g'"
    using cleanup_look [OF assms(1,2,4,5), of i] by (auto split: option.splits if_splits)
qed

lemma cleanup_spares:
  assumes "gm_reach n gm" "n \<le> 2 ^ 32"
    and "length (filter (owned_by s a) (games gm)) \<le> 128"
    and "gm' = game_manager_cleanup_creator_games gm s a"
  shows "find_game (games gm) i = Some g \<Longrightarrow> \<not> owned_by s a g \<Longrightarrow> find_game (games gm') i = Some g"
  using cleanup_look [OF assms, of i] by simp

text \<open>The clean-up of a creator who has at most 128 games leaves that socket without a game,
  but for the one that was accepted, and leaves every other game as it was.\<close>

theorem cleanup_removes_ownership:
  assumes reach: "gm_reach n gm" "n \<le> 2 ^ 32" and s: "s \<noteq> -1"
    and few: "length (filter (owned_by s a) (games gm)) \<le> 128"
    and gm': "gm' = game_manager_cleanup_creator_games gm s a"
  shows "(\<forall>i g. find_game (games gm') i = Some g \<longrightarrow> \<not> owned_by s a g) \<and>
    (\<forall>i g. find_game (games gm) i = Some g \<and> \<not> owned_by s a g \<longrightarrow> find_game (games gm') i = Some g)"
  using cleanup_owns_nothing [OF reach s few gm'] cleanup_spares [OF reach few gm'] by blast

text \<open>Client 3 owns the games 1 and 2 when it accepts an opponent in game 2.\<close>

theorem cleanup_removes_ownership_witness:
  "\<not> owned_by 3 2 (the (find_game (games (game_manager_cleanup_creator_games (manager_after
      [Create True 5 ''eve'', Create True 3 ''ann'', Create True 3 ''ann'']) 3 2)) 2))"
proof -
  let ?evs = "[Create True 5 ''eve'', Create True 3 ''ann'', Create True 3 ''ann'']"
  let ?gm = "game_manager_cleanup_creator_games (manager_after ?evs) 3 2"
  have r: "gm_reach 3 (manager_after ?evs)" by (rule runs_reach) code_simp
  have few: "length (filter (owned_by 3 2) (games (manager_after ?evs))) \<le> 128" by code_simp
  have "find_game (games ?gm) 2 \<noteq> None" by code_simp
  then obtain g where "find_game (games ?gm) 2 = Some g" by blast
  moreover have "\<not> owned_by 3 2 g" if "find_game (games ?gm) 2 = Some g" for g
    using conjunct1 [OF cleanup_removes_ownership [OF r _ _ few refl]] that by auto
  ultimately show ?thesis by simp
qed

section \<open>The list of open games\<close>

text \<open>The list of open games is the first ten games that wait for an opponent and have no
  pending request, in the order of their creation.\<close>

theorem lobby_lists_open_games:
  "game_manager_list_games gm = map snapshot (take 10 (filter joinable (games gm)))"
  by (rule list_games_eq)

section \<open>After a game\<close>

lemma won_results:
  assumes "game_inv g" "outcome (board (state_data g)) = Won p"
  shows "\<not> drawn g" "x_has_won g = (p = PLAYER_X)" "p = PLAYER_X \<or> p = PLAYER_O"
  using assms by (auto simp: game_inv_def play_ok_def drawn_def x_has_won_def outcome_def split: if_splits)

lemma post_game_look:
  assumes inv: "manager_inv n gm" and f: "find_game (games gm) i = Some g"
    and s: "s \<noteq> -1" "s = player_x_socket g \<or> s = player_o_socket g"
  obtains gm' where
    "game_manager_post_game_decision gm i s wants = Inr (gm', snd (decide_post_game g s wants))"
    "find_game (games gm') = (find_game (games gm))(i \<mapsto> fst (decide_post_game g s wants))"
proof -
  have g: "game_inv g" "seats_ok g" "ids_distinct gm"
    using manager_inv_game [OF inv f] inv by (auto simp: manager_inv_def)
  have "find_game (games (set_game gm (fst (decide_post_game g s wants)))) =
      (find_game (games gm))(i \<mapsto> fst (decide_post_game g s wants))"
    using get_set [OF g(3), of i g] f decide_post_game_inv(3) [OF g(1,2) s, of wants]
    by (simp add: get_game_eq)
  with f s that show ?thesis by (simp add: post_game_unfold)
qed

text \<open>The winner who wants to go on keeps the game: it becomes the owner, the board is cleared,
  the loser's seat is freed and the game is open for a new opponent. The decision is complete at
  once and no other game changes.\<close>

theorem winner_goes_on:
  assumes reach: "gm_reach n gm" "n \<le> 2 ^ 32" and f: "find_game (games gm) i = Some g"
    and won: "outcome (board (state_data g)) = Won p"
    and s: "s \<noteq> -1" "player_of_socket g s = Some p" "player_x_socket g \<noteq> player_o_socket g"
  shows "\<exists>gm' g'. game_manager_post_game_decision gm i s True = Inr (gm', True) \<and>
    find_game (games gm') = (find_game (games gm))(i \<mapsto> g') \<and>
    player_x_socket g' = s \<and> joinable g' \<and> board (state_data g') = empty_board"
proof -
  have inv: "manager_inv n gm" by (rule gm_reach_inv [OF reach])
  have seat: "s = player_x_socket g \<or> s = player_o_socket g"
    using s(2) by (auto simp: player_of_socket_def split: if_splits)
  note w = won_results [OF conjunct1 [OF manager_inv_game [OF inv f]] won]
  obtain gm' where gm': "game_manager_post_game_decision gm i s True = Inr (gm', snd (decide_post_game g s True))"
    "find_game (games gm') = (find_game (games gm))(i \<mapsto> fst (decide_post_game g s True))"
    by (rule post_game_look [OF inv f s(1) seat])
  have "handle_win_post_game (note_answer g s True) (x_has_won g) s True =
      ((note_answer g s True)\<lparr>player_x_socket := s, player_o_socket := -1, waiting_player_socket := -1,
          state_data := clear_round (state_data g) GAME_WAITING\<rparr>, True)"
    using s w(2,3) by (auto simp: handle_win_post_game_def player_of_socket_def split: if_splits)
  with gm' w(1) have "snd (decide_post_game g s True) = True"
    "player_x_socket (fst (decide_post_game g s True)) = s" "joinable (fst (decide_post_game g s True))"
    "board (state_data (fst (decide_post_game g s True))) = empty_board"
    by (simp_all add: decide_post_game_def joinable_def clear_round_def)
  with gm' show ?thesis by metis
qed

theorem winner_goes_on_witness:
  "\<exists>gm' g'. game_manager_post_game_decision (manager_after x_wins) 0 3 True = Inr (gm', True) \<and>
     joinable g' \<and> find_game (games gm') 0 = Some g'"
proof -
  have "outcome (board (state_data (game_after x_wins))) = Won PLAYER_X"
    "player_of_socket (game_after x_wins) 3 = Some PLAYER_X"
    "player_x_socket (game_after x_wins) \<noteq> player_o_socket (game_after x_wins)" by code_simp+
  from winner_goes_on [OF x_wins_reach _ x_wins_game this(1) _ this(2,3)] obtain gm' g' where
    "game_manager_post_game_decision (manager_after x_wins) 0 3 True = Inr (gm', True)"
    "find_game (games gm') = (find_game (games (manager_after x_wins)))(0 \<mapsto> g')" "joinable g'"
    by auto
  then show ?thesis by (intro exI [of _ gm'] exI [of _ g']) simp
qed

text \<open>What the loser of a game answers changes nothing that anybody sees: no decision is
  reported, and seats, board, turn and results of the game stay as they are.\<close>

theorem loser_answer_ignored:
  assumes reach: "gm_reach n gm" "n \<le> 2 ^ 32" and f: "find_game (games gm) i = Some g"
    and won: "outcome (board (state_data g)) = Won p"
    and s: "s \<noteq> -1" "player_of_socket g s = Some q" "q \<noteq> p"
  shows "\<exists>gm' g'. game_manager_post_game_decision gm i s wants = Inr (gm', False) \<and>
    find_game (games gm') = (find_game (games gm))(i \<mapsto> g') \<and>
    player_x_socket g' = player_x_socket g \<and> player_o_socket g' = player_o_socket g \<and>
    state_data g' = state_data g"
proof -
  have inv: "manager_inv n gm" by (rule gm_reach_inv [OF reach])
  have seat: "s = player_x_socket g \<or> s = player_o_socket g"
    using s(2) by (auto simp: player_of_socket_def split: if_splits)
  note w = won_results [OF conjunct1 [OF manager_inv_game [OF inv f]] won]
  obtain gm' where gm': "game_manager_post_game_decision gm i s wants = Inr (gm', snd (decide_post_game g s wants))"
    "find_game (games gm') = (find_game (games gm))(i \<mapsto> fst (decide_post_game g s wants))"
    by (rule post_game_look [OF inv f s(1) seat])
  have "handle_win_post_game (note_answer g s wants) (x_has_won g) s wants = (note_answer g s wants, False)"
    using s w(2,3) by (auto simp: handle_win_post_game_def player_of_socket_def split: if_splits)
  then have "decide_post_game g s wants = (note_answer g s wants, False)"
    using w(1) by (simp add: decide_post_game_def)
  with gm' show ?thesis by (metis fst_conv snd_conv note_answer_simps(1,3,4))
qed

theorem loser_answer_ignored_witness:
  "\<exists>gm'. game_manager_post_game_decision (manager_after x_wins) 0 4 True = Inr (gm', False)"
proof -
  have "outcome (board (state_data (game_after x_wins))) = Won PLAYER_X"
    "player_of_socket (game_after x_wins) 4 = Some PLAYER_O" by code_simp+
  from loser_answer_ignored [OF x_wins_reach _ x_wins_game this(1) _ this(2)] show ?thesis by auto
qed

text \<open>C37. After a draw the decision falls with the second answer, whichever of the two players gives it.
  While the other has not answered, an answer is only noted. When the flag of the other's answer is set,
  both flags are cleared, and if both go on, the same two play a new round with X to move; if one goes
  on, that one owns the game, open for a new opponent; if none does, the game stays finished. (The
  flag may be left from a round before; see \<open>stale_answer_decides_draw\<close>.)\<close>

theorem draw_is_decided_by_both:
  assumes reach: "gm_reach n gm" "n \<le> 2 ^ 32" and f: "find_game (games gm) i = Some g"
    and drawn: "outcome (board (state_data g)) = Drawn"
    and s: "s \<noteq> -1" "s \<in> {player_x_socket g, player_o_socket g}"
    and other: "(other, answered, continues) =
      (if s = player_x_socket g then (player_o_socket g, post_game_o_received g, post_game_o_continue g)
       else (player_x_socket g, post_game_x_received g, post_game_x_continue g))"
  shows "\<exists>gm' g'. game_manager_post_game_decision gm i s wants = Inr (gm', answered) \<and>
    find_game (games gm') = (find_game (games gm))(i \<mapsto> g') \<and>
    (\<not> answered \<longrightarrow> g' =
       (if s = player_x_socket g then g\<lparr>post_game_x_received := True, post_game_x_continue := wants\<rparr>
        else g\<lparr>post_game_o_received := True, post_game_o_continue := wants\<rparr>)) \<and>
    (answered \<longrightarrow>
       \<not> post_game_x_received g' \<and> \<not> post_game_o_received g' \<and>
       (wants \<and> continues \<longrightarrow>
          gstate (state_data g') = GAME_IN_PROGRESS \<and> board (state_data g') = empty_board \<and>
          current_turn (state_data g') = PLAYER_X \<and>
          player_x_socket g' = player_x_socket g \<and> player_o_socket g' = player_o_socket g) \<and>
       (wants \<noteq> continues \<longrightarrow>
          joinable g' \<and> board (state_data g') = empty_board \<and> player_x_socket g' = (if wants then s else other)) \<and>
       (\<not> wants \<and> \<not> continues \<longrightarrow>
          state_data g' = (state_data g)\<lparr>gstate := GAME_FINISHED\<rparr> \<and>
          player_x_socket g' = player_x_socket g \<and> player_o_socket g' = player_o_socket g))"
proof -
  have inv: "manager_inv n gm" by (rule gm_reach_inv [OF reach])
  have g: "game_inv g" "seats_ok g" using manager_inv_game [OF inv f] by simp_all
  have seat: "s = player_x_socket g \<or> s = player_o_socket g" using s(2) by simp
  have d: "drawn g" using g drawn by (auto simp: game_inv_def play_ok_def drawn_def)
  let ?d = "handle_draw_post_game (note_answer g s wants)"
  obtain gm' where gm': "game_manager_post_game_decision gm i s wants = Inr (gm', snd ?d)"
    "find_game (games gm') = (find_game (games gm))(i \<mapsto> fst ?d)"
    by (rule post_game_look [OF inv f s(1) seat, of wants]) (simp add: decide_post_game_def d)
  note defs = note_answer_def handle_draw_post_game_def Let_def clear_round_def joinable_def
  have o: "answered = (if s = player_x_socket g then post_game_o_received g else post_game_x_received g)"
    "continues = (if s = player_x_socket g then post_game_o_continue g else post_game_x_continue g)"
    "other = (if s = player_x_socket g then player_o_socket g else player_x_socket g)"
    using other by (auto split: if_splits)
  have "snd ?d = answered" by (simp add: defs o)
  moreover have "\<not> answered \<Longrightarrow> fst ?d = note_answer g s wants"
    by (cases "s = player_x_socket g") (simp_all add: defs o)
  moreover have "answered \<Longrightarrow> \<not> post_game_x_received (fst ?d) \<and> \<not> post_game_o_received (fst ?d)"
    by (cases "s = player_x_socket g") (simp_all add: defs o)
  moreover have "answered \<Longrightarrow> wants \<and> continues \<Longrightarrow>
      gstate (state_data (fst ?d)) = GAME_IN_PROGRESS \<and> board (state_data (fst ?d)) = empty_board \<and>
      current_turn (state_data (fst ?d)) = PLAYER_X \<and>
      player_x_socket (fst ?d) = player_x_socket g \<and> player_o_socket (fst ?d) = player_o_socket g"
    by (cases "s = player_x_socket g") (simp_all add: defs o)
  moreover have "answered \<Longrightarrow> wants \<noteq> continues \<Longrightarrow>
      joinable (fst ?d) \<and> board (state_data (fst ?d)) = empty_board \<and>
      player_x_socket (fst ?d) = (if wants then s else other)"
    using seat by (cases wants) (auto simp: defs o split: if_splits)
  moreover have "answered \<Longrightarrow> \<not> wants \<and> \<not> continues \<Longrightarrow>
      state_data (fst ?d) = (state_data g)\<lparr>gstate := GAME_FINISHED\<rparr> \<and>
      player_x_socket (fst ?d) = player_x_socket g \<and> player_o_socket (fst ?d) = player_o_socket g"
    by (cases "s = player_x_socket g") (simp_all add: defs o)
  ultimately show ?thesis
    using gm' by (intro exI [of _ gm'] exI [of _ "fst ?d"]) (simp add: note_answer_def)
qed

text \<open>O has answered that she goes on; X refuses, so she owns the game.\<close>

theorem draw_is_decided_by_both_witness:
  "\<exists>gm' g'. game_manager_post_game_decision (manager_after (draw_game @ [Answer 0 4 True])) 0 3 False = Inr (gm', True) \<and>
     find_game (games gm') 0 = Some g' \<and> joinable g' \<and> player_x_socket g' = 4"
proof -
  let ?evs = "draw_game @ [Answer 0 4 True]"
  have r: "gm_reach 1 (manager_after ?evs)" by (rule runs_reach) code_simp
  have f: "find_game (games (manager_after ?evs)) 0 = Some (game_after ?evs)" by (rule game_found) code_simp
  have g: "outcome (board (state_data (game_after ?evs))) = Drawn" "player_x_socket (game_after ?evs) = 3"
    "player_o_socket (game_after ?evs) = 4" "post_game_o_received (game_after ?evs)"
    "post_game_o_continue (game_after ?evs)" by code_simp+
  have o: "(4, True, True) = (if 3 = player_x_socket (game_after ?evs) then (player_o_socket (game_after ?evs),
        post_game_o_received (game_after ?evs), post_game_o_continue (game_after ?evs))
      else (player_x_socket (game_after ?evs), post_game_x_received (game_after ?evs), post_game_x_continue (game_after ?evs)))"
    using g by simp
  have "3 \<in> {player_x_socket (game_after ?evs), player_o_socket (game_after ?evs)}" using g by simp
  from draw_is_decided_by_both [OF r _ f g(1) _ this o, of False] show ?thesis by auto
qed

section \<open>What the code does not check\<close>

text \<open>C40. A post-game answer is served in every phase of a game: in the middle of a game, the opponent
  who asks to go on becomes the owner of the game, the board is cleared and the owner loses the
  seat.\<close>

theorem opponent_takes_over_mid_game:
  assumes reach: "gm_reach n gm" "n \<le> 2 ^ 32" and f: "find_game (games gm) i = Some g"
    and running: "gstate (state_data g) = GAME_IN_PROGRESS"
    and s: "s = player_o_socket g" "s \<noteq> -1" "s \<noteq> player_x_socket g"
  shows "\<exists>gm' g'. game_manager_post_game_decision gm i s True = Inr (gm', True) \<and>
    find_game (games gm') = (find_game (games gm))(i \<mapsto> g') \<and>
    player_x_socket g' = s \<and> joinable g' \<and> board (state_data g') = empty_board"
proof -
  have inv: "manager_inv n gm" by (rule gm_reach_inv [OF reach])
  have "game_inv g" using manager_inv_game [OF inv f] by simp
  then have no: "\<not> drawn g" "\<not> x_has_won g"
    using running by (auto simp: game_inv_def play_ok_def phase_ok_def drawn_def x_has_won_def)
  obtain gm' where gm': "game_manager_post_game_decision gm i s True = Inr (gm', snd (decide_post_game g s True))"
    "find_game (games gm') = (find_game (games gm))(i \<mapsto> fst (decide_post_game g s True))"
    by (rule post_game_look [OF inv f s(2) disjI2 [OF s(1)]])
  have "handle_win_post_game (note_answer g s True) (x_has_won g) s True =
      ((note_answer g s True)\<lparr>player_x_socket := s, player_o_socket := -1, waiting_player_socket := -1,
          state_data := clear_round (state_data g) GAME_WAITING\<rparr>, True)"
    using s no by (simp add: handle_win_post_game_def)
  with gm' no have "snd (decide_post_game g s True) = True"
    "player_x_socket (fst (decide_post_game g s True)) = s" "joinable (fst (decide_post_game g s True))"
    "board (state_data (fst (decide_post_game g s True))) = empty_board"
    by (simp_all add: decide_post_game_def joinable_def clear_round_def)
  with gm' show ?thesis by metis
qed

theorem opponent_takes_over_mid_game_witness:
  "\<exists>gm'. game_manager_post_game_decision (manager_after first_moves) 0 4 True = Inr (gm', True)"
proof -
  have "gstate (state_data (game_after first_moves)) = GAME_IN_PROGRESS"
    "4 = player_o_socket (game_after first_moves)" "4 \<noteq> player_x_socket (game_after first_moves)"
    by code_simp+
  from opponent_takes_over_mid_game [OF first_moves_reach _ first_moves_game this(1,2) _ this(3)]
  show ?thesis by auto
qed



text \<open>Refusing a request after the owner has left leaves a game without any client in the list:
  it is never unlinked by a later leave and is offered to everybody as open.\<close>

theorem refused_game_without_owner_stays:
  "\<exists>gm g. gm_reach 1 gm \<and> find_game (games gm) 0 = Some g \<and> vacant g \<and>
     map snap_id (game_manager_list_games gm) = [0] \<and>
     game_manager_leave_game gm 0 3 = Inl Minus1 \<and> game_manager_leave_game gm 0 4 = Inl Minus1"
proof -
  let ?evs = "[Create True 3 ''ann'', Join 0 4 ''bob'', Leave 0 3, Decide 0 False]"
  have "gm_reach 1 (manager_after ?evs)" by (rule runs_reach) code_simp
  moreover have "find_game (games (manager_after ?evs)) 0 = Some (game_after ?evs)"
    by (rule game_found) code_simp
  moreover have "vacant (game_after ?evs)" by code_simp
  moreover have "map snap_id (game_manager_list_games (manager_after ?evs)) = [0]" by code_simp
  moreover have "game_manager_leave_game (manager_after ?evs) 0 3 = Inl Minus1"
    "game_manager_leave_game (manager_after ?evs) 0 4 = Inl Minus1" by code_simp+
  ultimately show ?thesis
    by (intro exI [of _ "manager_after ?evs"] exI [of _ "game_after ?evs"] conjI)
qed

end
