(* ===== verification/Handler_Props.thy ===== *)
theory Handler_Props
  imports Handler_Inv Game_Props
begin

text \<open>
  The properties of the server: its client table, who is told what by each handler, and what is
  left behind when a client goes away.

  What is said of games holds for any table of clients, as soon as the manager is in a state that
  \<open>gm_reach\<close> reaches; \<open>server_run_reach\<close> shows that it always is. What is said of the table holds
  in the states of \<open>server_run\<close>.
\<close>

section \<open>Concrete servers\<close>

definition calm :: Env where
  "calm = \<lparr>malloc_ok = True, stack = (\<lambda>_. NUL)\<rparr>"

definition fresh_server :: Server where
  "fresh_server = the (initialize_server (replicate MAX_CLIENTS zero_Client) True)"

lemma fresh_server_run: "server_run 0 fresh_server"
  by (rule run_start) (simp add: fresh_server_def initialize_server_def game_manager_create_def Let_def)

lemma fresh_server_free: "s \<notin> set (active_sockets (clients fresh_server))"
proof -
  have "active_sockets (replicate k (zero_Client\<lparr>is_active := False\<rparr>)) = []" for k
    by (induction k) auto
  then show ?thesis
    by (simp add: fresh_server_def initialize_server_def game_manager_create_def Let_def)
qed

text \<open>Client 5 has connected to a fresh server.\<close>

definition one_client :: Server where
  "one_client = fst (client_connect 5 fresh_server)"

lemma one_client_run: "server_run 0 one_client"
  unfolding one_client_def by (rule run_connect [OF fresh_server_run _ fresh_server_free]) simp

text \<open>Two clients on the descriptors 3 and 4, and a manager.\<close>

definition client_on :: "socket \<Rightarrow> bool \<Rightarrow> int \<Rightarrow> Client" where
  "client_on s playing i = \<lparr>cl_socket = s, username = ''Guest'' @ zeros 45, current_game_id = i,
     is_playing = playing, is_active = True\<rparr>"

definition server_with :: "Client list \<Rightarrow> GameManager \<Rightarrow> Server" where
  "server_with cs gm = \<lparr>clients = cs, active_clients_count = int (length cs), game_manager = gm, sent = []\<rparr>"

lemma server_with_simps [simp]:
  "clients (server_with cs gm) = cs" "game_manager (server_with cs gm) = gm" "sent (server_with cs gm) = []"
  by (simp_all add: server_with_def)

definition connected :: "socket \<Rightarrow> Server \<Rightarrow> bool" where
  "connected s st \<longleftrightarrow> s \<in> set (active_sockets (clients st))"

section \<open>The client table\<close>

text \<open>C22. In every run the counter of active clients is the number of occupied slots, at most 100, no
  two connections share a descriptor, and every slot holds a terminated user name.\<close>

theorem client_table_consistent:
  assumes "server_run n st" and "n \<le> 2 ^ 32"
  shows "server_get_active_clients st = int (length (filter is_active (clients st))) \<and>
    server_get_active_clients st \<le> 100 \<and> distinct (map cl_socket (filter is_active (clients st))) \<and>
    (\<forall>c \<in> set (clients st). length (username c) = 50 \<and> NUL \<in> set (username c))"
proof -
  have t: "table_inv st" using server_run_inv [OF assms] by (simp add: server_inv_def)
  have "length (active_sockets (clients st)) \<le> 100"
    using active_sockets_le [of "clients st"] t by (simp add: table_inv_def MAX_CLIENTS_def)
  with t show ?thesis
    by (simp add: table_inv_def server_get_active_clients_def active_sockets_def username_ok_def)
qed

theorem client_table_consistent_witness: "server_get_active_clients one_client \<le> 100"
  using client_table_consistent [OF one_client_run] by simp

text \<open>A connection is refused exactly when 100 clients are connected; a refused client gets the
  message that the server is full and nothing changes, an accepted one gets a slot of its own as
  \<open>Guest\<close>, outside any game, and no other client is touched.\<close>

theorem connection_refused_iff_full:
  assumes "server_run n st" and "n \<le> 2 ^ 32" and "\<not> connected s st"
  shows "(length (active_sockets (clients st)) = 100 \<longrightarrow>
      client_connect s st = (send s (error_reply MAX_CONN_MSG) st, False)) \<and>
    (length (active_sockets (clients st)) < 100 \<longrightarrow>
      (\<exists>st' c. client_connect s st = (st', True) \<and> first_slot (active_on s) (clients st') = Some c \<and>
         cstr (username c) = ''Guest'' \<and> \<not> is_playing c \<and> current_game_id c = -1 \<and>
         sent st' = sent st \<and> (\<forall>t. t \<noteq> s \<longrightarrow>
           first_slot (active_on t) (clients st') = first_slot (active_on t) (clients st))))"
proof -
  have t: "table_inv st" using server_run_inv [OF assms(1,2)] by (simp add: server_inv_def)
  have full: "length (active_sockets (clients st)) = 100 \<longrightarrow>
      client_connect s st = (send s (error_reply MAX_CONN_MSG) st, False)"
    using t by (simp add: client_connect_def add_client_def table_inv_def MAX_CLIENTS_def)
  moreover have "\<exists>st' c. client_connect s st = (st', True) \<and> first_slot (active_on s) (clients st') = Some c \<and>
         cstr (username c) = ''Guest'' \<and> \<not> is_playing c \<and> current_game_id c = -1 \<and>
         sent st' = sent st \<and> (\<forall>t. t \<noteq> s \<longrightarrow>
           first_slot (active_on t) (clients st') = first_slot (active_on t) (clients st))"
    if few: "length (active_sockets (clients st)) < 100"
  proof -
    have "snd (add_client st s)" using add_client_refuses [OF t] few by simp
    then obtain c where c: "first_slot (\<lambda>c. \<not> is_active c) (clients st) = Some c"
      and add: "add_client st s = (st\<lparr>clients := update_slot (\<lambda>c. \<not> is_active c) (client_connected s) (clients st),
          active_clients_count := active_clients_count st + 1\<rparr>, True)"
      by (auto simp: add_client_def split: option.splits if_splits)
    have free: "\<forall>c \<in> set (clients st). \<not> active_on s c"
      using assms(3) by (auto simp: connected_def active_sockets_iff)
    have "first_slot (active_on s) (update_slot (\<lambda>c. \<not> is_active c) (client_connected s) (clients st)) =
        Some (client_connected s c)"
      using free by (intro first_slot_update_new [OF c]) (auto simp: active_on_def client_connected_def)
    moreover have "first_slot (active_on t) (update_slot (\<lambda>c. \<not> is_active c) (client_connected s) (clients st)) =
        first_slot (active_on t) (clients st)" if "t \<noteq> s" for t
      using that by (intro first_slot_update_other) (auto simp: active_on_def client_connected_def)
    moreover have "length (username c) = 50"
      using first_slot_Some [OF c] t by (auto simp: table_inv_def username_ok_def)
    then have "cstr (username (client_connected s c)) = ''Guest''"
      by (simp add: client_connected_def cstr_snprintf)
    ultimately show ?thesis
      by (intro exI [of _ "fst (add_client st s)"] exI [of _ "client_connected s c"])
        (simp add: client_connect_def add client_connected_def)
  qed
  ultimately show ?thesis by blast
qed

theorem connection_refused_iff_full_witness:
  "\<exists>st' c. client_connect 7 fresh_server = (st', True) \<and> cstr (username c) = ''Guest'' \<and>
     first_slot (active_on 7) (clients st') = Some c"
proof -
  have "active_sockets (clients fresh_server) = []" using fresh_server_free by (metis list.set_intros(1) neq_Nil_conv)
  with connection_refused_iff_full [OF fresh_server_run, of 7] fresh_server_free [of 7] show ?thesis
    by (auto simp: connected_def)
qed

section \<open>Moves\<close>

text \<open>What the players are told when a move has led to the board \<open>b\<close>.\<close>

definition move_news :: "u32 \<Rightarrow> socket \<Rightarrow> socket \<Rightarrow> GameCommonState \<Rightarrow> (socket \<times> Message) list" where
  "move_news i x y s =
     (case outcome (board s) of
        Undecided \<Rightarrow> [(x, game_state_message i s PLAYER_X ''Board updated''),
                      (y, game_state_message i s PLAYER_O ''Board updated'')]
      | Drawn \<Rightarrow> [(x, game_over_message i (int_of_GameResult RESULT_DRAW)),
                  (y, game_over_message i (int_of_GameResult RESULT_DRAW)),
                  (x, post_game_message i), (y, post_game_message i)]
      | Won p \<Rightarrow> [(x, game_over_message i (int_of_Player p)), (y, game_over_message i (int_of_Player p)),
                  (if p = PLAYER_X then x else y, post_game_message i)])"

lemma find_set_game:
  "find_game (games gm) i = Some g \<Longrightarrow> gid g' = gid g \<Longrightarrow> find_game (games (set_game gm g')) i = Some g'"
  using find_game_put [of g' i "games gm"] find_game_gid [of "games gm" i g] by (simp add: set_game_def)

lemma handle_move_accepted:
  assumes inv: "manager_inv n (game_manager st)" and f: "find_game (games (game_manager st)) i = Some g"
    and p: "player_of_socket g s = Some p" and ok: "move_legal g p row col"
  shows "handle_move e s \<lparr>mv_game_id = i, mv_row = row, mv_col = col\<rparr> st =
    st\<lparr>game_manager := set_game (game_manager st) (after_move g p row col),
       sent := sent st @ move_news i (player_x_socket g) (player_o_socket g)
                           (state_data (after_move g p row col))\<rparr>"
proof -
  have g: "game_inv g" using manager_inv_game [OF inv f] by simp
  let ?g = "after_move g p row col"
  let ?b = "place (board (state_data g)) (unat row) (unat col) (mark p)"
  note after = after_move_state [OF g ok refl] after_move_seats [OF g ok]
  have m: "game_manager_move (game_manager st) i s row col =
      Inr (set_game (game_manager st) ?g, move_report g p row col)"
    using f p ok by (simp add: move_unfold)
  have r: "move_report g p row col = (outcome ?b \<noteq> Undecided,
      if outcome ?b = Undecided then None else Some (snd (outcome_code (outcome ?b))))"
    using after(2) by (cases "outcome ?b") (simp_all add: move_report_def)
  have fg: "find_game (games (set_game (game_manager st) ?g)) i = Some ?g"
    using find_set_game [OF f after(4)] .
  have b: "board (state_data ?g) = ?b" using after(1) by simp
  have q: "q = PLAYER_X \<or> q = PLAYER_O" if "outcome ?b = Won q" for q
    using that by (auto simp: outcome_def split: if_splits)
  show ?thesis
    unfolding handle_move_def Let_def MovePayload.simps m sum.case prod.case r
    by (cases "outcome ?b")
      (auto simp: game_manager_get_players_def game_manager_get_game_state_def fg move_news_def b
        after(5,6) send_def int_of_Player_def int_of_GameResult_def dest: q)
qed

text \<open>C15. An accepted move is told to the two players of that game and to nobody else: while the game
  goes on each gets the new board with his own role, at the end both get the result, and the
  question whether to go on goes to the winner, or to both after a draw. The client table stays
  as it was.\<close>

theorem move_told_to_the_players:
  assumes "gm_reach n (game_manager st)" and "n \<le> 2 ^ 32" and "find_game (games (game_manager st)) i = Some g"
    and "player_of_socket g s = Some p" and "move_legal g p row col"
    and "st' = handle_message e s \<lparr>msg_type = MSG_MOVE,
                 payload = Move \<lparr>mv_game_id = i, mv_row = row, mv_col = col\<rparr>\<rparr> st"
  shows "clients st' = clients st \<and>
    (\<exists>g'. find_game (games (game_manager st')) i = Some g' \<and>
       board (state_data g') = place (board (state_data g)) (unat row) (unat col) (mark p) \<and>
       sent st' = sent st @ move_news i (player_x_socket g) (player_o_socket g) (state_data g'))"
proof -
  have inv: "manager_inv n (game_manager st)" by (rule gm_reach_inv [OF assms(1,2)])
  have g: "game_inv g" using manager_inv_game [OF inv assms(3)] by simp
  note after = after_move_state(1) [OF g assms(5) refl] after_move_seats [OF g assms(5)]
  have "find_game (games (set_game (game_manager st) (after_move g p row col))) i = Some (after_move g p row col)"
    using find_set_game [OF assms(3) after(3)] .
  then show ?thesis
    unfolding assms(6) handle_message_def
    by (simp add: handle_move_accepted [OF inv assms(3-5)] after(1))
qed

definition two_playing :: Server where
  "two_playing = server_with [client_on 3 True 0, client_on 4 True 0] (manager_after first_moves)"

lemma two_playing_simps [simp]:
  "game_manager two_playing = manager_after first_moves"
  "clients two_playing = [client_on 3 True 0, client_on 4 True 0]"
  by (simp_all add: two_playing_def)

theorem move_told_to_the_players_witness:
  "clients (handle_message calm 4 \<lparr>msg_type = MSG_MOVE,
     payload = Move \<lparr>mv_game_id = 0, mv_row = 0, mv_col = 2\<rparr>\<rparr> two_playing) = clients two_playing"
proof -
  have p: "player_of_socket (game_after first_moves) 4 = Some PLAYER_O" by code_simp
  have ok: "move_legal (game_after first_moves) PLAYER_O 0 2" by code_simp
  have r: "gm_reach 1 (game_manager two_playing)"
    "find_game (games (game_manager two_playing)) 0 = Some (game_after first_moves)"
    using first_moves_reach first_moves_game by simp_all
  show ?thesis
    using move_told_to_the_players [OF r(1) _ r(2) p ok refl, of calm] by simp
qed

text \<open>A refused move is answered with an error to the sender alone; games, table and every other
  client are untouched.\<close>

theorem refused_move_changes_nothing:
  assumes "\<nexists>g p. find_game (games (game_manager st)) (mv_game_id m) = Some g \<and>
      player_of_socket g s = Some p \<and> move_legal g p (mv_row m) (mv_col m)"
  shows "handle_message e s \<lparr>msg_type = MSG_MOVE, payload = Move m\<rparr> st =
    send s (error_reply_uninit e ''Invalid move or not your turn'') st"
proof -
  have "game_manager_move (game_manager st) (mv_game_id m) s (mv_row m) (mv_col m) = Inl Minus1"
    using assms by (auto simp: move_unfold split: option.split)
  then show ?thesis by (simp add: handle_message_def handle_move_def)
qed

theorem refused_move_changes_nothing_witness:
  "handle_message calm 3 \<lparr>msg_type = MSG_MOVE, payload = Move \<lparr>mv_game_id = 0, mv_row = 1, mv_col = 1\<rparr>\<rparr>
     two_playing = send 3 (error_reply_uninit calm ''Invalid move or not your turn'') two_playing"
proof -
  have "player_of_socket (game_after first_moves) 3 = Some PLAYER_X" by code_simp
  moreover have "\<not> move_legal (game_after first_moves) PLAYER_X 1 1" by code_simp
  ultimately show ?thesis
    using refused_move_changes_nothing [of two_playing "\<lparr>mv_game_id = 0, mv_row = 1, mv_col = 1\<rparr>" 3 calm]
      first_moves_game by simp
qed

section \<open>Creating, asking to join, deciding\<close>

lemma set_playing_slots:
  "first_slot (active_on s) (clients (client_set_playing s p i st)) =
     map_option (\<lambda>c. c\<lparr>is_playing := p, current_game_id := (if p then int_of_u32 i else -1)\<rparr>)
       (first_slot (active_on s) (clients st))"
  "t \<noteq> s \<Longrightarrow> first_slot (active_on t) (clients (client_set_playing s p i st)) =
     first_slot (active_on t) (clients st)"
proof -
  have cs: "clients (client_set_playing s p i st) = update_slot (active_on s)
      (\<lambda>c. c\<lparr>is_playing := p, current_game_id := (if p then int_of_u32 i else -1)\<rparr>) (clients st)"
    by (simp add: client_set_playing_def)
  have active: "active_on s c \<Longrightarrow> active_on s (c\<lparr>is_playing := p, current_game_id := k\<rparr>)" for c k
    by (simp add: active_on_def)
  show "first_slot (active_on s) (clients (client_set_playing s p i st)) =
     map_option (\<lambda>c. c\<lparr>is_playing := p, current_game_id := (if p then int_of_u32 i else -1)\<rparr>)
       (first_slot (active_on s) (clients st))"
    unfolding cs by (rule first_slot_update_same) (rule active)
  show "t \<noteq> s \<Longrightarrow> first_slot (active_on t) (clients (client_set_playing s p i st)) =
     first_slot (active_on t) (clients st)"
    unfolding cs
    by (rule first_slot_update_other) (auto simp: active_on_def)
qed

text \<open>A client that is in no game and creates one becomes its owner and is in that game; it is told
  so, and the new list of open games goes to the clients that are in no game, to each of them
  once. The entries of all other clients stay as they were.\<close>

theorem create_announced:
  assumes "gm_reach n (game_manager st)" and "n < 2 ^ 32" and "malloc_ok e"
    and "\<not> client_is_playing st s" and "first_slot (active_on s) (clients st) = Some c"
    and "st' = handle_message e s \<lparr>msg_type = MSG_CREATE_GAME, payload = Zeroed\<rparr> st"
  shows "\<exists>i g. find_game (games (game_manager st)) i = None \<and>
    games (game_manager st') = games (game_manager st) @ [g] \<and> gid g = i \<and> player_x_socket g = s \<and>
    cstr (owner_username g) = take 31 (cstr (username c)) \<and>
    first_slot (active_on s) (clients st') = Some (c\<lparr>is_playing := True, current_game_id := int_of_u32 i\<rparr>) \<and>
    (\<forall>t. t \<noteq> s \<longrightarrow> first_slot (active_on t) (clients st') = first_slot (active_on t) (clients st)) \<and>
    sent st' = sent st @ (s, game_created_message i) # map (\<lambda>c. (cl_socket c, lobby_message st'))
                                   (filter (\<lambda>c. is_active c \<and> \<not> is_playing c) (clients st'))"
proof -
  let ?name = "find_username_by_socket st s (''Unknown'' @ zeros 25) 32"
  let ?gm = "game_manager st" and ?i = "next_game_id (game_manager st)"
  let ?g = "new_game ?i s ?name"
  have inv: "manager_inv n ?gm" using gm_reach_inv assms(1,2) by simp
  obtain gm i where c: "game_manager_create_game ?gm (malloc_ok e) s ?name = Inr (gm, i)"
    using assms(3) by (simp add: game_manager_create_game_def generate_game_id_def Let_def)
  have gm: "i = ?i" "games gm = games ?gm @ [?g]"
    using create_game_cases [OF c] by (simp_all add: append_game_def)
  have "unat ?i = n" using inv assms(2) by (simp add: manager_inv_def unat_of_nat)
  then have new: "find_game (games ?gm) ?i = None"
    using inv by (fastforce simp: find_game_None manager_inv_def)
  define st1 where "st1 = client_set_playing s True i (st\<lparr>game_manager := gm\<rparr>)"
  define st2 where "st2 = st1\<lparr>clients := update_slot (active_on s)
      (\<lambda>c. c\<lparr>is_playing := True, current_game_id := int_of_u32 i\<rparr>) (clients st1)\<rparr>"
  have st': "st' = broadcast_lobby_update (send s (game_created_message i) st2)"
    unfolding assms(6) handle_message_def Message.simps MessageType.case handle_create_game_def Let_def c
      if_not_P [OF assms(4)] sum.case prod.case st1_def st2_def ..
  have st2: "clients st2 = clients (client_set_playing s True i (client_set_playing s True i st))"
    "game_manager st2 = gm" "sent st2 = sent st"
    by (simp_all add: st2_def st1_def client_set_playing_def)
  have slots: "first_slot (active_on s) (clients st2) = Some (c\<lparr>is_playing := True, current_game_id := int_of_u32 i\<rparr>)"
    "\<forall>t. t \<noteq> s \<longrightarrow> first_slot (active_on t) (clients st2) = first_slot (active_on t) (clients st)"
    by (simp_all add: st2(1) set_playing_slots assms(5))
  have owner: "cstr (owner_username ?g) = take 31 (cstr (username c))"
    using assms(5) by (simp add: new_game_def zero_Game_def find_username_by_socket_def
        cstr_copy_string clear_round_def)
  have "lobby_message st' = lobby_message (send s (game_created_message i) st2)"
    by (simp add: st' lobby_message_def)
  then have "sent st' = sent st @ (s, game_created_message i) # map (\<lambda>c. (cl_socket c, lobby_message st'))
      (filter (\<lambda>c. is_active c \<and> \<not> is_playing c) (clients st'))"
    by (simp add: st' broadcast_eq st2)
  then show ?thesis
    using new gm slots owner
    by (intro exI [of _ ?i] exI [of _ ?g]) (simp add: st' st2 new_game_def)
qed

definition two_idle :: Server where
  "two_idle = server_with [client_on 3 False (-1), client_on 4 False (-1)] (manager_after first_moves)"

theorem create_announced_witness:
  "\<exists>g. games (game_manager (handle_message calm 3 \<lparr>msg_type = MSG_CREATE_GAME, payload = Zeroed\<rparr> two_idle)) =
     games (manager_after first_moves) @ [g] \<and> player_x_socket g = 3"
proof -
  have r: "gm_reach 1 (game_manager two_idle)" using first_moves_reach by (simp add: two_idle_def)
  have c: "malloc_ok calm" "\<not> client_is_playing two_idle 3"
    "first_slot (active_on 3) (clients two_idle) = Some (client_on 3 False (-1))"
    by (simp_all add: calm_def two_idle_def client_is_playing_def first_slot_def client_on_def active_on_def)
  from create_announced [OF r _ c refl] show ?thesis by (auto simp: two_idle_def)
qed

lemma cstr_last_NUL: "length d = 32 \<Longrightarrow> NUL \<notin> set t \<Longrightarrow> cstr ((snprintf d 32 t)[31 := NUL]) = take 31 t"
proof -
  assume d: "length d = 32" "NUL \<notin> set t"
  let ?t = "take 31 t" and ?d = "drop (length (take 31 t) + 1) d"
  have "(snprintf d 32 t)[31 := NUL] = ?t @ (NUL # ?d)[31 - length ?t := NUL]"
    using d by (simp add: snprintf_def Let_def list_update_append)
  moreover have "\<exists>d'. (NUL # y)[k := NUL] = NUL # d'" for y :: string and k
    by (cases k) auto
  then obtain d' where "(NUL # ?d)[31 - length ?t := NUL] = NUL # d'" by blast
  ultimately show ?thesis using cstr_append_NUL [OF NUL_notin_take [OF d(2)], of 31] by metis
qed

text \<open>A request to join an open game reaches the owner of that game and nobody else, with the game,
  the descriptor and the name of the client that asks; that client then waits in the game.
  Its own entry in the table is not changed.\<close>

theorem join_request_reaches_owner:
  assumes "gm_reach n (game_manager st)" and "n \<le> 2 ^ 32"
    and "find_game (games (game_manager st)) i = Some g" and "joinable g"
    and "player_x_socket g \<noteq> -1" and "s \<noteq> player_x_socket g" and "\<not> client_is_playing st s"
    and "first_slot (active_on s) (clients st) = Some c" and "jr_game_id p = i"
    and "st' = handle_message e s \<lparr>msg_type = MSG_JOIN_GAME, payload = Join_request p\<rparr> st"
  shows "clients st' = clients st \<and>
    (\<exists>g'. find_game (games (game_manager st')) i = Some g' \<and> waiting_player_socket g' = s \<and>
       state_data g' = state_data g) \<and>
    (\<exists>r. sent st' = sent st @ [(player_x_socket g, \<lparr>msg_type = MSG_JOIN_REQUEST, payload = Join_request r\<rparr>)] \<and>
       jr_game_id r = i \<and> jr_player_id r = u32_of_int s \<and>
       cstr (jr_player_name r) = take 31 (cstr (username c)))"
proof -
  let ?name = "find_username_by_socket st s (''Unknown'' @ zeros 25) 32"
  let ?g = "g\<lparr>waiting_player_socket := s,
             waiting_player_username := copy_string (waiting_player_username g) ?name 32\<rparr>"
  let ?gm = "set_game (game_manager st) ?g"
  have j: "game_manager_join_game (game_manager st) i s ?name = Inr ?gm"
    using assms(3,4) by (simp add: game_manager_join_game_def joinable_def)
  have f: "find_game (games ?gm) i = Some ?g" by (rule find_set_game [OF assms(3)]) simp
  have o1: "game_manager_get_owner_socket (game_manager st) i = player_x_socket g"
    and o2: "game_manager_get_owner_socket ?gm i = player_x_socket g"
    using assms(3) f by (simp_all add: game_manager_get_owner_socket_def)
  have name: "cstr ?name = take 31 (cstr (username c))"
    using assms(8) by (simp add: find_username_by_socket_def cstr_copy_string)
  have n2: "cstr ((snprintf (jr_player_name zero_JoinRequestPayload) 32 (cstr ?name))[31 := NUL]) =
      take 31 (cstr (username c))"
    using cstr_last_NUL [OF _ NUL_notin_cstr [of ?name], of "jr_player_name zero_JoinRequestPayload"]
    unfolding name by (simp add: zero_JoinRequestPayload_def)
  have "st' = send (player_x_socket g) \<lparr>msg_type = MSG_JOIN_REQUEST,
      payload = Join_request (zero_JoinRequestPayload\<lparr>jr_game_id := i, jr_player_id := u32_of_int s,
        jr_player_name := (snprintf (jr_player_name zero_JoinRequestPayload) 32 (cstr ?name))[31 := NUL]\<rparr>)\<rparr>
      (st\<lparr>game_manager := ?gm\<rparr>)"
    using assms(5,6,7,9) j o1 o2 unfolding assms(10) handle_message_def handle_join_request_def
    by (simp add: Let_def)
  then show ?thesis using f n2 by simp
qed

theorem join_request_reaches_owner_witness:
  "\<exists>r. sent (handle_message calm 4 \<lparr>msg_type = MSG_JOIN_GAME,
       payload = Join_request \<lparr>jr_game_id = 0, jr_player_id = 0, jr_player_name = zeros 32\<rparr>\<rparr>
       (server_with [client_on 3 True 0, client_on 4 False (-1)] (manager_after [Create True 3 ''ann'']))) =
     [(3, \<lparr>msg_type = MSG_JOIN_REQUEST, payload = Join_request r\<rparr>)]"
proof -
  let ?evs = "[Create True 3 ''ann'']"
  let ?st = "server_with [client_on 3 True 0, client_on 4 False (-1)] (manager_after ?evs)"
  let ?p = "\<lparr>jr_game_id = 0, jr_player_id = 0, jr_player_name = zeros 32\<rparr>"
  have r: "gm_reach 1 (game_manager ?st)" unfolding server_with_simps by (rule runs_reach) code_simp
  have f: "find_game (games (game_manager ?st)) 0 = Some (game_after ?evs)"
    unfolding server_with_simps by (rule game_found) code_simp
  have g: "joinable (game_after ?evs)" "player_x_socket (game_after ?evs) \<noteq> -1"
    "4 \<noteq> player_x_socket (game_after ?evs)" "player_x_socket (game_after ?evs) = 3" by code_simp+
  have c: "\<not> client_is_playing ?st 4" "first_slot (active_on 4) (clients ?st) = Some (client_on 4 False (-1))"
    "jr_game_id ?p = 0"
    by (simp_all add: client_is_playing_def first_slot_def client_on_def active_on_def)
  from join_request_reaches_owner [OF r _ f g(1-3) c refl, of calm] show ?thesis
    by (auto simp: g(4))
qed

lemma mark_players_marks:
  "\<forall>c \<in> set (clients (mark_players x w i st)). is_active c \<and> cl_socket c \<in> {x, w} \<longrightarrow>
     is_playing c \<and> current_game_id c = int_of_u32 i"
proof -
  define f where "f = (\<lambda>c :: Client. if is_active c \<and> (cl_socket c = x \<or> cl_socket c = w)
        then c\<lparr>is_playing := True, current_game_id := int_of_u32 i\<rparr> else c)"
  have "is_active (f c) \<and> cl_socket (f c) \<in> {x, w} \<longrightarrow> is_playing (f c) \<and> current_game_id (f c) = int_of_u32 i" for c
    by (cases "is_active c \<and> (cl_socket c = x \<or> cl_socket c = w)") (auto simp: f_def)
  moreover have "clients (mark_players x w i st) = map f (clients st)"
    by (simp add: mark_players_def f_def)
  then have "set (clients (mark_players x w i st)) = f ` set (clients st)"
    by (simp only: set_map)
  ultimately show ?thesis by (simp only: ball_simps) blast
qed

lemma acceptance_effect:
  assumes "gm_reach n (game_manager st)" and "n \<le> 2 ^ 32"
    and "find_game (games (game_manager st)) i = Some g" and "waiting_player_socket g = w" and "w \<noteq> -1"
    and "jd_game_id p = i" and "jd_accepted p \<noteq> 0" and "x = player_x_socket g"
    and "st' = handle_message e s \<lparr>msg_type = MSG_JOIN_DECISION, payload = Join_decision p\<rparr> st"
  shows "\<exists>g'. find_game (games (game_manager st')) i = Some g' \<and>
    gstate (state_data g') = GAME_IN_PROGRESS \<and> board (state_data g') = empty_board \<and>
    player_x_socket g' = x \<and> player_o_socket g' = w \<and> current_turn (state_data g') = PLAYER_X \<and>
    (\<forall>c \<in> set (clients st'). is_active c \<and> cl_socket c \<in> {x, w} \<longrightarrow>
       is_playing c \<and> current_game_id c = int_of_u32 i) \<and>
    sent st' = sent st @
      [(x, game_start_message i PLAYER_X), (w, game_start_message i PLAYER_O),
       (x, game_state_message i (state_data g') PLAYER_X ''Game started''),
       (w, game_state_message i (state_data g') PLAYER_O ''Game started'')] @
      map (\<lambda>c. (cl_socket c, lobby_message st')) (filter (\<lambda>c. is_active c \<and> \<not> is_playing c) (clients st'))"
proof -
  let ?gm = "game_manager st"
  have inv: "manager_inv n ?gm" by (rule gm_reach_inv [OF assms(1,2)])
  define g' where "g' = g\<lparr>player_o_socket := w, waiting_player_socket := -1,
      waiting_player_username := (waiting_player_username g)[0 := NUL],
      state_data := (state_data g)\<lparr>gstate := GAME_IN_PROGRESS\<rparr>\<rparr>"
  have j: "game_manager_join_decision ?gm i True = Inr (set_game ?gm g', Some PLAYER_O)"
    using assms(3-5) by (simp add: game_manager_join_decision_def g'_def)
  define gm where "gm = game_manager_cleanup_creator_games (set_game ?gm g') s i"
  have "ids_distinct (set_game ?gm g')"
    using manager_inv_decision [OF inv j] by (simp add: manager_inv_def)
  moreover have f: "find_game (games (set_game ?gm g')) i = Some g'"
    by (rule find_set_game [OF assms(3)]) (simp add: g'_def)
  moreover have "i \<notin> set (take k (map gid (filter (owned_by s i) gs)))" for k gs
    by (auto simp: owned_by_def dest!: in_set_takeD)
  ultimately have fg: "find_game (games gm) i = Some g'"
    using get_cleanup [of "set_game ?gm g'" s i i] by (simp add: gm_def get_game_eq)
  have "play_ok g []" using waiting_means_empty [OF conjunct1 [OF manager_inv_game [OF inv assms(3)]]] assms(4,5) by simp
  then have b: "board (state_data g') = empty_board" "current_turn (state_data g') = PLAYER_X"
    by (auto simp: play_ok_def g'_def turn_after_def elim: legal.cases)
  have seats: "player_x_socket g' = x" "player_o_socket g' = w" by (simp_all add: g'_def assms(8))
  define st1 where "st1 = mark_players x w i
     (send w (game_state_message i (state_data g') PLAYER_O ''Game started'')
     (send x (game_state_message i (state_data g') PLAYER_X ''Game started'')
     (client_set_playing w True i (client_set_playing x True i
     (send w (game_start_message i PLAYER_O) (send x (game_start_message i PLAYER_X)
       (st\<lparr>game_manager := gm\<rparr>)))))))"
  have st': "st' = broadcast_lobby_update st1"
    unfolding assms(9) handle_message_def handle_join_decision_def
    using assms(6,7) j fg seats
    by (simp add: st1_def gm_def [symmetric] game_manager_get_players_def game_manager_get_game_state_def)
  have "\<forall>c \<in> set (clients st1). is_active c \<and> cl_socket c \<in> {x, w} \<longrightarrow>
       is_playing c \<and> current_game_id c = int_of_u32 i"
    unfolding st1_def by (rule mark_players_marks)
  moreover have "sent st1 = sent st @
      [(x, game_start_message i PLAYER_X), (w, game_start_message i PLAYER_O),
       (x, game_state_message i (state_data g') PLAYER_X ''Game started''),
       (w, game_state_message i (state_data g') PLAYER_O ''Game started'')]"
    by (simp add: st1_def mark_players_def)
  moreover have "game_manager st1 = gm" by (simp add: st1_def mark_players_def)
  moreover have "lobby_message st' = lobby_message st1" by (simp add: st' lobby_message_def)
  ultimately show ?thesis
    using fg seats b by (intro exI [of _ g']) (simp add: st' broadcast_eq g'_def)
qed

text \<open>C16. When a pending request is accepted, by whichever client sends the decision, the game starts:
  the client that waited is player O, both players are told their roles and the board, in that
  order, every slot of theirs is marked as playing that game, and the list of open games goes to
  the clients that are in no game. The sender's right to decide is not checked.\<close>

theorem acceptance_starts_the_game:
  assumes "gm_reach n (game_manager st)" and "n \<le> 2 ^ 32"
    and "find_game (games (game_manager st)) i = Some g" and "waiting_player_socket g = w" and "w \<noteq> -1"
    and "jd_game_id p = i" and "jd_accepted p \<noteq> 0" and "x = player_x_socket g"
    and "st' = handle_message e s \<lparr>msg_type = MSG_JOIN_DECISION, payload = Join_decision p\<rparr> st"
  shows "\<exists>g'. find_game (games (game_manager st')) i = Some g' \<and>
    gstate (state_data g') = GAME_IN_PROGRESS \<and> board (state_data g') = empty_board \<and>
    player_x_socket g' = x \<and> player_o_socket g' = w \<and>
    (\<forall>c \<in> set (clients st'). is_active c \<and> cl_socket c \<in> {x, w} \<longrightarrow>
       is_playing c \<and> current_game_id c = int_of_u32 i) \<and>
    sent st' = sent st @
      [(x, game_start_message i PLAYER_X), (w, game_start_message i PLAYER_O),
       (x, game_state_message i (state_data g') PLAYER_X ''Game started''),
       (w, game_state_message i (state_data g') PLAYER_O ''Game started'')] @
      map (\<lambda>c. (cl_socket c, lobby_message st')) (filter (\<lambda>c. is_active c \<and> \<not> is_playing c) (clients st'))"
  using acceptance_effect [OF assms] by blast

text \<open>Client 7, who has nothing to do with the game, accepts for its owner.\<close>

theorem acceptance_starts_the_game_witness:
  "\<exists>g'. find_game (games (game_manager (handle_message calm 7 \<lparr>msg_type = MSG_JOIN_DECISION,
       payload = Join_decision \<lparr>jd_game_id = 0, jd_accepted = 1\<rparr>\<rparr>
       (server_with [client_on 3 True 0, client_on 4 False (-1), client_on 7 False (-1)]
         (manager_after [Create True 3 ''ann'', Join 0 4 ''bob'']))))) 0 = Some g' \<and>
     player_o_socket g' = 4"
proof -
  let ?evs = "[Create True 3 ''ann'', Join 0 4 ''bob'']"
  let ?st = "server_with [client_on 3 True 0, client_on 4 False (-1), client_on 7 False (-1)] (manager_after ?evs)"
  let ?p = "\<lparr>jd_game_id = 0, jd_accepted = 1\<rparr>"
  have r: "gm_reach 1 (game_manager ?st)" unfolding server_with_simps by (rule runs_reach) code_simp
  have f: "find_game (games (game_manager ?st)) 0 = Some (game_after ?evs)"
    unfolding server_with_simps by (rule game_found) code_simp
  have w: "waiting_player_socket (game_after ?evs) = 4" by code_simp
  have p: "jd_game_id ?p = 0" "jd_accepted ?p \<noteq> 0" by simp_all
  from acceptance_starts_the_game [OF r _ f w _ p refl refl, of calm 7] show ?thesis by auto
qed

section \<open>Names\<close>

text \<open>The name a client sets is the name every later message shows of it, cut to 31 characters; a
  name of 32 bytes without a terminator is not read beyond its array.\<close>

theorem username_is_shown:
  assumes "first_slot (active_on s) (clients st) = Some c" and "username_ok (username c)"
    and "length (su_username p) = 32"
    and "st' = handle_message e s \<lparr>msg_type = MSG_SET_USERNAME, payload = Set_username p\<rparr> st"
  shows "cstr (find_username_by_socket st' s (zeros 32) 32) = take 31 (cstr (su_username p)) \<and>
    (\<forall>t. t \<noteq> s \<longrightarrow> first_slot (active_on t) (clients st') = first_slot (active_on t) (clients st))"
proof -
  let ?f = "\<lambda>c. c\<lparr>username := copy_string (username c) (su_username p @ zeros 17) 50\<rparr>"
  have cs: "clients st' = update_slot (active_on s) ?f (clients st)"
    by (simp add: assms(4) handle_message_def handle_set_username_def)
  have "first_slot (active_on s) (clients st') = map_option ?f (first_slot (active_on s) (clients st))"
    unfolding cs by (rule first_slot_update_same) (simp add: active_on_def)
  moreover have "first_slot (active_on t) (clients st') = first_slot (active_on t) (clients st)" if "t \<noteq> s" for t
    unfolding cs using that by (intro first_slot_update_other) (auto simp: active_on_def)
  moreover have "length (cstr (su_username p)) \<le> 32"
    using assms(3) length_takeWhile_le [of "\<lambda>c. c \<noteq> NUL" "su_username p"] by (simp add: cstr_def)
  ultimately show ?thesis
    using assms(1,2) by (simp add: find_username_by_socket_def cstr_copy_string username_ok_def)
qed

theorem username_is_shown_witness:
  "cstr (find_username_by_socket (handle_message calm 3 \<lparr>msg_type = MSG_SET_USERNAME,
     payload = Set_username \<lparr>su_username = ''ann'' @ zeros 29\<rparr>\<rparr> two_idle) 3 (zeros 32) 32) = ''ann''"
proof -
  have c: "first_slot (active_on 3) (clients two_idle) = Some (client_on 3 False (-1))"
    "username_ok (username (client_on 3 False (-1)))"
    by (simp_all add: two_idle_def first_slot_def client_on_def active_on_def username_ok_def zeros_def)
  have l: "length (su_username \<lparr>su_username = ''ann'' @ zeros 29\<rparr>) = 32" by simp
  have "take 31 (cstr (''ann'' @ zeros 29)) = ''ann''" by code_simp
  with username_is_shown [OF c l refl, of calm] show ?thesis by simp
qed

section \<open>Going away\<close>

text \<open>C23. When a connection ends, its slot is free again, the counter goes down by one and no other
  client's entry changes; if the server holds at most 128 games, the socket owns no game
  afterwards, but possibly the game with identifier 0.\<close>

theorem disconnect_cleans_up:
  assumes run: "server_run n st" "n \<le> 2 ^ 32" and s: "connected s st"
    and few: "length (games (game_manager st)) \<le> 128"
    and st': "st' = client_disconnect s st"
  shows "\<not> connected s st' \<and>
    server_get_active_clients st' = server_get_active_clients st - 1 \<and>
    (\<forall>t. t \<noteq> s \<longrightarrow> first_slot (active_on t) (clients st') = first_slot (active_on t) (clients st)) \<and>
    (\<forall>i g. find_game (games (game_manager st')) i = Some g \<longrightarrow> \<not> owned_by s 0 g)"
proof -
  have inv: "server_inv n st" by (rule server_run_inv [OF run])
  have t: "table_inv st" using inv by (simp add: server_inv_def)
  obtain c where c: "first_slot (active_on s) (clients st) = Some c"
    using s by (auto simp: connected_def active_sockets_iff first_slot_None [symmetric] simp flip: not_None_eq)
      (metis first_slot_None not_None_eq)
  define gm where "gm = (if current_game_id c \<noteq> -1 then
      (case game_manager_leave_game (game_manager st) (u32_of_int (current_game_id c)) s of
         Inl err \<Rightarrow> game_manager st | Inr gm \<Rightarrow> gm) else game_manager st)"
  have st'_eq: "clients st' = update_slot (active_on s) client_removed (clients st)"
    "active_clients_count st' = active_clients_count st - 1"
    "game_manager st' = game_manager_cleanup_creator_games gm s 0"
    by (simp_all add: st' client_disconnect_def Let_def remove_client_def c gm_def broadcast_eq
        cong: sum.case_cong)
  have "\<not> connected s st'"
    using t by (simp add: connected_def st'_eq active_sockets_remove table_inv_def)
  moreover have "first_slot (active_on u) (clients st') = first_slot (active_on u) (clients st)" if "u \<noteq> s" for u
    unfolding st'_eq using that by (intro first_slot_update_other) (auto simp: active_on_def client_removed_def)
  moreover have "gm_reach n gm"
    using server_run_reach [OF run] reach_leave [of n "game_manager st"] by (simp add: gm_def)
  moreover have "length (remove_game gs i) \<le> length gs" "length (put_game gs i g) = length gs" for gs i g
    by (induction gs) auto
  then have "length (games gm) \<le> 128"
    using few by (auto simp: gm_def leave_game_unfold unlink_game_def set_game_def split: sum.split option.split
        intro: order.trans)
  then have "length (filter (owned_by s 0) (games gm)) \<le> 128"
    by (rule order.trans [OF length_filter_le])
  moreover have "s \<noteq> -1" using t s by (auto simp: table_inv_def connected_def)
  ultimately show ?thesis
    using cleanup_owns_nothing [OF _ run(2) _ _ st'_eq(3)] st'_eq(2) by (simp add: server_get_active_clients_def)
qed

lemma one_client_state:
  "connected 5 one_client" "games (game_manager one_client) = []" "sent one_client = []"
proof -
  have f: "initialize_server (replicate MAX_CLIENTS zero_Client) True = Some fresh_server"
    by (simp add: fresh_server_def initialize_server_def game_manager_create_def Let_def)
  have t: "table_inv fresh_server" by (rule table_inv_init [OF f])
  have "active_sockets (clients fresh_server) = []"
    using fresh_server_free by (metis list.set_intros(1) neq_Nil_conv)
  then have "snd (add_client fresh_server 5)" using add_client_refuses [OF t] by simp
  then obtain c where c: "first_slot (\<lambda>c. \<not> is_active c) (clients fresh_server) = Some c"
    and o: "one_client = fresh_server\<lparr>clients := update_slot (\<lambda>c. \<not> is_active c) (client_connected 5)
        (clients fresh_server), active_clients_count := active_clients_count fresh_server + 1\<rparr>"
    by (auto simp: add_client_def one_client_def client_connect_def split: option.splits if_splits)
  have "mset (active_sockets (clients one_client)) = add_mset 5 (mset (active_sockets (clients fresh_server)))"
    using active_sockets_add [OF c, of 5] by (simp add: o)
  then show "connected 5 one_client"
    unfolding connected_def by (metis set_mset_mset union_single_eq_member)
  show "games (game_manager one_client) = []" "sent one_client = []"
    by (simp_all add: o fresh_server_def initialize_server_def game_manager_create_def Let_def)
qed

theorem disconnect_cleans_up_witness:
  "\<not> connected 5 (client_disconnect 5 one_client)"
  using disconnect_cleans_up [OF one_client_run _ one_client_state(1) _ refl] one_client_state(2) by simp

text \<open>A client that waits for the decision on its request is not in the game as far as the client
  table is concerned: when its connection ends, or when it asks to leave, its descriptor stays
  in the waiting seat of the game.\<close>

theorem waiting_seat_survives:
  assumes "gm_reach n (game_manager st)" and "n \<le> 2 ^ 32" and "length (games (game_manager st)) \<le> 128"
    and "find_game (games (game_manager st)) i = Some g" and "waiting_player_socket g = s" and "s \<noteq> -1"
    and "player_x_socket g \<noteq> -1"
    and "first_slot (active_on s) (clients st) = Some c" and "current_game_id c = -1"
  shows "find_game (games (game_manager (client_disconnect s st))) i = Some g"
proof -
  have gm: "game_manager (client_disconnect s st) = game_manager_cleanup_creator_games (game_manager st) s 0"
    using assms(8,9) by (simp add: client_disconnect_def remove_client_def Let_def)
  have "seats_ok g" using manager_inv_game [OF gm_reach_inv [OF assms(1,2)] assms(4)] by simp
  then have "\<not> owned_by s 0 g" using assms(5,7) by (auto simp: seats_ok_def owned_by_def)
  moreover have "length (filter (owned_by s 0) (games (game_manager st))) \<le> 128"
    using assms(3) by (rule order.trans [OF length_filter_le])
  ultimately show ?thesis
    using cleanup_spares [OF assms(1,2) _ gm assms(4)] by simp
qed

theorem waiting_seat_survives_witness:
  "\<exists>g. find_game (games (game_manager (client_disconnect 4 (server_with
       [client_on 3 True 0, client_on 4 False (-1)] (manager_after [Create True 3 ''ann'', Join 0 4 ''bob'']))))) 0 = Some g \<and>
     waiting_player_socket g = 4"
proof -
  let ?evs = "[Create True 3 ''ann'', Join 0 4 ''bob'']"
  let ?st = "server_with [client_on 3 True 0, client_on 4 False (-1)] (manager_after ?evs)"
  have r: "gm_reach 1 (game_manager ?st)" unfolding server_with_simps by (rule runs_reach) code_simp
  have l: "length (games (game_manager ?st)) \<le> 128" unfolding server_with_simps by code_simp
  have f: "find_game (games (game_manager ?st)) 0 = Some (game_after ?evs)"
    unfolding server_with_simps by (rule game_found) code_simp
  have w: "waiting_player_socket (game_after ?evs) = 4" by code_simp
  have x: "player_x_socket (game_after ?evs) \<noteq> -1" by code_simp
  have c: "first_slot (active_on 4) (clients ?st) = Some (client_on 4 False (-1))"
    "current_game_id (client_on 4 False (-1)) = -1"
    by (simp_all add: first_slot_def client_on_def active_on_def)
  from waiting_seat_survives [OF r _ l f w _ x c] w show ?thesis by simp
qed

end
