(* ===== verification/Protocol_Codec.thy ===== *)
theory Protocol_Codec
  imports Protocol_Types
begin

text \<open>
  Lines 17 to 388 of \<open>common/src/protocol.c\<close>: the primitive readers and writers and one pair of
  \<open>serialize_\<close>/\<open>deserialize_\<close> functions per payload structure.

  A writer takes the bytes written so far (the buffer up to the cursor) and returns them with
  the new ones appended. A reader takes the bytes from the cursor to the end of the received
  payload and returns the value read and the bytes behind the new cursor; reading past the end
  of the payload is \<open>None\<close>. A deserializer returns \<open>Some (Inl Minus1)\<close> where the code returns
  -1 and \<open>None\<close> where it would read outside the payload.

  The \<open>codec\<close> locale is the contract every pair fulfils; it is interpreted for the twelve pairs.
\<close>

section \<open>Primitive readers and writers\<close>

definition be32 :: "u32 \<Rightarrow> bytes" where
  "be32 v = [ucast (drop_bit 24 v), ucast (drop_bit 16 v), ucast (drop_bit 8 v), ucast v]"

definition write_uint32 :: "bytes \<Rightarrow> u32 \<Rightarrow> bytes" where
  "write_uint32 p v = p @ be32 v"

fun read_uint32 :: "bytes \<Rightarrow> (u32 \<times> bytes) option" where
  "read_uint32 (a # b # c # d # p) =
     Some (push_bit 24 (ucast a) OR push_bit 16 (ucast b) OR push_bit 8 (ucast c) OR ucast d, p)"
| "read_uint32 _ = None"

definition write_uint8 :: "bytes \<Rightarrow> u8 \<Rightarrow> bytes" where
  "write_uint8 p v = p @ [v]"

fun read_uint8 :: "bytes \<Rightarrow> (u8 \<times> bytes) option" where
  "read_uint8 (b # p) = Some (b, p)"
| "read_uint8 [] = None"

text \<open>\<open>memcpy\<close> of a character array into the buffer and out of it.\<close>

definition write_chars :: "bytes \<Rightarrow> string \<Rightarrow> nat \<Rightarrow> bytes" where
  "write_chars p src n = p @ map u8_of_char (take n src)"

definition read_chars :: "nat \<Rightarrow> bytes \<Rightarrow> (string \<times> bytes) option" where
  "read_chars n p =
     (if length p < n then None else Some (map char_of_u8 (take n p), drop n p))"

text \<open>A loop that fills an array of \<open>n\<close> elements, one read per element.\<close>

fun read_array :: "nat \<Rightarrow> (bytes \<Rightarrow> ('a \<times> bytes) option) \<Rightarrow> bytes \<Rightarrow> ('a list \<times> bytes) option" where
  "read_array 0 rd p = Some ([], p)"
| "read_array (Suc n) rd p = do {
     (x, p) \<leftarrow> rd p;
     (xs, p) \<leftarrow> read_array n rd p;
     Some (x # xs, p) }"

text \<open>A loop that writes the elements \<open>xs[0], ..., xs[n - 1]\<close> of an array.\<close>

definition write_array :: "(bytes \<Rightarrow> 'a \<Rightarrow> bytes) \<Rightarrow> 'a list \<Rightarrow> nat \<Rightarrow> bytes \<Rightarrow> bytes" where
  "write_array wr xs n p = fold (\<lambda>i p. wr p (xs ! i)) [0..<n] p"

definition read_map :: "('a \<Rightarrow> 'b) \<Rightarrow> (bytes \<Rightarrow> ('a \<times> bytes) option) \<Rightarrow> bytes \<Rightarrow> ('b \<times> bytes) option" where
  "read_map f rd p = do { (x, p) \<leftarrow> rd p; Some (f x, p) }"

subsection \<open>What the readers make of what the writers produce\<close>

lemma length_be32 [simp]: "length (be32 v) = 4"
  by (simp add: be32_def)

lemma read_uint32_be32 [simp, codec_simps]: "read_uint32 (be32 v @ p) = Some (v, p)"
proof -
  have "push_bit 24 (ucast (ucast (drop_bit 24 v) :: u8)) OR
        push_bit 16 (ucast (ucast (drop_bit 16 v) :: u8)) OR
        push_bit 8 (ucast (ucast (drop_bit 8 v) :: u8)) OR ucast (ucast v :: u8) = (v :: u32)"
    (is "?w = v")
  proof (rule bit_word_eqI)
    fix n :: nat
    assume "n < LENGTH(32)"
    then consider "n < 8" | "8 \<le> n" "n < 16" | "16 \<le> n" "n < 24" | "24 \<le> n" "n < 32"
      by fastforce
    then show "bit ?w n = bit v n"
      by cases (auto simp: bit_simps less_diff_conv2)
  qed
  then show ?thesis by (simp add: be32_def)
qed

lemma u8_no_bit: "8 \<le> n \<Longrightarrow> \<not> bit (b :: u8) n"
  using bit_imp_le_length [of b n] by auto

lemma be32_read_uint32: "read_uint32 bs = Some (v, p) \<Longrightarrow> bs = be32 v @ p"
proof (induction bs rule: read_uint32.induct)
  case (1 a b c d p')
  let ?v = "push_bit 24 (ucast a) OR push_bit 16 (ucast b) OR push_bit 8 (ucast c) OR ucast d :: u32"
  have "be32 ?v = [a, b, c, d]"
    unfolding be32_def by (auto simp: bit_simps u8_no_bit intro!: bit_word_eqI)
  with 1 show ?case by auto
qed simp_all

lemma read_uint8_Cons [codec_simps]: "read_uint8 (b # p) = Some (b, p)"
  by simp

lemma read_chars_append [simp, codec_simps]:
  "length s = n \<Longrightarrow> read_chars n (map u8_of_char s @ p) = Some (s, p)"
  by (simp add: read_chars_def del: map_map)

lemma read_chars_all [simp, codec_simps]:
  "length s = n \<Longrightarrow> read_chars n (map u8_of_char s) = Some (s, [])"
  by (simp add: read_chars_def del: map_map)

lemma read_array_append [codec_simps]:
  assumes "\<And>x p. x \<in> set xs \<Longrightarrow> rd (enc x @ p) = Some (x, p)"
  shows "length xs = n \<Longrightarrow> read_array n rd (concat (map enc xs) @ p) = Some (xs, p)"
  using assms by (induction xs arbitrary: n) auto

lemma write_array_append:
  assumes "\<And>x p. x \<in> set xs \<Longrightarrow> wr p x = p @ enc x" and "length xs = n"
  shows "write_array wr xs n p = p @ concat (map enc xs)"
proof -
  have "write_array wr xs n p = fold (\<lambda>i p. p @ enc (xs ! i)) [0..<n] p"
    unfolding write_array_def using assms by (intro fold_cong) auto
  then show ?thesis using assms(2) by (simp add: fold_append_nth_n)
qed

lemma read_map_Some [codec_simps]: "rd p = Some (x, q) \<Longrightarrow> read_map f rd p = Some (f x, q)"
  by (simp add: read_map_def)

text \<open>
  \<open>takes k rd Q\<close>: on at least \<open>k\<close> bytes the reader stays in bounds, consumes exactly \<open>k\<close> of
  them and yields a value with \<open>Q\<close>. \<open>succeeds valid n f\<close>: a deserializer body run on exactly \<open>n\<close>
  bytes stays in bounds and returns a well-formed structure. The rules chain the reads of a body.
\<close>

definition takes :: "nat \<Rightarrow> (bytes \<Rightarrow> ('a \<times> bytes) option) \<Rightarrow> ('a \<Rightarrow> bool) \<Rightarrow> bool" where
  "takes k rd Q \<longleftrightarrow> (\<forall>p. k \<le> length p \<longrightarrow> (\<exists>x. rd p = Some (x, drop k p) \<and> Q x))"

definition succeeds :: "('a \<Rightarrow> bool) \<Rightarrow> nat \<Rightarrow> (bytes \<Rightarrow> 'a result option) \<Rightarrow> bool" where
  "succeeds valid n f \<longleftrightarrow> (\<forall>p. length p = n \<longrightarrow> (\<exists>x. f p = Some (Inr x) \<and> valid x))"

named_theorems takes_intros \<open>how many bytes each reader takes\<close>

lemma takesI: "(\<And>p. k \<le> length p \<Longrightarrow> \<exists>x. rd p = Some (x, drop k p) \<and> Q x) \<Longrightarrow> takes k rd Q"
  by (simp add: takes_def)

lemma takesD: "takes k rd Q \<Longrightarrow> k \<le> length p \<Longrightarrow> \<exists>x. rd p = Some (x, drop k p) \<and> Q x"
  by (simp add: takes_def)

lemma takes_uint8 [takes_intros]: "takes 1 read_uint8 (\<lambda>_. True)"
proof (rule takesI)
  fix p :: bytes
  assume "1 \<le> length p"
  then show "\<exists>x. read_uint8 p = Some (x, drop 1 p) \<and> True" by (cases p) auto
qed

lemma takes_uint32 [takes_intros]: "takes 4 read_uint32 (\<lambda>_. True)"
proof (rule takesI)
  fix p :: bytes
  assume "4 \<le> length p"
  then obtain a b c d q where "p = a # b # c # d # q"
    by (metis (no_types, opaque_lifting) Suc_le_length_iff numeral_eq_Suc pred_numeral_simps(2)
        pred_numeral_simps(3) eval_nat_numeral(2) BitM.simps(2) BitM.simps(1) numeral_One)
  then show "\<exists>x. read_uint32 p = Some (x, drop 4 p) \<and> True" by simp
qed

lemma takes_chars [takes_intros]: "takes n (read_chars n) (\<lambda>s. length s = n)"
  by (auto simp: takes_def read_chars_def)

lemma takes_map [takes_intros]:
  "takes k rd Q \<Longrightarrow> takes k (read_map f rd) (\<lambda>y. \<exists>x. y = f x \<and> Q x)"
  by (fastforce simp: takes_def read_map_def)

lemma takes_array [takes_intros]:
  "takes k rd Q \<Longrightarrow> takes (n * k) (read_array n rd) (\<lambda>xs. length xs = n \<and> (\<forall>x \<in> set xs. Q x))"
proof (induction n)
  case 0
  then show ?case by (simp add: takes_def)
next
  case (Suc n)
  show ?case
  proof (rule takesI)
    fix p :: bytes
    assume len: "Suc n * k \<le> length p"
    then obtain x where x: "rd p = Some (x, drop k p)" "Q x"
      using takesD [OF Suc.prems, of p] by auto
    from len have "n * k \<le> length (drop k p)" by simp
    then obtain xs where "read_array n rd (drop k p) = Some (xs, drop (n * k) (drop k p))"
        "length xs = n" "\<forall>x \<in> set xs. Q x"
      using takesD [OF Suc.IH [OF Suc.prems]] by blast
    with x show "\<exists>y. read_array (Suc n) rd p = Some (y, drop (Suc n * k) p) \<and>
        length y = Suc n \<and> (\<forall>x \<in> set y. Q x)"
      by (simp add: add.commute)
  qed
qed

lemma takes_bind:
  assumes "takes k rd Q" "\<And>x. Q x \<Longrightarrow> takes n (f x) R"
  shows "takes (k + n) (\<lambda>p. rd p \<bind> (\<lambda>(x, q). f x q)) R"
proof (rule takesI)
  fix p :: bytes
  assume len: "k + n \<le> length p"
  then obtain x where x: "rd p = Some (x, drop k p)" "Q x"
    using takesD [OF assms(1), of p] by auto
  from len have "n \<le> length (drop k p)" by simp
  then obtain y where "f x (drop k p) = Some (y, drop n (drop k p))" "R y"
    using takesD [OF assms(2) [OF x(2)]] by blast
  with x show "\<exists>y. rd p \<bind> (\<lambda>(x, q). f x q) = Some (y, drop (k + n) p) \<and> R y"
    by (simp add: add.commute)
qed

lemma takes_return: "R v \<Longrightarrow> takes 0 (\<lambda>p. Some (v, p)) R"
  by (simp add: takes_def)

lemma succeeds_bind:
  assumes "takes k rd Q" "\<And>x. Q x \<Longrightarrow> succeeds valid n (f x)"
  shows "succeeds valid (k + n) (\<lambda>p. rd p \<bind> (\<lambda>(x, q). f x q))"
  unfolding succeeds_def
proof (intro allI impI)
  fix p :: bytes
  assume len: "length p = k + n"
  then obtain x where x: "rd p = Some (x, drop k p)" "Q x"
    using takesD [OF assms(1), of p] by auto
  with len show "\<exists>y. rd p \<bind> (\<lambda>(x, q). f x q) = Some (Inr y) \<and> valid y"
    using assms(2) [of x] by (simp add: succeeds_def)
qed

lemma succeeds_return: "valid v \<Longrightarrow> succeeds valid 0 (\<lambda>p. Some (Inr v))"
  by (simp add: succeeds_def)

lemma succeedsD: "succeeds valid n f \<Longrightarrow> length p = n \<Longrightarrow> \<exists>x. f p = Some (Inr x) \<and> valid x"
  by (simp add: succeeds_def)

text \<open>How a deserializer checks the length first and then runs its body.\<close>

lemma guarded_body:
  assumes "des bs = (if length bs \<noteq> n then Some (Inl Minus1) else body bs)"
    and "succeeds valid m body" and "m = n" and "length bs = n"
  shows "\<exists>x. des bs = Some (Inr x) \<and> valid x"
  using assms succeedsD [of valid n body bs] by simp

lemmas body_intros = succeeds_bind succeeds_return

text \<open>Storing the result of a deserializer in the union.\<close>

definition into :: "('a \<Rightarrow> 'p) \<Rightarrow> 'a result option \<Rightarrow> 'p result option" where
  "into C r = map_option (map_sum id C) r"

section \<open>The contract of a serializer and its deserializer\<close>

text \<open>
  \<open>ser x cap\<close> serializes into a buffer of \<open>cap\<close> bytes and fails when the buffer is too small;
  \<open>des bs\<close> fails exactly when the payload does not have the width of the structure. Within the
  width, deserializing never leaves the payload, yields a well-formed structure and inverts
  serializing.
\<close>

locale codec =
  fixes valid :: "'a \<Rightarrow> bool" and width :: nat
    and ser :: "'a \<Rightarrow> nat \<Rightarrow> bytes result" and des :: "bytes \<Rightarrow> 'a result option"
  assumes ser_small: "cap < width \<Longrightarrow> ser x cap = Inl Minus1"
    and ser_fits: "width \<le> cap \<Longrightarrow> \<exists>bs. ser x cap = Inr bs"
    and ser_length: "valid x \<Longrightarrow> ser x cap = Inr bs \<Longrightarrow> length bs = width"
    and des_ser: "valid x \<Longrightarrow> ser x cap = Inr bs \<Longrightarrow> des bs = Some (Inr x)"
    and des_length: "length bs \<noteq> width \<Longrightarrow> des bs = Some (Inl Minus1)"
    and des_total: "length bs = width \<Longrightarrow> \<exists>x. des bs = Some (Inr x) \<and> valid x"
begin

lemma des_in_bounds: "des bs \<noteq> None"
  using des_length des_total by (cases "length bs = width") fastforce+

lemma des_fails_iff: "des bs = Some (Inl e) \<longleftrightarrow> length bs \<noteq> width"
  using des_length des_total by (cases e; cases "length bs = width") fastforce+

lemma des_wf: "des bs = Some (Inr x) \<Longrightarrow> valid x \<and> length bs = width"
  using des_length des_total by (cases "length bs = width") fastforce+

lemma ser_inj: "valid x \<Longrightarrow> valid y \<Longrightarrow> ser x cap = Inr bs \<Longrightarrow> ser y cap' = Inr bs \<Longrightarrow> x = y"
  using des_ser [of x cap bs] des_ser [of y cap' bs] by simp

lemma roundtrip:
  "valid x \<Longrightarrow> width \<le> cap \<Longrightarrow>
   \<exists>bs. ser x cap = Inr bs \<and> length bs = width \<and> des bs = Some (Inr x)"
  using ser_fits ser_length des_ser by metis

text \<open>The two switches work on a buffer of 1024 bytes and wrap the structure into the union.\<close>

lemma through_union:
  "valid x \<Longrightarrow> width \<le> 1024 \<Longrightarrow>
   \<exists>bs. ser x 1024 = Inr bs \<and> length bs \<le> 1024 \<and> into C (des bs) = Some (Inr (C x))"
  using roundtrip [of x 1024] by (auto simp: into_def)

lemma into_in_bounds: "into C (des bs) \<noteq> None"
  using des_in_bounds by (simp add: into_def)

lemma into_wf: "into C (des bs) = Some (Inr p) \<Longrightarrow> \<exists>x. p = C x \<and> valid x"
  using des_wf by (auto simp: into_def elim!: map_sum_Inr)

end

section \<open>The twelve payloads\<close>

subsection \<open>Move\<close>

definition serialize_move :: "MovePayload \<Rightarrow> nat \<Rightarrow> bytes result" where
  "serialize_move src dst_cap =
     (if dst_cap < 4 + 1 + 1 then Inl Minus1
      else let p = [];
               p = write_uint32 p (mv_game_id src);
               p = write_uint8 p (mv_row src);
               p = write_uint8 p (mv_col src)
           in Inr p)"

definition deserialize_move :: "bytes \<Rightarrow> MovePayload result option" where
  "deserialize_move src =
     (if length src \<noteq> 4 + 1 + 1 then Some (Inl Minus1)
      else do {
        (gid, p) \<leftarrow> read_uint32 src;
        (row, p) \<leftarrow> read_uint8 p;
        (col, p) \<leftarrow> read_uint8 p;
        Some (Inr \<lparr>mv_game_id = gid, mv_row = row, mv_col = col\<rparr>) })"

lemmas write_defs = write_uint32_def write_uint8_def write_chars_def Let_def

lemmas [codec_simps] =
  game_state.of_code_code game_result.of_code_code player.of_code_code int_of_u32_of_int

lemma deserialize_move_total:
  "length bs = 6 \<Longrightarrow> \<exists>x. deserialize_move bs = Some (Inr x) \<and> True"
  by (rule guarded_body [where des = deserialize_move, OF deserialize_move_def],
      (rule body_intros takes_intros)+) simp_all

interpretation move: codec "\<lambda>_. True" 6 serialize_move deserialize_move
  by (unfold_locales; (rule deserialize_move_total)?)
    (auto simp: serialize_move_def deserialize_move_def write_defs split: if_splits)

subsection \<open>Game state\<close>

definition write_board :: "bytes \<Rightarrow> string list \<Rightarrow> bytes" where
  "write_board p b = write_array (\<lambda>p row. write_array (\<lambda>p c. write_uint8 p (u8_of_char c)) row 3 p) b 3 p"

definition read_board :: "bytes \<Rightarrow> (string list \<times> bytes) option" where
  "read_board = read_array 3 (read_array 3 (read_map char_of_u8 read_uint8))"

definition serialize_game_state :: "GameStatePayload \<Rightarrow> nat \<Rightarrow> bytes result" where
  "serialize_game_state src dst_cap =
     (if dst_cap < 4 + 9 + 5 + 64 then Inl Minus1
      else let p = [];
               p = write_uint32 p (gs_game_id src);
               p = write_board p (board (gs_state_data src));
               p = write_uint8 p (Player_code (current_turn (gs_state_data src)));
               p = write_uint8 p (GameState_code (gstate (gs_state_data src)));
               p = write_uint8 p (GameResult_code (result_player_x (gs_state_data src)));
               p = write_uint8 p (GameResult_code (result_player_o (gs_state_data src)));
               p = write_uint8 p (Player_code (player_role (gs_state_data src)));
               p = write_chars p (gs_message src) 64
           in Inr p)"

definition deserialize_game_state :: "bytes \<Rightarrow> GameStatePayload result option" where
  "deserialize_game_state src =
     (if length src \<noteq> 4 + 9 + 5 + 64 then Some (Inl Minus1)
      else do {
        (gid, p) \<leftarrow> read_uint32 src;
        (b, p) \<leftarrow> read_board p;
        (turn, p) \<leftarrow> read_map Player_of_code read_uint8 p;
        (st, p) \<leftarrow> read_map GameState_of_code read_uint8 p;
        (rx, p) \<leftarrow> read_map GameResult_of_code read_uint8 p;
        (ro, p) \<leftarrow> read_map GameResult_of_code read_uint8 p;
        (role, p) \<leftarrow> read_map Player_of_code read_uint8 p;
        (message, p) \<leftarrow> read_chars 64 p;
        Some (Inr \<lparr>gs_game_id = gid,
          gs_state_data = \<lparr>board = b, current_turn = turn, gstate = st, result_player_x = rx,
            result_player_o = ro, player_role = role\<rparr>,
          gs_message = message\<rparr>) })"

definition board_bytes :: "string list \<Rightarrow> bytes" where
  "board_bytes b = concat (map (map u8_of_char) b)"

lemma write_row: "length row = n \<Longrightarrow>
  write_array (\<lambda>p c. write_uint8 p (u8_of_char c)) row n p = p @ map u8_of_char row"
  by (subst write_array_append [where enc = "\<lambda>c. [u8_of_char c]"]) (auto simp: write_uint8_def)

lemma read_row:
  "read_array (length row) (read_map char_of_u8 read_uint8) (map u8_of_char row @ p) = Some (row, p)"
  by (induction row) (simp_all add: read_map_def)

lemma write_board_bytes: "length b = 3 \<Longrightarrow> \<forall>row \<in> set b. length row = 3 \<Longrightarrow>
  write_board p b = p @ board_bytes b"
  unfolding write_board_def board_bytes_def
  by (rule write_array_append) (simp_all add: write_row)

lemma read_board_bytes [codec_simps]: "length b = 3 \<Longrightarrow> \<forall>row \<in> set b. length row = 3 \<Longrightarrow>
  read_board (board_bytes b @ p) = Some (b, p)"
  unfolding read_board_def board_bytes_def
  by (rule read_array_append) (metis read_row, simp)

lemma length_board_bytes: "length b = 3 \<Longrightarrow> \<forall>row \<in> set b. length row = 3 \<Longrightarrow>
  length (board_bytes b) = 9"
proof -
  assume "length b = 3" and rows: "\<forall>row \<in> set b. length row = 3"
  then have "map length b = replicate 3 3"
    by (intro replicate_eqI) auto
  then show ?thesis
    by (simp add: board_bytes_def length_concat comp_def sum_list_replicate)
qed

lemma takes_board [takes_intros]:
  "takes 9 read_board (\<lambda>b. length b = 3 \<and> (\<forall>row \<in> set b. length row = 3))"
proof -
  have "takes (3 * (3 * 1)) read_board
      (\<lambda>b. length b = 3 \<and> (\<forall>row \<in> set b. length row = 3 \<and> (\<forall>c \<in> set row. \<exists>x. c = char_of_u8 x \<and> True)))"
    unfolding read_board_def by (intro takes_intros)
  then show ?thesis by (fastforce simp: takes_def)
qed

lemma serialize_game_state_wf:
  "wf_GameStatePayload x \<Longrightarrow> serialize_game_state x cap = Inr bs \<Longrightarrow>
   length bs = 82 \<and> deserialize_game_state bs = Some (Inr x)"
  by (auto simp: serialize_game_state_def deserialize_game_state_def wf_payload_defs write_defs
      write_board_bytes length_board_bytes codec_simps split: if_splits)

lemma deserialize_game_state_total:
  "length bs = 82 \<Longrightarrow> \<exists>x. deserialize_game_state bs = Some (Inr x) \<and> wf_GameStatePayload x"
  by (rule guarded_body [where des = deserialize_game_state, OF deserialize_game_state_def],
      (rule body_intros takes_intros)+) (auto simp: wf_payload_defs)

interpretation game_state_payload: codec wf_GameStatePayload 82 serialize_game_state deserialize_game_state
  by (unfold_locales; (rule deserialize_game_state_total)?)
    (auto simp: serialize_game_state_wf, simp_all add: serialize_game_state_def deserialize_game_state_def)

subsection \<open>Error\<close>

definition serialize_error :: "ErrorPayload \<Rightarrow> nat \<Rightarrow> bytes result" where
  "serialize_error src dst_cap =
     (if dst_cap < 64 then Inl Minus1 else Inr (write_chars [] (err_message src) 64))"

definition deserialize_error :: "bytes \<Rightarrow> ErrorPayload result option" where
  "deserialize_error src =
     (if length src \<noteq> 64 then Some (Inl Minus1)
      else do {
        (message, p) \<leftarrow> read_chars 64 src;
        Some (Inr \<lparr>err_message = message\<rparr>) })"

lemma deserialize_error_total:
  "length bs = 64 \<Longrightarrow> \<exists>x. deserialize_error bs = Some (Inr x) \<and> wf_ErrorPayload x"
  by (rule guarded_body [where des = deserialize_error, OF deserialize_error_def],
      (rule body_intros takes_intros)+) (auto simp: wf_payload_defs)

lemma serialize_error_wf:
  "wf_ErrorPayload x \<Longrightarrow> serialize_error x cap = Inr bs \<Longrightarrow>
   length bs = 64 \<and> deserialize_error bs = Some (Inr x)"
  by (auto simp: serialize_error_def deserialize_error_def wf_payload_defs write_defs
      codec_simps split: if_splits)

interpretation error_payload: codec wf_ErrorPayload 64 serialize_error deserialize_error
  by (unfold_locales; (rule deserialize_error_total)?)
    (auto simp: serialize_error_wf, simp_all add: serialize_error_def deserialize_error_def)

subsection \<open>Game list\<close>

definition write_game_state :: "bytes \<Rightarrow> GameState \<Rightarrow> bytes" where
  "write_game_state p s = write_uint8 p (GameState_code s)"

definition serialize_game_list :: "GameListPayload \<Rightarrow> nat \<Rightarrow> bytes result" where
  "serialize_game_list src dst_cap =
     (if dst_cap < 40 + 1 + 10 then Inl Minus1
      else let p = [];
               p = write_array write_uint32 (gl_game_ids src) 10 p;
               p = write_uint8 p (gl_game_count src);
               p = write_array write_game_state (gl_game_states src) 10 p
           in Inr p)"

definition deserialize_game_list :: "bytes \<Rightarrow> GameListPayload result option" where
  "deserialize_game_list src =
     (if length src \<noteq> 40 + 1 + 10 then Some (Inl Minus1)
      else do {
        (ids, p) \<leftarrow> read_array 10 read_uint32 src;
        (count, p) \<leftarrow> read_uint8 p;
        (states, p) \<leftarrow> read_array 10 (read_map GameState_of_code read_uint8) p;
        Some (Inr \<lparr>gl_game_ids = ids, gl_game_count = count, gl_game_states = states\<rparr>) })"

lemma write_ids: "length ids = n \<Longrightarrow>
  write_array write_uint32 ids n p = p @ concat (map be32 ids)"
  by (rule write_array_append) (simp_all add: write_uint32_def)

lemma write_states: "length ss = n \<Longrightarrow>
  write_array write_game_state ss n p = p @ map GameState_code ss"
  by (subst write_array_append [where enc = "\<lambda>s. [GameState_code s]"]) (auto simp: write_game_state_def write_uint8_def)

lemma read_ids [codec_simps]: "length ids = n \<Longrightarrow>
  read_array n read_uint32 (concat (map be32 ids) @ p) = Some (ids, p)"
  by (rule read_array_append) simp_all

lemma read_states [codec_simps]: "\<forall>s \<in> set ss. game_state.canonical s \<Longrightarrow> length ss = n \<Longrightarrow>
  read_array n (read_map GameState_of_code read_uint8) (map GameState_code ss) = Some (ss, [])"
  by (induction ss arbitrary: n) (auto simp: read_map_def game_state.of_code_code)

lemma length_ids: "length (concat (map be32 ids)) = 4 * length ids"
  by (induction ids) simp_all

lemma deserialize_game_list_total:
  "length bs = 51 \<Longrightarrow> \<exists>x. deserialize_game_list bs = Some (Inr x) \<and> wf_GameListPayload x"
  by (rule guarded_body [where des = deserialize_game_list, OF deserialize_game_list_def],
      (rule body_intros takes_intros)+) (auto simp: wf_payload_defs)

lemma serialize_game_list_wf:
  "wf_GameListPayload x \<Longrightarrow> serialize_game_list x cap = Inr bs \<Longrightarrow>
   length bs = 51 \<and> deserialize_game_list bs = Some (Inr x)"
  by (auto simp: serialize_game_list_def deserialize_game_list_def wf_payload_defs write_uint8_def
      Let_def write_ids write_states length_ids
      codec_simps split: if_splits)

interpretation game_list_payload: codec wf_GameListPayload 51 serialize_game_list deserialize_game_list
  by (unfold_locales; (rule deserialize_game_list_total)?)
    (auto simp: serialize_game_list_wf, simp_all add: serialize_game_list_def deserialize_game_list_def)

subsection \<open>Game start\<close>

definition serialize_game_start :: "GameStartPayload \<Rightarrow> nat \<Rightarrow> bytes result" where
  "serialize_game_start src dst_cap =
     (if dst_cap < 4 + 1 + 1 then Inl Minus1
      else let p = [];
               p = write_uint32 p (st_game_id src);
               p = write_uint8 p (Player_code (st_player_role src));
               p = write_uint8 p (Player_code (st_first_player src))
           in Inr p)"

definition deserialize_game_start :: "bytes \<Rightarrow> GameStartPayload result option" where
  "deserialize_game_start src =
     (if length src \<noteq> 4 + 1 + 1 then Some (Inl Minus1)
      else do {
        (gid, p) \<leftarrow> read_uint32 src;
        (role, p) \<leftarrow> read_map Player_of_code read_uint8 p;
        (first, p) \<leftarrow> read_map Player_of_code read_uint8 p;
        Some (Inr \<lparr>st_game_id = gid, st_player_role = role, st_first_player = first\<rparr>) })"

lemma deserialize_game_start_total:
  "length bs = 6 \<Longrightarrow> \<exists>x. deserialize_game_start bs = Some (Inr x) \<and> wf_GameStartPayload x"
  by (rule guarded_body [where des = deserialize_game_start, OF deserialize_game_start_def],
      (rule body_intros takes_intros)+) (auto simp: wf_payload_defs)

lemma serialize_game_start_wf:
  "wf_GameStartPayload x \<Longrightarrow> serialize_game_start x cap = Inr bs \<Longrightarrow>
   length bs = 6 \<and> deserialize_game_start bs = Some (Inr x)"
  by (auto simp: serialize_game_start_def deserialize_game_start_def wf_payload_defs write_defs
      codec_simps split: if_splits)

interpretation game_start_payload: codec wf_GameStartPayload 6 serialize_game_start deserialize_game_start
  by (unfold_locales; (rule deserialize_game_start_total)?)
    (auto simp: serialize_game_start_wf, simp_all add: serialize_game_start_def deserialize_game_start_def)

subsection \<open>Game over\<close>

definition serialize_game_over :: "GameOverPayload \<Rightarrow> nat \<Rightarrow> bytes result" where
  "serialize_game_over src dst_cap =
     (if dst_cap < 4 + 1 + 64 then Inl Minus1
      else let p = [];
               p = write_uint32 p (ov_game_id src);
               p = write_uint8 p (ov_winner src);
               p = write_chars p (ov_message src) 64
           in Inr p)"

definition deserialize_game_over :: "bytes \<Rightarrow> GameOverPayload result option" where
  "deserialize_game_over src =
     (if length src \<noteq> 4 + 1 + 64 then Some (Inl Minus1)
      else do {
        (gid, p) \<leftarrow> read_uint32 src;
        (winner, p) \<leftarrow> read_uint8 p;
        (message, p) \<leftarrow> read_chars 64 p;
        Some (Inr \<lparr>ov_game_id = gid, ov_winner = winner, ov_message = message\<rparr>) })"

lemma deserialize_game_over_total:
  "length bs = 69 \<Longrightarrow> \<exists>x. deserialize_game_over bs = Some (Inr x) \<and> wf_GameOverPayload x"
  by (rule guarded_body [where des = deserialize_game_over, OF deserialize_game_over_def],
      (rule body_intros takes_intros)+) (auto simp: wf_payload_defs)

lemma serialize_game_over_wf:
  "wf_GameOverPayload x \<Longrightarrow> serialize_game_over x cap = Inr bs \<Longrightarrow>
   length bs = 69 \<and> deserialize_game_over bs = Some (Inr x)"
  by (auto simp: serialize_game_over_def deserialize_game_over_def wf_payload_defs write_defs
      codec_simps split: if_splits)

interpretation game_over_payload: codec wf_GameOverPayload 69 serialize_game_over deserialize_game_over
  by (unfold_locales; (rule deserialize_game_over_total)?)
    (auto simp: serialize_game_over_wf, simp_all add: serialize_game_over_def deserialize_game_over_def)

subsection \<open>Join request\<close>

definition serialize_join_request :: "JoinRequestPayload \<Rightarrow> nat \<Rightarrow> bytes result" where
  "serialize_join_request src dst_cap =
     (if dst_cap < 4 + 4 + 32 then Inl Minus1
      else let p = [];
               p = write_uint32 p (jr_game_id src);
               p = write_uint32 p (jr_player_id src);
               p = write_chars p (jr_player_name src) 32
           in Inr p)"

definition deserialize_join_request :: "bytes \<Rightarrow> JoinRequestPayload result option" where
  "deserialize_join_request src =
     (if length src \<noteq> 4 + 4 + 32 then Some (Inl Minus1)
      else do {
        (gid, p) \<leftarrow> read_uint32 src;
        (pid, p) \<leftarrow> read_uint32 p;
        (name, p) \<leftarrow> read_chars 32 p;
        Some (Inr \<lparr>jr_game_id = gid, jr_player_id = pid, jr_player_name = name\<rparr>) })"

lemma deserialize_join_request_total:
  "length bs = 40 \<Longrightarrow> \<exists>x. deserialize_join_request bs = Some (Inr x) \<and> wf_JoinRequestPayload x"
  by (rule guarded_body [where des = deserialize_join_request, OF deserialize_join_request_def],
      (rule body_intros takes_intros)+) (auto simp: wf_payload_defs)

lemma serialize_join_request_wf:
  "wf_JoinRequestPayload x \<Longrightarrow> serialize_join_request x cap = Inr bs \<Longrightarrow>
   length bs = 40 \<and> deserialize_join_request bs = Some (Inr x)"
  by (auto simp: serialize_join_request_def deserialize_join_request_def wf_payload_defs write_defs
      codec_simps split: if_splits)

interpretation join_request_payload: codec wf_JoinRequestPayload 40 serialize_join_request deserialize_join_request
  by (unfold_locales; (rule deserialize_join_request_total)?)
    (auto simp: serialize_join_request_wf, simp_all add: serialize_join_request_def deserialize_join_request_def)

subsection \<open>Join decision\<close>

text \<open>The answer is a Boolean: any value but 0 is sent and read back as 1.\<close>

definition serialize_join_decision :: "JoinDecisionPayload \<Rightarrow> nat \<Rightarrow> bytes result" where
  "serialize_join_decision src dst_cap =
     (if dst_cap < 4 + 1 then Inl Minus1
      else let p = [];
               p = write_uint32 p (jd_game_id src);
               p = write_uint8 p (if jd_accepted src \<noteq> 0 then 1 else 0)
           in Inr p)"

definition deserialize_join_decision :: "bytes \<Rightarrow> JoinDecisionPayload result option" where
  "deserialize_join_decision src =
     (if length src \<noteq> 4 + 1 then Some (Inl Minus1)
      else do {
        (gid, p) \<leftarrow> read_uint32 src;
        (accepted, p) \<leftarrow> read_map (\<lambda>b. if b \<noteq> 0 then 1 else 0) read_uint8 p;
        Some (Inr \<lparr>jd_game_id = gid, jd_accepted = accepted\<rparr>) })"

lemma deserialize_join_decision_total:
  "length bs = 5 \<Longrightarrow> \<exists>x. deserialize_join_decision bs = Some (Inr x) \<and> wf_JoinDecisionPayload x"
  by (rule guarded_body [where des = deserialize_join_decision, OF deserialize_join_decision_def],
      (rule body_intros takes_intros)+) (auto simp: wf_payload_defs split: if_splits)

lemma serialize_join_decision_wf:
  "wf_JoinDecisionPayload x \<Longrightarrow> serialize_join_decision x cap = Inr bs \<Longrightarrow>
   length bs = 5 \<and> deserialize_join_decision bs = Some (Inr x)"
  by (auto simp: serialize_join_decision_def deserialize_join_decision_def wf_payload_defs write_defs
      codec_simps split: if_splits)

interpretation join_decision_payload: codec wf_JoinDecisionPayload 5 serialize_join_decision deserialize_join_decision
  by (unfold_locales; (rule deserialize_join_decision_total)?)
    (auto simp: serialize_join_decision_wf, simp_all add: serialize_join_decision_def deserialize_join_decision_def)

subsection \<open>Lobby update\<close>

definition write_lobby_game :: "bytes \<Rightarrow> LobbyGameInfo \<Rightarrow> bytes" where
  "write_lobby_game p g =
     (let p = write_uint32 p (li_game_id g);
          p = write_uint8 p (GameState_code (li_state g));
          p = write_chars p (li_owner_name g) 32;
          p = write_uint32 p (u32_of_int (li_players_connected g))
      in p)"

definition read_lobby_game :: "bytes \<Rightarrow> (LobbyGameInfo \<times> bytes) option" where
  "read_lobby_game p = do {
     (gid, p) \<leftarrow> read_uint32 p;
     (st, p) \<leftarrow> read_map GameState_of_code read_uint8 p;
     (owner, p) \<leftarrow> read_chars 32 p;
     (players, p) \<leftarrow> read_map int_of_u32 read_uint32 p;
     Some (\<lparr>li_game_id = gid, li_state = st, li_owner_name = owner, li_players_connected = players\<rparr>, p) }"

definition serialize_lobby_update :: "LobbyUpdatePayload \<Rightarrow> nat \<Rightarrow> bytes result" where
  "serialize_lobby_update src dst_cap =
     (if dst_cap < 1 + 10 * 41 then Inl Minus1
      else let p = [];
               p = write_uint8 p (lu_game_count src);
               p = write_array write_lobby_game (lu_games src) 10 p
           in Inr p)"

definition deserialize_lobby_update :: "bytes \<Rightarrow> LobbyUpdatePayload result option" where
  "deserialize_lobby_update src =
     (if length src \<noteq> 1 + 10 * 41 then Some (Inl Minus1)
      else do {
        (count, p) \<leftarrow> read_uint8 src;
        (games, p) \<leftarrow> read_array 10 read_lobby_game p;
        Some (Inr \<lparr>lu_game_count = count, lu_games = games\<rparr>) })"

definition lobby_game_bytes :: "LobbyGameInfo \<Rightarrow> bytes" where
  "lobby_game_bytes g =
     be32 (li_game_id g) @ [GameState_code (li_state g)] @ map u8_of_char (li_owner_name g) @
     be32 (u32_of_int (li_players_connected g))"

lemma wf_LobbyGameInfo_length [simp]: "wf_LobbyGameInfo g \<Longrightarrow> length (li_owner_name g) = 32"
  by (simp add: wf_LobbyGameInfo_def)

lemma write_lobby_games: "length gs = n \<Longrightarrow> \<forall>g \<in> set gs. length (li_owner_name g) = 32 \<Longrightarrow>
  write_array write_lobby_game gs n p = p @ concat (map lobby_game_bytes gs)"
  by (rule write_array_append) (simp_all add: write_lobby_game_def lobby_game_bytes_def write_defs)

lemma read_lobby_games [codec_simps]:
  assumes "\<forall>g \<in> set gs. wf_LobbyGameInfo g" "length gs = n"
  shows "read_array n read_lobby_game (concat (map lobby_game_bytes gs)) = Some (gs, [])"
proof -
  have "read_array n read_lobby_game (concat (map lobby_game_bytes gs) @ []) = Some (gs, [])"
    using assms
    by (intro read_array_append)
      (simp_all add: read_lobby_game_def lobby_game_bytes_def wf_LobbyGameInfo_def codec_simps)
  then show ?thesis by simp
qed

lemma length_lobby_games: "\<forall>g \<in> set gs. length (li_owner_name g) = 32 \<Longrightarrow>
  length (concat (map lobby_game_bytes gs)) = length gs * 41"
  by (induction gs) (simp_all add: lobby_game_bytes_def)

lemma int_of_u32_range [simp]: "- 2147483648 \<le> int_of_u32 w" "int_of_u32 w < 2147483648"
  using sint_ge [of w] sint_lt [of w] by (simp_all add: int_of_u32_def)

lemma takes_lobby_game [takes_intros]: "takes 41 read_lobby_game wf_LobbyGameInfo"
proof -
  have "takes (4 + (1 + (32 + (4 + 0)))) read_lobby_game wf_LobbyGameInfo"
    unfolding read_lobby_game_def
    by (rule takes_bind takes_return takes_intros)+ (auto simp: wf_LobbyGameInfo_def)
  then show ?thesis by simp
qed

lemma deserialize_lobby_update_total:
  "length bs = 411 \<Longrightarrow> \<exists>x. deserialize_lobby_update bs = Some (Inr x) \<and> wf_LobbyUpdatePayload x"
  by (rule guarded_body [where des = deserialize_lobby_update, OF deserialize_lobby_update_def],
      (rule body_intros takes_intros)+) (auto simp: wf_LobbyUpdatePayload_def)

lemma serialize_lobby_update_wf:
  "wf_LobbyUpdatePayload x \<Longrightarrow> serialize_lobby_update x cap = Inr bs \<Longrightarrow>
   length bs = 411 \<and> deserialize_lobby_update bs = Some (Inr x)"
  by (auto simp: serialize_lobby_update_def deserialize_lobby_update_def wf_LobbyUpdatePayload_def
      write_defs
      write_lobby_games length_lobby_games codec_simps split: if_splits)

interpretation lobby_update_payload: codec wf_LobbyUpdatePayload 411 serialize_lobby_update deserialize_lobby_update
  by (unfold_locales; (rule deserialize_lobby_update_total)?)
    (auto simp: serialize_lobby_update_wf, simp_all add: serialize_lobby_update_def deserialize_lobby_update_def)

subsection \<open>Game status change\<close>

definition serialize_status_change :: "GameStatusChangePayload \<Rightarrow> nat \<Rightarrow> bytes result" where
  "serialize_status_change src dst_cap =
     (if dst_cap < 4 + 1 + 128 then Inl Minus1
      else let p = [];
               p = write_uint32 p (sc_game_id src);
               p = write_uint8 p (GameState_code (sc_new_state src));
               p = write_chars p (sc_message src) 128
           in Inr p)"

definition deserialize_status_change :: "bytes \<Rightarrow> GameStatusChangePayload result option" where
  "deserialize_status_change src =
     (if length src \<noteq> 4 + 1 + 128 then Some (Inl Minus1)
      else do {
        (gid, p) \<leftarrow> read_uint32 src;
        (st, p) \<leftarrow> read_map GameState_of_code read_uint8 p;
        (message, p) \<leftarrow> read_chars 128 p;
        Some (Inr \<lparr>sc_game_id = gid, sc_new_state = st, sc_message = message\<rparr>) })"

lemma deserialize_status_change_total:
  "length bs = 133 \<Longrightarrow> \<exists>x. deserialize_status_change bs = Some (Inr x) \<and> wf_GameStatusChangePayload x"
  by (rule guarded_body [where des = deserialize_status_change, OF deserialize_status_change_def],
      (rule body_intros takes_intros)+) (auto simp: wf_payload_defs)

lemma serialize_status_change_wf:
  "wf_GameStatusChangePayload x \<Longrightarrow> serialize_status_change x cap = Inr bs \<Longrightarrow>
   length bs = 133 \<and> deserialize_status_change bs = Some (Inr x)"
  by (auto simp: serialize_status_change_def deserialize_status_change_def wf_payload_defs write_defs
      codec_simps split: if_splits)

interpretation status_change_payload: codec wf_GameStatusChangePayload 133 serialize_status_change deserialize_status_change
  by (unfold_locales; (rule deserialize_status_change_total)?)
    (auto simp: serialize_status_change_wf, simp_all add: serialize_status_change_def deserialize_status_change_def)

subsection \<open>Post-game options\<close>

definition serialize_post_game_options :: "PostGameOptionsPayload \<Rightarrow> nat \<Rightarrow> bytes result" where
  "serialize_post_game_options src dst_cap =
     (if dst_cap < 4 + 1 then Inl Minus1
      else let p = [];
               p = write_uint32 p (pg_game_id src);
               p = write_uint8 p (if pg_continue src \<noteq> 0 then 1 else 0)
           in Inr p)"

definition deserialize_post_game_options :: "bytes \<Rightarrow> PostGameOptionsPayload result option" where
  "deserialize_post_game_options src =
     (if length src \<noteq> 4 + 1 then Some (Inl Minus1)
      else do {
        (gid, p) \<leftarrow> read_uint32 src;
        (continue, p) \<leftarrow> read_map (\<lambda>b. if b \<noteq> 0 then 1 else 0) read_uint8 p;
        Some (Inr \<lparr>pg_game_id = gid, pg_continue = continue\<rparr>) })"

lemma deserialize_post_game_options_total:
  "length bs = 5 \<Longrightarrow> \<exists>x. deserialize_post_game_options bs = Some (Inr x) \<and> wf_PostGameOptionsPayload x"
  by (rule guarded_body [where des = deserialize_post_game_options, OF deserialize_post_game_options_def],
      (rule body_intros takes_intros)+) (auto simp: wf_payload_defs split: if_splits)

lemma serialize_post_game_options_wf:
  "wf_PostGameOptionsPayload x \<Longrightarrow> serialize_post_game_options x cap = Inr bs \<Longrightarrow>
   length bs = 5 \<and> deserialize_post_game_options bs = Some (Inr x)"
  by (auto simp: serialize_post_game_options_def deserialize_post_game_options_def wf_payload_defs write_defs
      codec_simps split: if_splits)

interpretation post_game_options_payload: codec wf_PostGameOptionsPayload 5 serialize_post_game_options deserialize_post_game_options
  by (unfold_locales; (rule deserialize_post_game_options_total)?)
    (auto simp: serialize_post_game_options_wf, simp_all add: serialize_post_game_options_def deserialize_post_game_options_def)

subsection \<open>Set username\<close>

definition serialize_set_username :: "SetUsernamePayload \<Rightarrow> nat \<Rightarrow> bytes result" where
  "serialize_set_username src dst_cap =
     (if dst_cap < 32 then Inl Minus1 else Inr (write_chars [] (su_username src) 32))"

definition deserialize_set_username :: "bytes \<Rightarrow> SetUsernamePayload result option" where
  "deserialize_set_username src =
     (if length src \<noteq> 32 then Some (Inl Minus1)
      else do {
        (name, p) \<leftarrow> read_chars 32 src;
        Some (Inr \<lparr>su_username = name\<rparr>) })"

lemma deserialize_set_username_total:
  "length bs = 32 \<Longrightarrow> \<exists>x. deserialize_set_username bs = Some (Inr x) \<and> wf_SetUsernamePayload x"
  by (rule guarded_body [where des = deserialize_set_username, OF deserialize_set_username_def],
      (rule body_intros takes_intros)+) (auto simp: wf_payload_defs)

lemma serialize_set_username_wf:
  "wf_SetUsernamePayload x \<Longrightarrow> serialize_set_username x cap = Inr bs \<Longrightarrow>
   length bs = 32 \<and> deserialize_set_username bs = Some (Inr x)"
  by (auto simp: serialize_set_username_def deserialize_set_username_def wf_payload_defs write_defs
      codec_simps split: if_splits)

interpretation set_username_payload: codec wf_SetUsernamePayload 32 serialize_set_username deserialize_set_username
  by (unfold_locales; (rule deserialize_set_username_total)?)
    (auto simp: serialize_set_username_wf, simp_all add: serialize_set_username_def deserialize_set_username_def)

end
