(* ===== verification/Protocol_Wire.thy ===== *)
theory Protocol_Wire
  imports Protocol_Codec
begin

text \<open>
  \<open>send_message\<close> and \<open>receive_message\<close> (lines 390 to 649 of \<open>common/src/protocol.c\<close>) and the
  16-byte header in front of every payload.

  The kernel's side of a socket is an explicit argument. For \<open>send\<close> it is the list of values
  that successive calls return: 0 or less is a failure, a positive one is the number of bytes
  taken (never more than asked for). For \<open>recv\<close> it is the list of what arrives: a \<open>Data\<close> segment
  of the byte stream, cut anywhere, the end of the stream or an error; a call takes at most what
  it asks for from the first segment and leaves the rest. When the list is used up the call
  blocks.
\<close>

section \<open>Payload selection\<close>

definition PROTOCOL_MAGIC :: u32 where
  "PROTOCOL_MAGIC = 0x54524953"

definition PROTOCOL_VERSION :: u32 where
  "PROTOCOL_VERSION = 1"

text \<open>The \<open>switch\<close> of \<open>send_message\<close>: the payload bytes, or -1 for an unknown type.\<close>

definition encode_payload :: "Message \<Rightarrow> nat \<Rightarrow> bytes result" where
  "encode_payload m cap =
     (case msg_type m of
        MSG_MOVE \<Rightarrow> serialize_move (payload_move (payload m)) cap
      | MSG_GAME_STATE \<Rightarrow> serialize_game_state (payload_game_state (payload m)) cap
      | MSG_ERROR \<Rightarrow> serialize_error (payload_error (payload m)) cap
      | MSG_GAME_LIST \<Rightarrow> serialize_game_list (payload_game_list (payload m)) cap
      | MSG_GAME_START \<Rightarrow> serialize_game_start (payload_game_start (payload m)) cap
      | MSG_GAME_OVER \<Rightarrow> serialize_game_over (payload_game_over (payload m)) cap
      | MSG_JOIN_REQUEST \<Rightarrow> serialize_join_request (payload_join_request (payload m)) cap
      | MSG_JOIN_DECISION \<Rightarrow> serialize_join_decision (payload_join_decision (payload m)) cap
      | MSG_LOBBY_UPDATE \<Rightarrow> serialize_lobby_update (payload_lobby_update (payload m)) cap
      | MSG_GAME_STATUS_CHANGE \<Rightarrow> serialize_status_change (payload_status_change (payload m)) cap
      | MSG_POST_GAME_OPTIONS \<Rightarrow> serialize_post_game_options (payload_post_game_options (payload m)) cap
      | MSG_SET_USERNAME \<Rightarrow> serialize_set_username (payload_set_username (payload m)) cap
      | MSG_JOIN_GAME \<Rightarrow> serialize_join_request (payload_join_request (payload m)) cap
      | MSG_CREATE_GAME \<Rightarrow> Inr []
      | MSG_LEAVE_GAME \<Rightarrow> Inr []
      | MSG_LIST_GAMES \<Rightarrow> Inr []
      | MSG_unnamed c \<Rightarrow> Inl Minus1)"

text \<open>The \<open>switch\<close> of \<open>receive_message\<close>; the caller cleared the union before the call.\<close>

definition decode_payload :: "MessageType \<Rightarrow> bytes \<Rightarrow> Payload result option" where
  "decode_payload t bs =
     (case t of
        MSG_MOVE \<Rightarrow> into Move (deserialize_move bs)
      | MSG_GAME_STATE \<Rightarrow> into Game_state (deserialize_game_state bs)
      | MSG_ERROR \<Rightarrow> into Error (deserialize_error bs)
      | MSG_GAME_LIST \<Rightarrow> into Game_list (deserialize_game_list bs)
      | MSG_GAME_START \<Rightarrow> into Game_start (deserialize_game_start bs)
      | MSG_GAME_OVER \<Rightarrow> into Game_over (deserialize_game_over bs)
      | MSG_JOIN_REQUEST \<Rightarrow> into Join_request (deserialize_join_request bs)
      | MSG_JOIN_DECISION \<Rightarrow> into Join_decision (deserialize_join_decision bs)
      | MSG_LOBBY_UPDATE \<Rightarrow> into Lobby_update (deserialize_lobby_update bs)
      | MSG_GAME_STATUS_CHANGE \<Rightarrow> into Status_change (deserialize_status_change bs)
      | MSG_POST_GAME_OPTIONS \<Rightarrow> into Post_game_options (deserialize_post_game_options bs)
      | MSG_SET_USERNAME \<Rightarrow> into Set_username (deserialize_set_username bs)
      | MSG_JOIN_GAME \<Rightarrow> into Join_request (deserialize_join_request bs)
      | MSG_CREATE_GAME \<Rightarrow> Some (if bs \<noteq> [] then Inl Minus1 else Inr Zeroed)
      | MSG_LEAVE_GAME \<Rightarrow> Some (if bs \<noteq> [] then Inl Minus1 else Inr Zeroed)
      | MSG_LIST_GAMES \<Rightarrow> Some (if bs \<noteq> [] then Inl Minus1 else Inr Zeroed)
      | MSG_unnamed c \<Rightarrow> Some (Inl Minus1))"

section \<open>Sending\<close>

definition header_bytes :: "MessageType \<Rightarrow> nat \<Rightarrow> bytes" where
  "header_bytes t len =
     be32 PROTOCOL_MAGIC @ be32 PROTOCOL_VERSION @ be32 (MessageType_code t) @ be32 (of_nat len)"

text \<open>
  One of the two \<open>send\<close> loops: the bytes put on the wire, the kernel results not yet used, and
  whether the loop sent everything. \<open>None\<close>: the call blocks.
\<close>

fun send_all :: "bytes \<Rightarrow> int list \<Rightarrow> (bytes \<times> int list \<times> bool) option" where
  "send_all [] rets = Some ([], rets, True)"
| "send_all (b # bs) [] = None"
| "send_all (b # bs) (n # rets) =
     (if n \<le> 0 then Some ([], rets, False)
      else do {
        (w, rets, ok) \<leftarrow> send_all (drop (nat n) (b # bs)) rets;
        Some (take (nat n) (b # bs) @ w, rets, ok) })"

definition send_message :: "Message \<Rightarrow> int list \<Rightarrow> (bytes \<times> int list \<times> unit result) option" where
  "send_message m rets =
     (case encode_payload m 1024 of
        Inl e \<Rightarrow> Some ([], rets, Inl e)
      | Inr pl \<Rightarrow> do {
          (w, rets, ok) \<leftarrow> send_all (header_bytes (msg_type m) (length pl)) rets;
          if \<not> ok then Some (w, rets, Inl Minus1)
          else if 0 < length pl then do {
            (w', rets, ok) \<leftarrow> send_all pl rets;
            Some (w @ w', rets, if ok then Inr () else Inl Minus1) }
          else Some (w, rets, Inr ()) })"

section \<open>Receiving\<close>

datatype recv_event = Data bytes | Closed | Failed

fun recv_all :: "nat \<Rightarrow> recv_event list \<Rightarrow> (bytes result \<times> recv_event list) option" where
  "recv_all n es =
     (if n = 0 then Some (Inr [], es)
      else case es of
        [] \<Rightarrow> None
      | Closed # es' \<Rightarrow> Some (Inl Minus1, es)
      | Failed # es' \<Rightarrow> Some (Inl Minus1, es')
      | Data bs # es' \<Rightarrow>
          if bs = [] then Some (Inl Minus1, es')
          else if n < length bs then Some (Inr (take n bs), Data (drop n bs) # es')
          else do {
            (r, es'') \<leftarrow> recv_all (n - length bs) es';
            Some (map_sum id ((@) bs) r, es'') })"

declare recv_all.simps [simp del]

datatype recv_outcome =
    Blocks
  | Out_of_bounds
  | Returns "Message result" "recv_event list"

definition receive_payload :: "MessageType \<Rightarrow> nat \<Rightarrow> recv_event list \<Rightarrow> recv_outcome" where
  "receive_payload t len es =
     (case recv_all len es of
        None \<Rightarrow> Blocks
      | Some (Inl e, es) \<Rightarrow> Returns (Inl e) es
      | Some (Inr pl, es) \<Rightarrow>
          (case decode_payload t pl of
             None \<Rightarrow> Out_of_bounds
           | Some (Inl e) \<Rightarrow> Returns (Inl e) es
           | Some (Inr p) \<Rightarrow> Returns (Inr \<lparr>msg_type = t, payload = p\<rparr>) es))"

definition read_header :: "bytes \<Rightarrow> ((u32 \<times> u32 \<times> u32 \<times> u32) \<times> bytes) option" where
  "read_header p = do {
     (magic, p) \<leftarrow> read_uint32 p;
     (version, p) \<leftarrow> read_uint32 p;
     (type, p) \<leftarrow> read_uint32 p;
     (len, p) \<leftarrow> read_uint32 p;
     Some ((magic, version, type, len), p) }"

definition receive_message :: "recv_event list \<Rightarrow> recv_outcome" where
  "receive_message es =
     (case recv_all 16 es of
        None \<Rightarrow> Blocks
      | Some (Inl e, es) \<Rightarrow> Returns (Inl e) es
      | Some (Inr hdr, es) \<Rightarrow>
          (case read_header hdr of
             None \<Rightarrow> Out_of_bounds
           | Some ((magic, version, type, len), _) \<Rightarrow>
               if magic \<noteq> PROTOCOL_MAGIC then Returns (Inl Minus1) es
               else if version \<noteq> PROTOCOL_VERSION then Returns (Inl Minus1) es
               else if len > 1024 then Returns (Inl Minus1) es
               else receive_payload (MessageType_of_code type) (unat len) es))"

section \<open>The loops\<close>

subsection \<open>Sending\<close>

lemma send_all_sent: "send_all bs rets = Some (w, rets', True) \<Longrightarrow> w = bs"
  by (induction bs rets arbitrary: w rets' rule: send_all.induct)
    (auto split: if_splits Option.bind_splits)

lemma send_all_prefix:
  "send_all bs rets = Some (w, rets', False) \<Longrightarrow> \<exists>v. v \<noteq> [] \<and> bs = w @ v"
proof (induction bs rets arbitrary: w rets' rule: send_all.induct)
  case (3 b bs n rets)
  show ?case
  proof (cases "n \<le> 0")
    case True
    with "3.prems" show ?thesis by simp
  next
    case False
    with "3.prems" obtain w' where w': "send_all (drop (nat n) (b # bs)) rets = Some (w', rets', False)"
      and w: "w = take (nat n) (b # bs) @ w'"
      by (auto split: Option.bind_splits)
    from "3.IH" [OF False w'] obtain v where "v \<noteq> []" "drop (nat n) (b # bs) = w' @ v" by blast
    with w have "b # bs = w @ v"
      by (metis append.assoc append_take_drop_id)
    with \<open>v \<noteq> []\<close> show ?thesis by blast
  qed
qed simp_all

lemma send_all_completes:
  "length bs \<le> length rets \<Longrightarrow> \<forall>n \<in> set rets. 0 < n \<Longrightarrow>
   \<exists>rets' used. send_all bs rets = Some (bs, rets', True) \<and> rets = used @ rets' \<and> length used \<le> length bs"
proof (induction bs rets rule: send_all.induct)
  case (3 b bs n rets)
  then have n: "0 < n" by simp
  have "length (drop (nat n) (b # bs)) \<le> length rets"
    using "3.prems"(1) n by simp
  with "3.IH" "3.prems"(2) n obtain rets' used where
    *: "send_all (drop (nat n) (b # bs)) rets = Some (drop (nat n) (b # bs), rets', True)"
      "rets = used @ rets'" "length used \<le> length (drop (nat n) (b # bs))"
    by (metis list.set_intros(2) linorder_not_le)
  have "send_all (b # bs) (n # rets) = Some (b # bs, rets', True)"
    using * n by simp
  moreover have "n # rets = (n # used) @ rets'" using * by simp
  moreover have "length (n # used) \<le> length (b # bs)"
    using *(3) n by (cases "nat n") auto
  ultimately show ?case by blast
qed auto

subsection \<open>Receiving\<close>

text \<open>The bytes a list of segments carries, in order.\<close>

fun stream :: "recv_event list \<Rightarrow> bytes" where
  "stream (Data bs # es) = bs @ stream es"
| "stream _ = []"

text \<open>Only segments, none of them empty: what a connection delivers before it ends.\<close>

definition segments :: "recv_event list \<Rightarrow> bool" where
  "segments es \<longleftrightarrow> (\<forall>e \<in> set es. \<exists>bs. e = Data bs \<and> bs \<noteq> [])"

lemma recv_all_0 [simp]: "recv_all 0 es = Some (Inr [], es)"
  by (simp add: recv_all.simps)

lemma recv_all_Nil [simp]: "n \<noteq> 0 \<Longrightarrow> recv_all n [] = None"
  by (simp add: recv_all.simps)

lemma recv_all_Closed [simp]: "n \<noteq> 0 \<Longrightarrow> recv_all n (Closed # es) = Some (Inl Minus1, Closed # es)"
  by (simp add: recv_all.simps)

lemma recv_all_Failed [simp]: "n \<noteq> 0 \<Longrightarrow> recv_all n (Failed # es) = Some (Inl Minus1, es)"
  by (simp add: recv_all.simps)

lemma recv_all_Data [simp]: "n \<noteq> 0 \<Longrightarrow> recv_all n (Data bs # es) =
   (if bs = [] then Some (Inl Minus1, es)
    else if n < length bs then Some (Inr (take n bs), Data (drop n bs) # es)
    else do { (r, es') \<leftarrow> recv_all (n - length bs) es; Some (map_sum id ((@) bs) r, es') })"
  by (subst recv_all.simps) simp

lemma recv_all_length: "recv_all n es = Some (Inr bs, es') \<Longrightarrow> length bs = n"
proof (induction n es arbitrary: bs es' rule: recv_all.induct)
  case (1 n es)
  show ?case
  proof (cases "n = 0")
    case True
    with "1.prems" show ?thesis by simp
  next
    case n: False
    with "1.prems" obtain bs1 es2 where es: "es = Data bs1 # es2" "bs1 \<noteq> []"
      by (cases es rule: stream.cases) (auto split: if_splits)
    show ?thesis
    proof (cases "n < length bs1")
      case True
      with "1.prems" n es show ?thesis by auto
    next
      case False
      with "1.prems" n es obtain r where r: "recv_all (n - length bs1) es2 = Some (Inr r, es')"
        and bs: "bs = bs1 @ r"
        by (auto split: Option.bind_splits elim!: map_sum_Inr)
      from "1.IH" [OF n es(1) refl es(2) False r] False bs show ?thesis by simp
    qed
  qed
qed

text \<open>
  However the stream is cut into segments, the loop returns the first \<open>n\<close> bytes of it and
  leaves the others.
\<close>

lemma recv_all_segments:
  assumes "segments es" "n \<le> length (stream es)"
  shows "\<exists>es'. recv_all n es = Some (Inr (take n (stream es)), es') \<and>
           segments es' \<and> stream es' = drop n (stream es)"
  using assms
proof (induction n es rule: recv_all.induct)
  case (1 n es)
  show ?case
  proof (cases "n = 0")
    case True
    with "1.prems" show ?thesis by simp
  next
    case n: False
    with "1.prems" obtain bs es2 where es: "es = Data bs # es2"
      by (cases es rule: stream.cases) auto
    from "1.prems" es have bs: "bs \<noteq> []" "segments es2"
      by (auto simp: segments_def)
    show ?thesis
    proof (cases "n < length bs")
      case True
      with n es bs show ?thesis
        by (auto simp: segments_def)
    next
      case False
      have "n - length bs \<le> length (stream es2)"
        using "1.prems" es by simp
      with "1.IH" [OF n es refl] bs False obtain es' where
        "recv_all (n - length bs) es2 = Some (Inr (take (n - length bs) (stream es2)), es')"
        "segments es'" "stream es' = drop (n - length bs) (stream es2)"
        by blast
      with n es bs False show ?thesis by auto
    qed
  qed
qed


section \<open>Payloads through the two switches\<close>

text \<open>The types whose messages carry a payload.\<close>

definition carries_payload :: "MessageType \<Rightarrow> bool" where
  "carries_payload t \<longleftrightarrow> t \<notin> {MSG_CREATE_GAME, MSG_LEAVE_GAME, MSG_LIST_GAMES}"

text \<open>
  What arrives of a message: the sender of a type without a payload does not transmit the union.
\<close>

definition delivered :: "Message \<Rightarrow> Message" where
  "delivered m = (if carries_payload (msg_type m) then m else m\<lparr>payload := Zeroed\<rparr>)"

lemmas through_union =
  game_state_payload.through_union error_payload.through_union game_list_payload.through_union
  game_start_payload.through_union game_over_payload.through_union
  join_request_payload.through_union join_decision_payload.through_union
  lobby_update_payload.through_union status_change_payload.through_union
  post_game_options_payload.through_union set_username_payload.through_union

lemmas into_in_bounds =
  move.into_in_bounds game_state_payload.into_in_bounds error_payload.into_in_bounds
  game_list_payload.into_in_bounds game_start_payload.into_in_bounds
  game_over_payload.into_in_bounds join_request_payload.into_in_bounds
  join_decision_payload.into_in_bounds lobby_update_payload.into_in_bounds
  status_change_payload.into_in_bounds post_game_options_payload.into_in_bounds
  set_username_payload.into_in_bounds

lemmas into_wf =
  move.into_wf game_state_payload.into_wf error_payload.into_wf game_list_payload.into_wf
  game_start_payload.into_wf game_over_payload.into_wf join_request_payload.into_wf
  join_decision_payload.into_wf lobby_update_payload.into_wf status_change_payload.into_wf
  post_game_options_payload.into_wf set_username_payload.into_wf

lemma encode_decode:
  assumes "wf_message m"
  shows "\<exists>bs. encode_payload m 1024 = Inr bs \<and> length bs \<le> 1024 \<and>
           decode_payload (msg_type m) bs = Some (Inr (payload (delivered m)))"
  using assms move.through_union [where C = Move]
  by (cases "msg_type m"; cases "payload m")
    (simp_all add: wf_message_def encode_payload_def decode_payload_def delivered_def
      carries_payload_def through_union)

lemma decode_in_bounds: "decode_payload t bs \<noteq> None"
  by (cases t) (simp_all add: decode_payload_def into_in_bounds del: not_None_eq)

lemma decode_wf:
  "decode_payload t bs = Some (Inr p) \<Longrightarrow> wf_message \<lparr>msg_type = t, payload = p\<rparr>"
  by (cases t) (auto simp: decode_payload_def wf_message_def split: if_splits dest!: into_wf)

section \<open>What is sent arrives\<close>

text \<open>The bytes of a message on the wire.\<close>

definition wire :: "Message \<Rightarrow> bytes" where
  "wire m =
     (case encode_payload m 1024 of
        Inl e \<Rightarrow> [] | Inr pl \<Rightarrow> header_bytes (msg_type m) (length pl) @ pl)"

lemma send_message_wire:
  "send_message m rets = Some (w, rets', Inr ()) \<Longrightarrow> w = wire m"
  by (auto simp: send_message_def wire_def split: sum.splits if_splits Option.bind_splits
      dest!: send_all_sent)

lemma length_header [simp]: "length (header_bytes t n) = 16"
  by (simp add: header_bytes_def)

lemma read_header_bytes [simp]: "read_header (header_bytes t n) =
   Some ((PROTOCOL_MAGIC, PROTOCOL_VERSION, MessageType_code t, of_nat n), [])"
proof -
  have "read_uint32 (be32 (of_nat n)) = Some (of_nat n, [])"
    using read_uint32_be32 [of "of_nat n" "[]"] by simp
  then show ?thesis
    by (simp add: read_header_def header_bytes_def)
qed

lemma MessageType_of_code_wf: "wf_message m \<Longrightarrow>
  MessageType_of_code (MessageType_code (msg_type m)) = msg_type m"
  by (rule MessageType_of_code_named)
    (auto simp: wf_message_def named_message_types_def split: MessageType.splits)

lemma receive_sent:
  assumes wf: "wf_message m" and seg: "segments es" and str: "stream es = wire m @ rest"
  shows "\<exists>es'. receive_message es = Returns (Inr (delivered m)) es' \<and> segments es' \<and> stream es' = rest"
proof -
  from encode_decode [OF wf] obtain pl where pl: "encode_payload m 1024 = Inr pl"
      "length pl \<le> 1024" "decode_payload (msg_type m) pl = Some (Inr (payload (delivered m)))"
    by blast
  let ?h = "header_bytes (msg_type m) (length pl)"
  have str: "stream es = ?h @ pl @ rest"
    using str pl(1) by (simp add: wire_def)
  with recv_all_segments [OF seg, of 16] obtain es1 where
    es1: "recv_all 16 es = Some (Inr ?h, es1)" "segments es1" "stream es1 = pl @ rest"
    by auto
  with recv_all_segments [OF es1(2), of "length pl"] obtain es2 where
    es2: "recv_all (length pl) es1 = Some (Inr pl, es2)" "segments es2" "stream es2 = rest"
    by auto
  have len: "unat (of_nat (length pl) :: u32) = length pl"
    using pl(2) by (simp add: unat_of_nat)
  then have small: "\<not> (1024 :: u32) < of_nat (length pl)"
    using pl(2) by (simp add: word_less_nat_alt)
  have msg: "\<lparr>msg_type = msg_type m, payload = payload (delivered m)\<rparr> = delivered m"
    by (simp add: delivered_def)
  have "receive_message es = receive_payload (msg_type m) (length pl) es1"
    using es1(1) small len MessageType_of_code_wf [OF wf] by (simp add: receive_message_def)
  also have "\<dots> = Returns (Inr (delivered m)) es2"
    using es2(1) pl(3) msg by (simp add: receive_payload_def)
  finally show ?thesis using es2 by blast
qed

subsection \<open>Segments followed by something else\<close>

lemma recv_all_more:
  assumes "recv_all n es = Some (Inr bs, es')"
  shows "recv_all n (es @ fs) = Some (Inr bs, es' @ fs)"
  using assms
proof (induction n es arbitrary: bs es' rule: recv_all.induct)
  case (1 n es)
  show ?case
  proof (cases "n = 0")
    case True
    with "1.prems" show ?thesis by simp
  next
    case n: False
    with "1.prems" obtain bs1 es2 where es: "es = Data bs1 # es2" "bs1 \<noteq> []"
      by (cases es rule: stream.cases) (auto split: if_splits)
    show ?thesis
    proof (cases "n < length bs1")
      case True
      with "1.prems" n es show ?thesis by auto
    next
      case False
      with "1.prems" n es obtain r where r: "recv_all (n - length bs1) es2 = Some (Inr r, es')"
        and bs: "bs = bs1 @ r"
        by (auto split: Option.bind_splits elim!: map_sum_Inr)
      from "1.IH" [OF n es(1) refl es(2) False r] n es False bs show ?thesis by simp
    qed
  qed
qed

lemma recv_all_cut:
  assumes "segments es" "length (stream es) < n"
  shows "\<exists>es'. recv_all n (es @ [Closed]) = Some (Inl Minus1, es')"
  using assms
proof (induction es arbitrary: n)
  case Nil
  then show ?case by simp
next
  case (Cons e es)
  then obtain bs where e: "e = Data bs" "bs \<noteq> []" by (auto simp: segments_def)
  have "\<exists>es'. recv_all (n - length bs) (es @ [Closed]) = Some (Inl Minus1, es')"
    using Cons e by (intro Cons.IH) (auto simp: segments_def)
  with Cons.prems e show ?case by auto
qed

section \<open>Several messages\<close>

text \<open>Receiving several messages one after the other.\<close>

fun receive_many :: "nat \<Rightarrow> recv_event list \<Rightarrow> (Message list \<times> recv_event list) option" where
  "receive_many 0 es = Some ([], es)"
| "receive_many (Suc k) es =
     (case receive_message es of
        Returns (Inr m) es' \<Rightarrow> do { (ms, es'') \<leftarrow> receive_many k es'; Some (m # ms, es'') }
      | _ \<Rightarrow> None)"

lemma read_header_16: "length bs = 16 \<Longrightarrow> read_header bs \<noteq> None"
proof -
  assume l: "length bs = 16"
  have r: "\<exists>x. read_uint32 p = Some (x, drop 4 p)" if "4 \<le> length p" for p
    using takesD [OF takes_uint32 that] by blast
  from r [of bs] r [of "drop 4 bs"] r [of "drop 8 bs"] r [of "drop 12 bs"] l
  obtain x y z w where "read_uint32 bs = Some (x, drop 4 bs)" "read_uint32 (drop 4 bs) = Some (y, drop 8 bs)"
    "read_uint32 (drop 8 bs) = Some (z, drop 12 bs)" "read_uint32 (drop 12 bs) = Some (w, drop 16 bs)"
    by auto
  then show ?thesis by (simp add: read_header_def)
qed

lemma never_None [simp]: "decode_payload t bs = None \<longleftrightarrow> False"
  using decode_in_bounds by blast

lemma receive_payload_cases:
  "receive_payload t n es \<noteq> Out_of_bounds"
  "receive_payload t n es = Returns (Inr m) es' \<Longrightarrow> wf_message m"
  by (auto simp: receive_payload_def split: option.splits sum.splits intro: decode_wf)

lemma send_message_completes:
  assumes "wf_message m" and "\<forall>n \<in> set rets. 0 < n" and "length (wire m) \<le> length rets"
  shows "\<exists>rets'. send_message m rets = Some (wire m, rets', Inr ())"
proof -
  from encode_decode [OF assms(1)] obtain pl where pl: "encode_payload m 1024 = Inr pl" by blast
  let ?h = "header_bytes (msg_type m) (length pl)"
  have w: "wire m = ?h @ pl" using pl by (simp add: wire_def)
  with assms send_all_completes [of ?h rets] obtain r1 used where
    r1: "send_all ?h rets = Some (?h, r1, True)" "rets = used @ r1" "length used \<le> 16" by auto
  then have "length pl \<le> length r1" using assms(3) w by simp
  with assms r1 send_all_completes [of pl r1] obtain r2 where "send_all pl r1 = Some (pl, r2, True)"
    by auto
  with pl r1 w show ?thesis by (auto simp: send_message_def)
qed

lemma wire_nonempty: "wf_message m \<Longrightarrow> wire m \<noteq> []"
  by (auto dest!: encode_decode simp: wire_def header_bytes_def be32_def)

section \<open>Properties of the wire\<close>

text \<open>The message of the witnesses: a move in game 7.\<close>

definition sample_move :: Message where
  "sample_move = \<lparr>msg_type = MSG_MOVE, payload = Move \<lparr>mv_game_id = 7, mv_row = 1, mv_col = 2\<rparr>\<rparr>"

lemma sample_move_wf: "wf_message sample_move"
  by (simp add: sample_move_def wf_message_def)

lemma sample_move_sent: "send_message sample_move [10, 6, 4, 2] = Some (wire sample_move, [], Inr ())"
  by code_simp

text \<open>C12. What is sent arrives: when \<open>send_message\<close> reports success for a well-formed message, the
  receiver returns this message, without its union for the three types that carry no payload, however
  the kernel cuts the bytes on either side; the bytes after it stay in the stream.\<close>

theorem send_receive_roundtrip:
  assumes "wf_message m" and "send_message m rets = Some (w, rets', Inr ())"
    and "segments es" and "stream es = w @ rest"
  shows "\<exists>es'. receive_message es = Returns (Inr (delivered m)) es' \<and> segments es' \<and> stream es' = rest"
  using receive_sent assms send_message_wire by metis

theorem send_receive_roundtrip_witness:
  "\<exists>es'. receive_message [Data (take 9 (wire sample_move)), Data (drop 9 (wire sample_move) @ [42])] =
     Returns (Inr sample_move) es' \<and> stream es' = [42]"
proof -
  let ?es = "[Data (take 9 (wire sample_move)), Data (drop 9 (wire sample_move) @ [42])]"
  have "wire sample_move \<noteq> []" by (rule wire_nonempty [OF sample_move_wf])
  then have "segments ?es" "stream ?es = wire sample_move @ [42]"
    by (auto simp: segments_def)
  with send_receive_roundtrip [OF sample_move_wf sample_move_sent] show ?thesis
    by (fastforce simp: delivered_def carries_payload_def sample_move_def)
qed

text \<open>Messages sent one after the other are received one after the other: the boundaries between
  them are found in the byte stream, wherever it is cut.\<close>

theorem stream_of_messages:
  assumes "\<forall>m \<in> set ms. wf_message m" and "segments es" and "stream es = concat (map wire ms) @ rest"
  shows "\<exists>es'. receive_many (length ms) es = Some (map delivered ms, es') \<and> stream es' = rest"
  using assms
proof (induction ms arbitrary: es)
  case (Cons m ms)
  with receive_sent [of m es "concat (map wire ms) @ rest"] obtain es1 where
    "receive_message es = Returns (Inr (delivered m)) es1" "segments es1"
    "stream es1 = concat (map wire ms) @ rest" by auto
  with Cons.IH [of es1] Cons.prems show ?case by auto
qed simp

theorem stream_of_messages_witness:
  "\<exists>es'. receive_many 2 [Data (wire sample_move @ wire sample_move)] =
     Some ([delivered sample_move, delivered sample_move], es')"
proof -
  have "segments [Data (wire sample_move @ wire sample_move)]"
    using wire_nonempty [OF sample_move_wf] by (simp add: segments_def)
  with stream_of_messages [of "[sample_move, sample_move]" "[Data (wire sample_move @ wire sample_move)]" "[]"]
  show ?thesis using sample_move_wf by (auto simp: numeral_2_eq_2)
qed

text \<open>C13. Whatever bytes a peer sends, \<open>receive_message\<close> never reads outside the header or the payload it
  has received.\<close>

theorem receive_never_out_of_bounds: "receive_message es \<noteq> Out_of_bounds"
proof (cases "recv_all 16 es")
  case (Some r)
  obtain x es1 where r: "r = (x, es1)" by (cases r)
  show ?thesis
  proof (cases x)
    case (Inr hdr)
    then have "read_header hdr \<noteq> None"
      using Some r by (auto dest!: recv_all_length read_header_16)
    then show ?thesis
      using Some r Inr by (auto simp: receive_message_def receive_payload_cases(1) split: if_splits)
  qed (use Some r in \<open>simp add: receive_message_def\<close>)
qed (simp add: receive_message_def)

text \<open>C14. A message that \<open>receive_message\<close> accepts is well-formed: the payload is the member its type
  selects, every array has its length, every enumeration a canonical value.\<close>

theorem received_well_formed: "receive_message es = Returns (Inr m) es' \<Longrightarrow> wf_message m"
  by (auto simp: receive_message_def split: option.splits sum.splits if_splits)
    (drule receive_payload_cases(2), assumption)

theorem received_well_formed_witness: "wf_message sample_move"
proof -
  have "receive_message [Data (wire sample_move)] = Returns (Inr sample_move) [Data []] \<or>
      receive_message [Data (wire sample_move)] = Returns (Inr sample_move) []"
    by code_simp
  then show ?thesis using received_well_formed by blast
qed

text \<open>A header with a wrong magic number, another version or a payload longer than 1024 bytes is
  rejected, and nothing after the header is read.\<close>

theorem bad_header_rejected:
  assumes "segments es" and "16 \<le> length (stream es)"
    and "read_header (take 16 (stream es)) = Some ((magic, version, type, len), [])"
    and "magic \<noteq> PROTOCOL_MAGIC \<or> version \<noteq> PROTOCOL_VERSION \<or> len > 1024"
  shows "\<exists>es'. receive_message es = Returns (Inl Minus1) es' \<and> stream es' = drop 16 (stream es)"
  using recv_all_segments [of es 16] assms by (auto simp: receive_message_def)

theorem bad_header_rejected_witness:
  "\<exists>es'. receive_message [Data (be32 PROTOCOL_MAGIC @ be32 2 @ be32 3 @ be32 6)] = Returns (Inl Minus1) es'"
proof -
  let ?h = "be32 PROTOCOL_MAGIC @ be32 2 @ be32 3 @ be32 6"
  have s: "segments [Data ?h]" "16 \<le> length (stream [Data ?h])" by (simp_all add: segments_def be32_def)
  have h: "read_header (take 16 (stream [Data ?h])) = Some ((PROTOCOL_MAGIC, 2, 3, 6), [])" by code_simp
  from bad_header_rejected [OF s h] show ?thesis by (auto simp: PROTOCOL_VERSION_def)
qed

text \<open>A message that is cut off by the end of the connection, at any byte of the header or the
  payload, is reported as a failure and never delivered.\<close>

theorem truncated_message_rejected:
  assumes wf: "wf_message m" and seg: "segments es"
    and cut: "stream es = take k (wire m)" "k < length (wire m)"
  shows "\<exists>es'. receive_message (es @ [Closed]) = Returns (Inl Minus1) es'"
proof (cases "k < 16")
  case True
  then have "length (stream es) < 16" by (simp add: cut)
  from recv_all_cut [OF seg this] show ?thesis by (auto simp: receive_message_def)
next
  case False
  from encode_decode [OF wf] obtain pl where pl: "encode_payload m 1024 = Inr pl" "length pl \<le> 1024"
    by blast
  let ?h = "header_bytes (msg_type m) (length pl)"
  have str: "stream es = ?h @ take (k - 16) pl" and k: "k - 16 < length pl"
    using cut pl False by (auto simp: wire_def)
  with recv_all_segments [OF seg, of 16] obtain es1 where
    es1: "recv_all 16 es = Some (Inr ?h, es1)" "segments es1" "stream es1 = take (k - 16) pl"
    by auto
  then have "length (stream es1) < length pl" using k by simp
  from recv_all_cut [OF es1(2) this] obtain es2 where
    es2: "recv_all (length pl) (es1 @ [Closed]) = Some (Inl Minus1, es2)" by blast
  have len: "unat (of_nat (length pl) :: u32) = length pl" "\<not> (1024 :: u32) < of_nat (length pl)"
    using pl(2) by (simp_all add: unat_of_nat word_less_nat_alt)
  show ?thesis
    using recv_all_more [OF es1(1), of "[Closed]"] es2 len
    by (simp add: receive_message_def receive_payload_def)
qed

theorem truncated_message_rejected_witness:
  "\<exists>es'. receive_message [Data (take 20 (wire sample_move)), Closed] = Returns (Inl Minus1) es'"
proof -
  have l: "length (wire sample_move) = 22" by code_simp
  then have "wire sample_move \<noteq> []" by auto
  then have "segments [Data (take 20 (wire sample_move))]" by (simp add: segments_def)
  from truncated_message_rejected [OF sample_move_wf this, of 20] l show ?thesis by simp
qed

text \<open>When \<open>send_message\<close> fails for a well-formed message, the peer has got a proper prefix of it and
  nothing else.\<close>

theorem failed_send_is_cut:
  assumes "wf_message m" and "send_message m rets = Some (w, rets', Inl e)"
  shows "\<exists>v. v \<noteq> [] \<and> wire m = w @ v"
proof -
  from encode_decode [OF assms(1)] obtain pl where pl: "encode_payload m 1024 = Inr pl" by blast
  let ?h = "header_bytes (msg_type m) (length pl)"
  from assms(2) pl obtain w1 r1 ok where s: "send_all ?h rets = Some (w1, r1, ok)"
    by (auto simp: send_message_def split: Option.bind_splits)
  show ?thesis
  proof (cases ok)
    case False
    with s obtain v where "v \<noteq> []" "?h = w1 @ v" by (auto dest: send_all_prefix)
    moreover have "w = w1" using assms(2) pl s False by (simp add: send_message_def)
    ultimately show ?thesis using pl by (auto simp: wire_def)
  next
    case True
    with s have w1: "w1 = ?h" by (auto dest: send_all_sent)
    from assms(2) pl s True obtain w2 r2 where "send_all pl r1 = Some (w2, r2, False)" "w = w1 @ w2"
      by (auto simp: send_message_def split: Option.bind_splits if_splits)
    with w1 pl show ?thesis by (auto simp: wire_def dest!: send_all_prefix)
  qed
qed

theorem failed_send_is_cut_witness:
  "\<exists>w v. send_message sample_move [10, -1] = Some (w, [], Inl Minus1) \<and> wire sample_move = w @ v \<and> v \<noteq> []"
proof -
  have "send_message sample_move [10, -1] = Some (take 10 (wire sample_move), [], Inl Minus1)" by code_simp
  with failed_send_is_cut [OF sample_move_wf this] show ?thesis by blast
qed

text \<open>As long as the kernel takes at least one byte per call, \<open>send_message\<close> writes a well-formed
  message to its last byte and reports success: at most one call per byte is needed.\<close>

theorem send_completes:
  assumes "wf_message m" and "\<forall>n \<in> set rets. 0 < n" and "length (wire m) \<le> length rets"
  shows "\<exists>rets'. send_message m rets = Some (wire m, rets', Inr ())"
  using send_message_completes assms .

theorem send_completes_witness:
  "\<exists>rets'. send_message sample_move (replicate 22 1) = Some (wire sample_move, rets', Inr ())"
proof -
  have "length (wire sample_move) = 22" by code_simp
  then show ?thesis using send_completes [OF sample_move_wf, of "replicate 22 1"] by simp
qed

end
