(* ===== verification/Queue.thy ===== *)
theory Queue
  imports Tris_Prelude
begin

text \<open>
  The blocking queue between the client's two threads (\<open>client/src/utils/queue.c\<close>): a ring buffer
  behind a mutex with two condition variables.

  \<^item> \<open>Queue\<close>: the fields of \<open>struct queue\<close> that carry data. The buffer keeps old pointers in the
    slots that are free; a fresh one holds whatever \<open>malloc\<close> left there.
  \<^item> \<open>attempt\<close>: what one look at the queue under the mutex leads to: the call goes to sleep on its
    condition variable, fails with -1, or succeeds. A thread that wakes up looks again.
  \<^item> The contract \<open>bounded_fifo\<close> is what the threads rely on; the ring buffer is shown to keep it.
  \<^item> \<open>qstep\<close> is the protocol of the sleeping and waking threads, for any number of them.
\<close>

section \<open>The code\<close>

record 'a Queue =
  buffer :: "'a list"
  capacity :: nat
  head :: nat
  tail :: nat
  cnt :: nat
  destroyed :: bool

datatype 'b attempt = Waits | Refused | Done 'b

text \<open>
  The five calls that can fail are \<open>malloc\<close> of the structure and of the buffer, and the
  initialisation of the mutex and of the two condition variables. \<open>fresh\<close> is the content of the
  new buffer.
\<close>

definition queue_create :: "nat \<Rightarrow> bool \<Rightarrow> bool \<Rightarrow> bool \<Rightarrow> bool \<Rightarrow> bool \<Rightarrow> 'a list \<Rightarrow> 'a Queue option" where
  "queue_create n malloc_q malloc_buffer lock_ok not_full_ok not_empty_ok fresh =
     (if n = 0 then None
      else if \<not> malloc_q then None
      else if \<not> malloc_buffer then None
      else if \<not> lock_ok then None
      else if \<not> not_full_ok then None
      else if \<not> not_empty_ok then None
      else Some \<lparr>buffer = fresh, capacity = n, head = 0, tail = 0, cnt = 0, destroyed = False\<rparr>)"

text \<open>The effect of \<open>queue_destroy\<close>; \<open>None\<close> is the failed assertion.\<close>

definition queue_destroy :: "'a Queue \<Rightarrow> 'a Queue option" where
  "queue_destroy q = (if cnt q = 0 then Some (q\<lparr>destroyed := True\<rparr>) else None)"

definition queue_push_locked :: "'a Queue \<Rightarrow> 'a \<Rightarrow> bool \<Rightarrow> 'a Queue attempt" where
  "queue_push_locked q data block =
     (if cnt q = capacity q \<and> \<not> destroyed q then (if \<not> block then Refused else Waits)
      else if destroyed q then Refused
      else Done (q\<lparr>buffer := (buffer q)[tail q := data], tail := (tail q + 1) mod capacity q,
                   cnt := cnt q + 1\<rparr>))"

definition queue_pop_locked :: "'a Queue \<Rightarrow> bool \<Rightarrow> ('a \<times> 'a Queue) attempt" where
  "queue_pop_locked q block =
     (if cnt q = 0 \<and> \<not> destroyed q then (if \<not> block then Refused else Waits)
      else if cnt q = 0 \<and> destroyed q then Refused
      else Done (buffer q ! head q, q\<lparr>head := (head q + 1) mod capacity q, cnt := cnt q - 1\<rparr>))"

definition queue_push :: "'a Queue \<Rightarrow> 'a \<Rightarrow> 'a Queue attempt" where
  "queue_push q data = queue_push_locked q data True"

definition queue_pop :: "'a Queue \<Rightarrow> ('a \<times> 'a Queue) attempt" where
  "queue_pop q = queue_pop_locked q True"

definition queue_try_push :: "'a Queue \<Rightarrow> 'a \<Rightarrow> 'a Queue attempt" where
  "queue_try_push q data = queue_push_locked q data False"

definition queue_try_pop :: "'a Queue \<Rightarrow> ('a \<times> 'a Queue) attempt" where
  "queue_try_pop q = queue_pop_locked q False"

definition queue_size :: "'a Queue \<Rightarrow> nat" where
  "queue_size q = cnt q"

definition queue_is_empty :: "'a Queue \<Rightarrow> bool" where
  "queue_is_empty q \<longleftrightarrow> cnt q = 0"

section \<open>The contract\<close>

text \<open>Popping until the store refuses, at most \<open>n\<close> times.\<close>

fun drain :: "('q \<Rightarrow> ('a \<times> 'q) attempt) \<Rightarrow> nat \<Rightarrow> 'q \<Rightarrow> 'a list \<times> 'q" where
  "drain pop 0 q = ([], q)"
| "drain pop (Suc n) q =
     (case pop q of Done (x, q') \<Rightarrow> (let (xs, q'') = drain pop n q' in (x # xs, q'')) | _ \<Rightarrow> ([], q))"

text \<open>
  Any interleaving of pushes and pops: \<open>Inl x\<close> pushes \<open>x\<close>, \<open>Inr ()\<close> pops. The run stops where an
  operation does not succeed; the second component is what the pops returned.
\<close>

fun interleave :: "('q \<Rightarrow> 'a \<Rightarrow> 'q attempt) \<Rightarrow> ('q \<Rightarrow> ('a \<times> 'q) attempt) \<Rightarrow> ('a + unit) list \<Rightarrow> 'q \<Rightarrow>
    'a list \<Rightarrow> ('q \<times> 'a list) option" where
  "interleave push pop [] q out = Some (q, out)"
| "interleave push pop (Inl x # evs) q out =
     (case push q x of Done q' \<Rightarrow> interleave push pop evs q' out | _ \<Rightarrow> None)"
| "interleave push pop (Inr u # evs) q out =
     (case pop q of Done (x, q') \<Rightarrow> interleave push pop evs q' (out @ [x]) | _ \<Rightarrow> None)"

text \<open>A bounded first-in first-out store that is open for use.\<close>

locale bounded_fifo =
  fixes push :: "'q \<Rightarrow> 'a \<Rightarrow> 'q attempt"
    and pop :: "'q \<Rightarrow> ('a \<times> 'q) attempt"
    and contents :: "'q \<Rightarrow> 'a list"
    and bound :: "'q \<Rightarrow> nat"
    and invar :: "'q \<Rightarrow> bool"
  assumes within: "invar q \<Longrightarrow> length (contents q) \<le> bound q"
    and push_room: "invar q \<Longrightarrow> length (contents q) < bound q \<Longrightarrow>
          \<exists>q'. push q x = Done q' \<and> contents q' = contents q @ [x] \<and> bound q' = bound q \<and> invar q'"
    and push_full: "invar q \<Longrightarrow> length (contents q) = bound q \<Longrightarrow> push q x = Refused"
    and pop_some: "invar q \<Longrightarrow> contents q = x # xs \<Longrightarrow>
          \<exists>q'. pop q = Done (x, q') \<and> contents q' = xs \<and> bound q' = bound q \<and> invar q'"
    and pop_empty: "invar q \<Longrightarrow> contents q = [] \<Longrightarrow> pop q = Refused"
begin

lemma drain_all:
  "invar q \<Longrightarrow> length (contents q) \<le> n \<Longrightarrow>
   \<exists>q'. drain pop n q = (contents q, q') \<and> contents q' = [] \<and> invar q'"
proof (induction n arbitrary: q)
  case 0
  then show ?case by simp
next
  case (Suc n)
  show ?case
  proof (cases "contents q")
    case Nil
    with Suc.prems pop_empty show ?thesis by simp
  next
    case (Cons x xs)
    with Suc.prems obtain q' where q': "pop q = Done (x, q')" "contents q' = xs" "invar q'"
      using pop_some by blast
    moreover have "length (contents q') \<le> n" using Cons q'(2) Suc.prems by simp
    ultimately obtain q'' where "drain pop n q' = (xs, q'')" "contents q'' = []" "invar q''"
      using Suc.IH [of q'] by auto
    with q' Cons show ?thesis by simp
  qed
qed

lemma push_cases:
  assumes "invar q" "push q x = Done q'"
  shows "contents q' = contents q @ [x]" "invar q'"
proof -
  have "length (contents q) < bound q"
    using within [OF assms(1)] push_full [OF assms(1), of x] assms(2)
    by (cases "length (contents q) = bound q") auto
  with push_room [OF assms(1), of x] assms(2) show "contents q' = contents q @ [x]" "invar q'" by auto
qed

lemma pop_cases:
  assumes "invar q" "pop q = Done (x, q')"
  shows "contents q = x # contents q'" "invar q'"
proof -
  obtain y ys where "contents q = y # ys"
    using pop_empty [OF assms(1)] assms(2) by (cases "contents q") auto
  with pop_some [OF assms(1)] assms(2) show "contents q = x # contents q'" "invar q'" by auto
qed

lemma interleave_order:
  "invar q \<Longrightarrow> interleave push pop evs q out = Some (q', out') \<Longrightarrow>
   out' @ contents q' = out @ contents q @ [x. Inl x \<leftarrow> evs] \<and> invar q'"
proof (induction evs arbitrary: q out)
  case (Cons e evs)
  show ?case
  proof (cases e)
    case (Inl x)
    with Cons.prems obtain q1 where q1: "push q x = Done q1" "interleave push pop evs q1 out = Some (q', out')"
      by (auto split: attempt.splits)
    from push_cases [OF Cons.prems(1) q1(1)] Cons.IH [of q1 out] q1(2) Inl show ?thesis by simp
  next
    case (Inr u)
    with Cons.prems obtain x q1 where q1: "pop q = Done (x, q1)" "interleave push pop evs q1 (out @ [x]) = Some (q', out')"
      by (auto split: attempt.splits)
    from pop_cases [OF Cons.prems(1) q1(1)] Cons.IH [of q1 "out @ [x]"] q1(2) Inr show ?thesis by simp
  qed
qed simp

end

section \<open>The ring buffer keeps the contract\<close>

definition queue_contents :: "'a Queue \<Rightarrow> 'a list" where
  "queue_contents q = map (\<lambda>i. buffer q ! ((head q + i) mod capacity q)) [0..<cnt q]"

definition queue_inv :: "'a Queue \<Rightarrow> bool" where
  "queue_inv q \<longleftrightarrow>
     0 < capacity q \<and> length (buffer q) = capacity q \<and> head q < capacity q \<and> cnt q \<le> capacity q \<and>
     tail q = (head q + cnt q) mod capacity q"

definition queue_open :: "'a Queue \<Rightarrow> bool" where
  "queue_open q \<longleftrightarrow> queue_inv q \<and> \<not> destroyed q"

lemma queue_contents_length [simp]: "length (queue_contents q) = cnt q"
  by (simp add: queue_contents_def)

lemma create_inv:
  "length fresh = n \<Longrightarrow> queue_create n a b c d e fresh = Some q \<Longrightarrow>
   queue_open q \<and> queue_contents q = [] \<and> capacity q = n"
  by (auto simp: queue_create_def queue_open_def queue_inv_def queue_contents_def split: if_splits)

lemma slot_free:
  assumes "i < (n::nat)" "n < m"
  shows "(h + i) mod m \<noteq> (h + n) mod m"
proof
  assume "(h + i) mod m = (h + n) mod m"
  then have "m dvd (h + n) - (h + i)"
    using assms mod_eq_dvd_iff_nat [of "h + i" "h + n" m] by (simp add: eq_commute)
  then have "m dvd n - i" by simp
  with assms show False by (auto dest: dvd_imp_le)
qed

lemma push_contents:
  assumes "queue_inv q" "cnt q < capacity q"
  shows "queue_contents (q\<lparr>buffer := (buffer q)[tail q := x], tail := (tail q + 1) mod capacity q,
      cnt := cnt q + 1\<rparr>) = queue_contents q @ [x]"
proof -
  have "(buffer q)[tail q := x] ! ((head q + i) mod capacity q) = buffer q ! ((head q + i) mod capacity q)"
    if "i < cnt q" for i
    using slot_free [OF that assms(2), of "head q"] assms by (simp add: queue_inv_def)
  moreover have "(buffer q)[tail q := x] ! ((head q + cnt q) mod capacity q) = x"
    using assms by (simp add: queue_inv_def)
  ultimately show ?thesis by (simp add: queue_contents_def)
qed

lemma push_inv:
  assumes "queue_inv q" "cnt q < capacity q"
  shows "queue_inv (q\<lparr>buffer := (buffer q)[tail q := x], tail := (tail q + 1) mod capacity q,
      cnt := cnt q + 1\<rparr>)"
  using assms by (simp add: queue_inv_def mod_Suc_eq)

lemma pop_contents:
  assumes "queue_inv q" "0 < cnt q"
  shows "queue_contents q = buffer q ! head q # queue_contents (q\<lparr>head := (head q + 1) mod capacity q, cnt := cnt q - 1\<rparr>)"
proof -
  obtain k where k: "cnt q = Suc k" using assms(2) by (cases "cnt q") auto
  have "[0..<Suc k] = 0 # map Suc [0..<k]" by (simp add: map_Suc_upt upt_conv_Cons del: upt_Suc)
  moreover have "(Suc (head q) mod capacity q + i) mod capacity q = (head q + Suc i) mod capacity q" for i
    by (simp add: mod_add_left_eq)
  ultimately show ?thesis
    using assms k by (simp add: queue_contents_def queue_inv_def del: upt_Suc)
qed

lemma pop_inv:
  assumes "queue_inv q" "0 < cnt q"
  shows "queue_inv (q\<lparr>head := (head q + 1) mod capacity q, cnt := cnt q - 1\<rparr>)"
proof -
  obtain k where "cnt q = Suc k" using assms(2) by (cases "cnt q") auto
  with assms show ?thesis by (simp add: queue_inv_def mod_add_left_eq)
qed

lemma contents_Nil: "queue_contents q = [] \<longleftrightarrow> cnt q = 0"
  by (metis length_0_conv queue_contents_length)

interpretation ring: bounded_fifo queue_try_push queue_try_pop queue_contents capacity queue_open
proof unfold_locales
  fix q :: "'a Queue" and x :: 'a and xs :: "'a list"
  show "queue_open q \<Longrightarrow> length (queue_contents q) \<le> capacity q"
    by (simp add: queue_open_def queue_inv_def)
  show "queue_open q \<Longrightarrow> length (queue_contents q) < capacity q \<Longrightarrow>
      \<exists>q'. queue_try_push q x = Done q' \<and> queue_contents q' = queue_contents q @ [x] \<and>
           capacity q' = capacity q \<and> queue_open q'"
    using push_contents [of q x] push_inv [of q x]
    by (auto simp: queue_try_push_def queue_push_locked_def queue_open_def)
  show "queue_open q \<Longrightarrow> length (queue_contents q) = capacity q \<Longrightarrow> queue_try_push q x = Refused"
    by (simp add: queue_try_push_def queue_push_locked_def queue_open_def)
  show "queue_open q \<Longrightarrow> queue_contents q = x # xs \<Longrightarrow>
      \<exists>q'. queue_try_pop q = Done (x, q') \<and> queue_contents q' = xs \<and> capacity q' = capacity q \<and> queue_open q'"
  proof -
    assume o: "queue_open q" and c: "queue_contents q = x # xs"
    then have n: "0 < cnt q" using contents_Nil [of q] by auto
    with o c pop_contents [of q] pop_inv [of q] show ?thesis
      by (auto simp: queue_try_pop_def queue_pop_locked_def queue_open_def)
  qed
  show "queue_open q \<Longrightarrow> queue_contents q = [] \<Longrightarrow> queue_try_pop q = Refused"
    by (simp add: contents_Nil queue_try_pop_def queue_pop_locked_def queue_open_def)
qed

text \<open>The blocking calls do the same, and sleep where the others give up.\<close>

lemma blocking_calls:
  assumes "queue_open q"
  shows "queue_push q x = (case queue_try_push q x of Refused \<Rightarrow> Waits | r \<Rightarrow> r)"
    and "queue_pop q = (case queue_try_pop q of Refused \<Rightarrow> Waits | r \<Rightarrow> r)"
  using assms
  by (auto simp: queue_open_def queue_push_def queue_try_push_def queue_push_locked_def
      queue_pop_def queue_try_pop_def queue_pop_locked_def)

section \<open>Threads that sleep and wake\<close>

text \<open>
  Any number of threads share the queue. \<open>asleep_full\<close> threads sleep on \<open>not_full\<close>, \<open>awake_full\<close>
  were woken there and have not yet looked at the queue again; likewise for \<open>not_empty\<close>. The ghost
  fields record what \<open>queue_push\<close> took and what \<open>queue_pop\<close> gave, in order. A look at the queue
  happens under the mutex and is one step. Which element a woken thread brings along is left open.
\<close>

record 'a Threads =
  the_queue :: "'a Queue"
  asleep_full :: nat
  awake_full :: nat
  asleep_empty :: nat
  awake_empty :: nat
  taken :: "'a list"
  given :: "'a list"

text \<open>\<open>pthread_cond_signal\<close>: a thread that sleeps there wakes up, if there is one.\<close>

definition signal_not_empty :: "'a Threads \<Rightarrow> 'a Threads" where
  "signal_not_empty s =
     (if asleep_empty s = 0 then s
      else s\<lparr>asleep_empty := asleep_empty s - 1, awake_empty := awake_empty s + 1\<rparr>)"

definition signal_not_full :: "'a Threads \<Rightarrow> 'a Threads" where
  "signal_not_full s =
     (if asleep_full s = 0 then s
      else s\<lparr>asleep_full := asleep_full s - 1, awake_full := awake_full s + 1\<rparr>)"

text \<open>One look at the queue in \<open>queue_push_locked\<close> and \<open>queue_pop_locked\<close>.\<close>

definition look_push :: "bool \<Rightarrow> 'a \<Rightarrow> 'a Threads \<Rightarrow> 'a Threads" where
  "look_push block x s =
     (case queue_push_locked (the_queue s) x block of
        Waits \<Rightarrow> s\<lparr>asleep_full := asleep_full s + 1\<rparr>
      | Refused \<Rightarrow> s
      | Done q \<Rightarrow> signal_not_empty (s\<lparr>the_queue := q, taken := taken s @ [x]\<rparr>))"

definition look_pop :: "bool \<Rightarrow> 'a Threads \<Rightarrow> 'a Threads" where
  "look_pop block s =
     (case queue_pop_locked (the_queue s) block of
        Waits \<Rightarrow> s\<lparr>asleep_empty := asleep_empty s + 1\<rparr>
      | Refused \<Rightarrow> s
      | Done (x, q) \<Rightarrow> signal_not_full (s\<lparr>the_queue := q, given := given s @ [x]\<rparr>))"

text \<open>
  The steps: a thread enters a call, a thread that was woken looks again, and a thread wakes up
  without a signal, which POSIX allows.
\<close>

inductive qstep :: "'a Threads \<Rightarrow> 'a Threads \<Rightarrow> bool" where
  enter_push: "qstep s (look_push block x s)"
| enter_pop: "qstep s (look_pop block s)"
| again_push: "0 < awake_full s \<Longrightarrow> qstep s (look_push True x (s\<lparr>awake_full := awake_full s - 1\<rparr>))"
| again_pop: "0 < awake_empty s \<Longrightarrow> qstep s (look_pop True (s\<lparr>awake_empty := awake_empty s - 1\<rparr>))"
| wake_full: "0 < asleep_full s \<Longrightarrow>
    qstep s (s\<lparr>asleep_full := asleep_full s - 1, awake_full := awake_full s + 1\<rparr>)"
| wake_empty: "0 < asleep_empty s \<Longrightarrow>
    qstep s (s\<lparr>asleep_empty := asleep_empty s - 1, awake_empty := awake_empty s + 1\<rparr>)"

definition threads_start :: "'a Queue \<Rightarrow> 'a Threads" where
  "threads_start q = \<lparr>the_queue = q, asleep_full = 0, awake_full = 0, asleep_empty = 0, awake_empty = 0,
     taken = [], given = []\<rparr>"

text \<open>
  The invariant: while a thread sleeps for room, every free slot has a thread that was woken for
  it and has not looked yet, and likewise for elements.
\<close>

definition threads_inv :: "'a Threads \<Rightarrow> bool" where
  "threads_inv s \<longleftrightarrow>
     queue_open (the_queue s) \<and> given s @ queue_contents (the_queue s) = taken s \<and>
     (0 < asleep_full s \<longrightarrow> capacity (the_queue s) - cnt (the_queue s) \<le> awake_full s) \<and>
     (0 < asleep_empty s \<longrightarrow> cnt (the_queue s) \<le> awake_empty s)"

text \<open>The same, for a state where one woken thread is about to look.\<close>

definition looking_full :: "'a Threads \<Rightarrow> bool" where
  "looking_full s \<longleftrightarrow>
     queue_open (the_queue s) \<and> given s @ queue_contents (the_queue s) = taken s \<and>
     (0 < asleep_full s \<longrightarrow> capacity (the_queue s) - cnt (the_queue s) \<le> awake_full s + 1) \<and>
     (0 < asleep_empty s \<longrightarrow> cnt (the_queue s) \<le> awake_empty s)"

definition looking_empty :: "'a Threads \<Rightarrow> bool" where
  "looking_empty s \<longleftrightarrow>
     queue_open (the_queue s) \<and> given s @ queue_contents (the_queue s) = taken s \<and>
     (0 < asleep_full s \<longrightarrow> capacity (the_queue s) - cnt (the_queue s) \<le> awake_full s) \<and>
     (0 < asleep_empty s \<longrightarrow> cnt (the_queue s) \<le> awake_empty s + 1)"

lemmas looking_defs = threads_inv_def looking_full_def looking_empty_def

lemma locked_cases:
  assumes "queue_open q"
  shows "queue_push_locked q x block =
      (if cnt q = capacity q then if block then Waits else Refused else queue_try_push q x)"
    and "queue_pop_locked q block =
      (if cnt q = 0 then if block then Waits else Refused else queue_try_pop q)"
  using assms by (auto simp: queue_open_def queue_try_push_def queue_push_locked_def
      queue_try_pop_def queue_pop_locked_def)

lemma push_done:
  assumes "queue_open q" "cnt q \<noteq> capacity q"
  obtains q' where "queue_try_push q x = Done q'" "queue_contents q' = queue_contents q @ [x]"
    "capacity q' = capacity q" "queue_open q'" "cnt q' = Suc (cnt q)"
proof -
  have "length (queue_contents q) < capacity q"
    using ring.within [OF assms(1)] assms(2) by simp
  from ring.push_room [OF assms(1) this, of x] show thesis
    using that by (metis length_append_singleton queue_contents_length)
qed

lemma pop_done:
  assumes "queue_open q" "cnt q \<noteq> 0"
  obtains x q' where "queue_try_pop q = Done (x, q')" "queue_contents q = x # queue_contents q'"
    "capacity q' = capacity q" "queue_open q'" "cnt q = Suc (cnt q')"
proof -
  obtain x xs where c: "queue_contents q = x # xs" using assms(2) contents_Nil [of q] by (cases "queue_contents q") auto
  from ring.pop_some [OF assms(1) c] show thesis
    using that c by (metis length_Cons queue_contents_length)
qed

lemma inv_look_push:
  assumes "looking_full s"
  shows "threads_inv (look_push True x s)"
proof (cases "cnt (the_queue s) = capacity (the_queue s)")
  case True
  with assms show ?thesis by (simp add: looking_defs look_push_def locked_cases)
next
  case False
  have o: "queue_open (the_queue s)" using assms by (simp add: looking_defs)
  obtain q' where "queue_try_push (the_queue s) x = Done q'"
    "queue_contents q' = queue_contents (the_queue s) @ [x]"
    "capacity q' = capacity (the_queue s)" "queue_open q'" "cnt q' = Suc (cnt (the_queue s))"
    by (rule push_done [OF o False])
  with assms False o show ?thesis
    by (auto simp: looking_defs look_push_def locked_cases signal_not_empty_def simp flip: append_assoc)
qed

lemma inv_look_pop:
  assumes "looking_empty s"
  shows "threads_inv (look_pop True s)"
proof (cases "cnt (the_queue s) = 0")
  case True
  with assms show ?thesis by (simp add: looking_defs look_pop_def locked_cases)
next
  case False
  have o: "queue_open (the_queue s)" using assms by (simp add: looking_defs)
  obtain x q' where "queue_try_pop (the_queue s) = Done (x, q')"
    "queue_contents (the_queue s) = x # queue_contents q'"
    "capacity q' = capacity (the_queue s)" "queue_open q'" "cnt (the_queue s) = Suc (cnt q')"
    by (rule pop_done [OF o False])
  with assms False o show ?thesis
    by (auto simp: looking_defs look_pop_def locked_cases signal_not_full_def)
qed

lemma look_no_block:
  assumes "queue_open (the_queue s)"
  shows "look_push False x s = s \<or> look_push False x s = look_push True x s"
    and "look_pop False s = s \<or> look_pop False s = look_pop True s"
  using assms by (auto simp: look_push_def look_pop_def locked_cases)

lemma inv_qstep:
  assumes "qstep s s'" "threads_inv s"
  shows "threads_inv s'"
  using assms
proof cases
  case (enter_push block x)
  have "looking_full s" using assms(2) by (auto simp: looking_defs)
  with inv_look_push [of s x] look_no_block(1) [of s x] assms(2) enter_push show ?thesis
    by (cases block) (auto simp: threads_inv_def)
next
  case (enter_pop block)
  have "looking_empty s" using assms(2) by (auto simp: looking_defs)
  with inv_look_pop [of s] look_no_block(2) [of s] assms(2) enter_pop show ?thesis
    by (cases block) (auto simp: threads_inv_def)
next
  case (again_push x)
  with assms(2) have "looking_full (s\<lparr>awake_full := awake_full s - 1\<rparr>)" by (auto simp: looking_defs)
  with again_push show ?thesis by (simp add: inv_look_push)
next
  case again_pop
  with assms(2) have "looking_empty (s\<lparr>awake_empty := awake_empty s - 1\<rparr>)" by (auto simp: looking_defs)
  with again_pop show ?thesis by (simp add: inv_look_pop)
qed (use assms(2) in \<open>auto simp: threads_inv_def\<close>)

lemma inv_threads_start: "queue_open q \<Longrightarrow> queue_contents q = [] \<Longrightarrow> threads_inv (threads_start q)"
  by (simp add: threads_inv_def threads_start_def)

lemma inv_reachable: "qstep\<^sup>*\<^sup>* s s' \<Longrightarrow> threads_inv s \<Longrightarrow> threads_inv s'"
  by (induction rule: rtranclp_induct) (auto intro: inv_qstep)

lemma capacity_look:
  "capacity (the_queue (look_push block x s)) = capacity (the_queue s)"
  "capacity (the_queue (look_pop block s)) = capacity (the_queue s)"
  by (simp_all add: look_push_def look_pop_def queue_push_locked_def queue_pop_locked_def
      signal_not_empty_def signal_not_full_def)

lemma capacity_reachable: "qstep\<^sup>*\<^sup>* s s' \<Longrightarrow> capacity (the_queue s') = capacity (the_queue s)"
  by (induction rule: rtranclp_induct) (auto elim!: qstep.cases simp: capacity_look)

lemma threads_reachable:
  assumes "queue_create n a b c d e fresh = Some q" "length fresh = n" "qstep\<^sup>*\<^sup>* (threads_start q) s"
  shows "threads_inv s" "capacity (the_queue s) = n"
  using create_inv [OF assms(2,1)] inv_reachable [OF assms(3) inv_threads_start] capacity_reachable [OF assms(3)]
  by (simp_all add: threads_start_def)

section \<open>Properties\<close>

text \<open>C26. First in, first out, for any number of threads: after any interleaving of their looks at a
  fresh queue, with any sleeping and waking in between, what the pops gave out followed by what the
  queue holds is exactly what the pushes took, in the same order, and never more than the capacity
  is held. Nothing is lost, duplicated or reordered.\<close>

theorem threads_fifo:
  assumes "queue_create n a b c d e fresh = Some q" and "length fresh = n"
    and "qstep\<^sup>*\<^sup>* (threads_start q) s"
  shows "given s @ queue_contents (the_queue s) = taken s \<and> queue_size (the_queue s) \<le> n"
  using threads_reachable [OF assms] by (simp add: threads_inv_def queue_open_def queue_inv_def queue_size_def)

text \<open>A queue for two elements: three threads push, the third sleeps; a pop wakes it.\<close>

definition two_slots :: "nat Queue" where
  "two_slots = \<lparr>buffer = [0, 0], capacity = 2, head = 0, tail = 0, cnt = 0, destroyed = False\<rparr>"

lemma two_slots_run:
  "qstep\<^sup>*\<^sup>* (threads_start two_slots) (look_push True 3 (look_push True 2 (look_push True 1 (threads_start two_slots))))"
  "qstep\<^sup>*\<^sup>* (threads_start two_slots)
     (look_pop True (look_push True 3 (look_push True 2 (look_push True 1 (threads_start two_slots)))))"
  by (meson qstep.intros rtranclp.intros)+

lemma two_slots_created: "queue_create 2 True True True True True [0, 0] = Some two_slots"
  by (simp add: queue_create_def two_slots_def)

theorem threads_fifo_witness:
  "let s = look_pop True (look_push True 3 (look_push True 2 (look_push True 1 (threads_start two_slots))))
   in given s @ queue_contents (the_queue s) = taken s \<and> given s = [1] \<and> taken s = [1, 2] \<and> awake_full s = 1"
proof -
  let ?s = "look_pop True (look_push True 3 (look_push True 2 (look_push True 1 (threads_start two_slots))))"
  have "given ?s = [1]" "taken ?s = [1, 2]" "awake_full ?s = 1" by code_simp+
  with threads_fifo [OF two_slots_created _ two_slots_run(2)] show ?thesis by (simp add: Let_def)
qed

text \<open>C27. No wake-up is lost. In every reachable state, threads that sleep for room while nobody was
  woken for it only occur when the queue is full, and threads that sleep for an element only when
  it is empty; so it never happens that all threads sleep on both sides.\<close>

theorem no_lost_wakeup:
  assumes "queue_create n a b c d e fresh = Some q" and "length fresh = n"
    and "qstep\<^sup>*\<^sup>* (threads_start q) s"
  shows "(0 < asleep_full s \<and> awake_full s = 0 \<longrightarrow> queue_size (the_queue s) = n) \<and>
    (0 < asleep_empty s \<and> awake_empty s = 0 \<longrightarrow> queue_is_empty (the_queue s)) \<and>
    \<not> (0 < asleep_full s \<and> awake_full s = 0 \<and> 0 < asleep_empty s \<and> awake_empty s = 0)"
proof -
  have "0 < n" using assms(1) by (auto simp: queue_create_def split: if_splits)
  with threads_reachable [OF assms] show ?thesis
    by (auto simp: threads_inv_def queue_open_def queue_inv_def queue_size_def queue_is_empty_def)
qed

theorem no_lost_wakeup_witness:
  "let s = look_push True 3 (look_push True 2 (look_push True 1 (threads_start two_slots)))
   in asleep_full s = 1 \<and> awake_full s = 0 \<and> queue_size (the_queue s) = 2"
proof -
  let ?s = "look_push True 3 (look_push True 2 (look_push True 1 (threads_start two_slots)))"
  have "asleep_full ?s = 1" "awake_full ?s = 0" by code_simp+
  with no_lost_wakeup [OF two_slots_created _ two_slots_run(1)] show ?thesis by (simp add: Let_def)
qed

end
