(* ===== verification/Network.thy ===== *)
theory Network
  imports Protocol_Wire Queue
begin

text \<open>
  The network thread of the client (\<open>client/src/network/network.c\<close>) and the events it produces
  (\<open>client/include/ui/ui_events.h\<close>).

  \<^item> \<open>Net\<close> is \<open>struct network_ctx\<close> together with the state of the thread: where it is (\<open>pc\<close>), its
    local \<open>fd\<close>, the events it pushed to the user interface, the bytes it wrote, what the kernel
    still has in store for its \<open>recv\<close> calls, and the descriptors it closed. \<open>commands\<close>, \<open>sent_cmds\<close>
    and \<open>received\<close> are ghosts for the properties.
  \<^item> The queue from the user interface is the ring buffer of \<open>Queue\<close>; the user interface may push
    into it, and call \<open>network_stop\<close>, between any two steps of the thread. A push towards the user
    interface blocks until there is room; the thread is its only producer, so the list of its
    pushes is the order in the queue.
  \<^item> \<open>Heap\<close> answers the \<open>malloc\<close> calls of a step and gives the bytes a fresh block holds. What
    \<open>socket\<close>, \<open>inet_pton\<close>, \<open>connect\<close>, \<open>poll\<close>, \<open>send\<close> and \<open>recv\<close> answer are arguments.
\<close>

section \<open>Events\<close>

datatype UIEvent =
    UI_EVENT_GAME_STATE GameStatePayload
  | UI_EVENT_GAME_START GameStartPayload
  | UI_EVENT_GAME_OVER GameOverPayload
  | UI_EVENT_LOBBY_UPDATE LobbyUpdatePayload
  | UI_EVENT_ERROR ErrorPayload
  | UI_EVENT_JOIN_REQUEST JoinRequestPayload
  | UI_EVENT_JOIN_DECISION JoinDecisionPayload
  | UI_EVENT_POST_GAME_OPTIONS PostGameOptionsPayload
  | UI_EVENT_DISCONNECTED
  | UI_EVENT_GAME_STATUS_CHANGE GameStatusChangePayload

definition message_to_event :: "bool \<Rightarrow> Message \<Rightarrow> UIEvent option" where
  "message_to_event malloc_ok msg =
     (if \<not> malloc_ok then None
      else case msg_type msg of
        MSG_GAME_STATE \<Rightarrow> Some (UI_EVENT_GAME_STATE (payload_game_state (payload msg)))
      | MSG_GAME_START \<Rightarrow> Some (UI_EVENT_GAME_START (payload_game_start (payload msg)))
      | MSG_GAME_STATUS_CHANGE \<Rightarrow> Some (UI_EVENT_GAME_STATUS_CHANGE (payload_status_change (payload msg)))
      | MSG_GAME_OVER \<Rightarrow> Some (UI_EVENT_GAME_OVER (payload_game_over (payload msg)))
      | MSG_LOBBY_UPDATE \<Rightarrow> Some (UI_EVENT_LOBBY_UPDATE (payload_lobby_update (payload msg)))
      | MSG_ERROR \<Rightarrow> Some (UI_EVENT_ERROR (payload_error (payload msg)))
      | MSG_JOIN_REQUEST \<Rightarrow> Some (UI_EVENT_JOIN_REQUEST (payload_join_request (payload msg)))
      | MSG_JOIN_DECISION \<Rightarrow> Some (UI_EVENT_JOIN_DECISION (payload_join_decision (payload msg)))
      | MSG_POST_GAME_OPTIONS \<Rightarrow> Some (UI_EVENT_POST_GAME_OPTIONS (payload_post_game_options (payload msg)))
      | _ \<Rightarrow> None)"

section \<open>State\<close>

record Heap =
  alloc :: bool
  alloc_again :: bool
  junk :: string

datatype net_pc = At_start | At_loop | At_send | At_poll | At_end | Finished

record Net =
  pc :: net_pc
  fd :: int
  sock :: int
  running :: bool
  ctx_username :: string
  ctx_ip :: string
  ctx_port :: int
  from_ui :: "Message Queue"
  to_ui :: "UIEvent list"
  written :: bytes
  incoming :: "recv_event list"
  closed :: "int list"
  commands :: "Message list"
  sent_cmds :: "Message list"
  received :: "Message list"

section \<open>The interface of the module\<close>

text \<open>
  A null pointer is \<open>None\<close>. \<open>fresh\<close> is what the two arrays of the new block hold; \<open>arrives\<close> is what
  the connection will deliver.
\<close>

definition network_start :: "bool \<Rightarrow> bool \<Rightarrow> string \<times> string \<Rightarrow> recv_event list \<Rightarrow> string \<Rightarrow> string option \<Rightarrow>
    int \<Rightarrow> bool \<Rightarrow> Message Queue option \<Rightarrow> Net option" where
  "network_start malloc_ok thread_ok fresh arrives username ip_ptr port to_ui_ok queue_ptr =
     (case (ip_ptr, queue_ptr) of
        (Some ip, Some q) \<Rightarrow>
          if \<not> to_ui_ok then None
          else if \<not> malloc_ok then None
          else if \<not> thread_ok then None
          else Some \<lparr>pc = At_start, fd = -1, sock = -1, running = True,
                 ctx_username = copy_string (fst fresh) username 32, ctx_ip = copy_string (snd fresh) ip 16,
                 ctx_port = port, from_ui = q, to_ui = [], written = [], incoming = arrives, closed = [],
                 commands = queue_contents q, sent_cmds = [], received = []\<rparr>
      | _ \<Rightarrow> None)"

definition network_stop :: "Net \<Rightarrow> Net" where
  "network_stop s = s\<lparr>running := False\<rparr>"

text \<open>
  \<open>network_stop\<close> also shuts the socket down; from then on the answers of the kernel are those of a
  closed connection. \<open>network_wait\<close> returns at once without a context, and otherwise when the thread has
  ended.
\<close>

definition network_wait :: "Net option \<Rightarrow> bool" where
  "network_wait ctx = (case ctx of None \<Rightarrow> True | Some s \<Rightarrow> pc s = Finished)"

text \<open>The context is freed; the pointer the caller keeps is NULL afterwards.\<close>

definition network_destroy :: "Net option \<Rightarrow> Net option" where
  "network_destroy ctx = (case ctx of None \<Rightarrow> None | Some s \<Rightarrow> None)"

definition network_is_connected :: "Net option \<Rightarrow> bool" where
  "network_is_connected ctx = (case ctx of None \<Rightarrow> False | Some s \<Rightarrow> 0 \<le> sock s \<and> running s)"

section \<open>The thread\<close>

lemma try_pop_smaller: "queue_try_pop q = Done (item, q') \<Longrightarrow> cnt q' < cnt q"
  by (auto simp: queue_try_pop_def queue_pop_locked_def split: if_splits)

function drain_message_queue :: "'a Queue \<Rightarrow> 'a list \<times> 'a Queue" where
  "drain_message_queue q =
     (case queue_try_pop q of
        Done (item, q') \<Rightarrow> (let (items, q'') = drain_message_queue q' in (item # items, q''))
      | _ \<Rightarrow> ([], q))"
  by pat_completeness auto

termination
  by (relation "measure cnt") (auto intro: try_pop_smaller)

declare drain_message_queue.simps [simp del]

definition push_error :: "bool \<Rightarrow> string \<Rightarrow> string \<Rightarrow> Net \<Rightarrow> Net" where
  "push_error malloc_ok block text s =
     (if malloc_ok then s\<lparr>to_ui := to_ui s @ [UI_EVENT_ERROR \<lparr>err_message = snprintf block 64 text\<rparr>]\<rparr> else s)"

definition close_socket :: "Net \<Rightarrow> Net" where
  "close_socket s =
     (let old_fd = sock s; s = s\<lparr>sock := -1\<rparr>
      in if 0 \<le> old_fd then s\<lparr>closed := closed s @ [old_fd]\<rparr> else s)"

definition thread_exit_error :: "Heap \<Rightarrow> string \<Rightarrow> Net \<Rightarrow> Net" where
  "thread_exit_error h user_msg s =
     (close_socket (push_error (alloc h) (junk h) user_msg s))\<lparr>running := False, pc := Finished\<rparr>"

definition set_user_msg :: "Net \<Rightarrow> Message" where
  "set_user_msg s =
     \<lparr>msg_type = MSG_SET_USERNAME,
      payload = Set_username (zero_SetUsernamePayload\<lparr>su_username :=
        snprintf (su_username zero_SetUsernamePayload) 32 (cstr (ctx_username s))\<rparr>)\<rparr>"

text \<open>Up to the main loop. The answer of the first \<open>send_message\<close> is not looked at.\<close>

definition thread_start :: "Heap \<Rightarrow> int \<Rightarrow> bool \<Rightarrow> bool \<Rightarrow> int list \<Rightarrow> Net \<Rightarrow> Net option" where
  "thread_start h new_fd pton_ok connect_ok rets s =
     (let s = s\<lparr>fd := new_fd\<rparr>
      in if new_fd < 0 then Some (thread_exit_error h ''Socket creation failed'' s)
         else
           let s = s\<lparr>sock := new_fd\<rparr>
           in if \<not> pton_ok then Some (thread_exit_error h ''Invalid IP address'' s)
              else if \<not> connect_ok then Some (thread_exit_error h ''Connection to server failed'' s)
              else do {
                (w, rets', r) \<leftarrow> send_message (set_user_msg s) rets;
                Some (s\<lparr>written := written s @ w, pc := At_loop\<rparr>) })"

text \<open>One turn of the inner loop, which sends the commands of the user interface.\<close>

definition thread_send :: "Heap \<Rightarrow> int list \<Rightarrow> Net \<Rightarrow> Net option" where
  "thread_send h rets s =
     (case queue_try_pop (from_ui s) of
        Done (cmd, q) \<Rightarrow> do {
          (w, rets', r) \<leftarrow> send_message cmd rets;
          let s = s\<lparr>from_ui := q, written := written s @ w\<rparr>
          in Some (case r of
               Inl e \<Rightarrow> (push_error (alloc h) (junk h) ''Send failed, disconnecting'' s)\<lparr>running := False, pc := At_end\<rparr>
             | Inr u \<Rightarrow> s\<lparr>sent_cmds := sent_cmds s @ [cmd]\<rparr>) }
      | _ \<Rightarrow> Some (s\<lparr>pc := (if running s then At_poll else At_end)\<rparr>))"

datatype poll_result = Poll_interrupted | Poll_failed | Poll_nothing | Poll_ready

text \<open>What \<open>receive_message\<close> returns.\<close>

definition return_code :: "'a result \<Rightarrow> int" where
  "return_code r = (case r of Inl Minus1 \<Rightarrow> -1 | Inr x \<Rightarrow> 0)"

definition thread_receive :: "Heap \<Rightarrow> Message result \<Rightarrow> Net \<Rightarrow> Net" where
  "thread_receive h res s =
     (let r = return_code res
      in if r = -2 then
           (if alloc h then s\<lparr>to_ui := to_ui s @ [UI_EVENT_DISCONNECTED]\<rparr> else s)\<lparr>pc := At_end\<rparr>
         else case res of
           Inl e \<Rightarrow> (push_error (alloc h) (junk h) ''Receive error'' s)\<lparr>pc := At_end\<rparr>
         | Inr msg \<Rightarrow>
             let s = s\<lparr>received := received s @ [msg], pc := At_loop\<rparr>
             in case message_to_event (alloc h) msg of
                  None \<Rightarrow> push_error (alloc_again h) (junk h) ''Out of memory processing server message'' s
                | Some ev \<Rightarrow> s\<lparr>to_ui := to_ui s @ [ev]\<rparr>)"

definition thread_poll :: "Heap \<Rightarrow> poll_result \<Rightarrow> Net \<Rightarrow> Net option" where
  "thread_poll h p s =
     (case p of
        Poll_interrupted \<Rightarrow> Some (s\<lparr>pc := At_loop\<rparr>)
      | Poll_failed \<Rightarrow> Some (s\<lparr>pc := At_end\<rparr>)
      | Poll_nothing \<Rightarrow> Some (s\<lparr>pc := At_loop\<rparr>)
      | Poll_ready \<Rightarrow>
          (case receive_message (incoming s) of
             Returns res es \<Rightarrow> Some (thread_receive h res (s\<lparr>incoming := es\<rparr>))
           | _ \<Rightarrow> None))"

definition thread_end :: "Net \<Rightarrow> Net" where
  "thread_end s =
     (close_socket (s\<lparr>from_ui := snd (drain_message_queue (from_ui s))\<rparr>))\<lparr>running := False, pc := Finished\<rparr>"

text \<open>
  One step of \<open>network_thread_func\<close>, from the point it has reached. The arguments answer the calls
  the step makes.
\<close>

record Answers =
  a_heap :: Heap
  a_socket :: int
  a_pton :: bool
  a_connect :: bool
  a_sends :: "int list"
  a_poll :: poll_result

definition network_thread_step :: "Answers \<Rightarrow> Net \<Rightarrow> Net option" where
  "network_thread_step a s =
     (case pc s of
        At_start \<Rightarrow> thread_start (a_heap a) (a_socket a) (a_pton a) (a_connect a) (a_sends a) s
      | At_loop \<Rightarrow> Some (s\<lparr>pc := (if running s then At_send else At_end)\<rparr>)
      | At_send \<Rightarrow> thread_send (a_heap a) (a_sends a) s
      | At_poll \<Rightarrow> thread_poll (a_heap a) (a_poll a) s
      | At_end \<Rightarrow> Some (thread_end s)
      | Finished \<Rightarrow> None)"

text \<open>
  The thread and the user interface in any order. With \<open>mem\<close>, no allocation fails.
\<close>

inductive net_step :: "bool \<Rightarrow> Net \<Rightarrow> Net \<Rightarrow> bool" for mem where
  thread: "network_thread_step a s = Some s' \<Longrightarrow> (mem \<Longrightarrow> alloc (a_heap a) \<and> alloc_again (a_heap a)) \<Longrightarrow>
     net_step mem s s'"
| command: "queue_push (from_ui s) m = Done q \<Longrightarrow>
     net_step mem s (s\<lparr>from_ui := q, commands := commands s @ [m]\<rparr>)"
| stop: "net_step mem s (network_stop s)"

end
