(* ===== verification/Network_Props.thy ===== *)
theory Network_Props
  imports Network
begin

text \<open>
  Invariants of the network thread under any interleaving with the user interface, and the
  properties of \<open>network.c\<close>.

  The invariant is a conjunction of four independent parts, one per resource: the queue of
  commands and the bytes on the wire, the messages read off the stream, the events pushed to the
  user interface, and the socket. Each is preserved by every step.
\<close>

section \<open>Vocabulary\<close>

definition ended :: "Net \<Rightarrow> bool" where
  "ended s \<longleftrightarrow> pc s \<in> {At_end, Finished}"

definition error_event :: "string \<Rightarrow> UIEvent \<Rightarrow> bool" where
  "error_event text ev = (case ev of UI_EVENT_ERROR e \<Rightarrow> cstr (err_message e) = text | _ \<Rightarrow> False)"

definition exit_event :: "UIEvent \<Rightarrow> bool" where
  "exit_event ev \<longleftrightarrow> (\<exists>t \<in> {''Socket creation failed'', ''Invalid IP address'', ''Connection to server failed'',
      ''Send failed, disconnecting'', ''Receive error''}. error_event t ev)"

text \<open>The event that reports a message to the user interface.\<close>

definition reports :: "Message \<Rightarrow> UIEvent \<Rightarrow> bool" where
  "reports m ev =
     (case message_to_event True m of
        Some e \<Rightarrow> ev = e
      | None \<Rightarrow> error_event ''Out of memory processing server message'' ev)"

inductive net_reach :: "bool \<Rightarrow> Net \<Rightarrow> Net \<Rightarrow> bool" for mem s0 where
  start: "net_reach mem s0 s0"
| step: "net_reach mem s0 s \<Longrightarrow> net_step mem s s' \<Longrightarrow> net_reach mem s0 s'"

lemma error_event_pushed:
  "length text \<le> 63 \<Longrightarrow> NUL \<notin> set text \<Longrightarrow> error_event text (UI_EVENT_ERROR \<lparr>err_message = snprintf j 64 text\<rparr>)"
  by (simp add: error_event_def cstr_snprintf)

lemma send_cut: "send_message m rets = Some (w, rets', r) \<Longrightarrow> \<exists>v. wire m = w @ v"
  by (auto simp: send_message_def wire_def split: sum.splits if_splits Option.bind_splits
      dest!: send_all_sent) (auto dest: send_all_prefix)

lemma receive_many_snoc:
  "receive_many k es = Some (ms, es') \<Longrightarrow> receive_message es' = Returns (Inr m) es'' \<Longrightarrow>
   receive_many (Suc k) es = Some (ms @ [m], es'')"
proof (induction k arbitrary: es ms)
  case (Suc k)
  from Suc.prems(1) obtain m1 es1 ms1 where
    "receive_message es = Returns (Inr m1) es1" "receive_many k es1 = Some (ms1, es')" "ms = m1 # ms1"
    by (auto split: recv_outcome.splits sum.splits Option.bind_splits)
  moreover from Suc.IH [OF this(2) Suc.prems(2)] have "receive_many (Suc k) es1 = Some (ms1 @ [m], es'')" .
  ultimately show ?case by (simp del: receive_many.simps add: receive_many.simps(2) [of "Suc k" es])
qed simp

lemma push_error_simps [simp]:
  "pc (push_error b j t s) = pc s" "fd (push_error b j t s) = fd s" "sock (push_error b j t s) = sock s"
  "running (push_error b j t s) = running s" "from_ui (push_error b j t s) = from_ui s"
  "written (push_error b j t s) = written s" "incoming (push_error b j t s) = incoming s"
  "closed (push_error b j t s) = closed s" "commands (push_error b j t s) = commands s"
  "sent_cmds (push_error b j t s) = sent_cmds s" "received (push_error b j t s) = received s"
  "ctx_username (push_error b j t s) = ctx_username s"
  by (simp_all add: push_error_def)

lemma close_socket_simps [simp]:
  "pc (close_socket s) = pc s" "fd (close_socket s) = fd s" "sock (close_socket s) = -1"
  "running (close_socket s) = running s" "from_ui (close_socket s) = from_ui s"
  "written (close_socket s) = written s" "incoming (close_socket s) = incoming s"
  "to_ui (close_socket s) = to_ui s" "commands (close_socket s) = commands s"
  "sent_cmds (close_socket s) = sent_cmds s" "received (close_socket s) = received s"
  "ctx_username (close_socket s) = ctx_username s"
  "closed (close_socket s) = closed s @ (if 0 \<le> sock s then [sock s] else [])"
  by (simp_all add: close_socket_def Let_def)

lemma return_code_cases: "return_code r \<noteq> -2" "return_code r < 0 \<longleftrightarrow> (\<exists>e. r = Inl e)"
  by (auto simp: return_code_def split: sum.splits c_error.splits)

lemma thread_receive_eq:
  "thread_receive h res s =
     (case res of
        Inl e \<Rightarrow> (push_error (alloc h) (junk h) ''Receive error'' s)\<lparr>pc := At_end\<rparr>
      | Inr msg \<Rightarrow>
          (case message_to_event (alloc h) msg of
             None \<Rightarrow> push_error (alloc_again h) (junk h) ''Out of memory processing server message''
                       (s\<lparr>received := received s @ [msg], pc := At_loop\<rparr>)
           | Some ev \<Rightarrow> s\<lparr>received := received s @ [msg], pc := At_loop, to_ui := to_ui s @ [ev]\<rparr>))"
  by (simp add: thread_receive_def return_code_cases Let_def split: sum.split option.split)

text \<open>The steps of the thread, one case per way through \<open>network_thread_func\<close>.\<close>

lemma thread_step_cases [consumes 1, case_names failed_start connected loop sent send_failed all_sent
    poll broken got finish]:
  assumes "network_thread_step a s = Some s'"
  obtains
    (failed_start) t n where "pc s = At_start"
      "s' = thread_exit_error (a_heap a) t (s\<lparr>fd := a_socket a, sock := n\<rparr>)"
      "t \<in> {''Socket creation failed'', ''Invalid IP address'', ''Connection to server failed''}"
      "n = (if a_socket a < 0 then sock s else a_socket a)"
  | (connected) w rets r where "pc s = At_start" "0 \<le> a_socket a"
      "send_message (set_user_msg s) (a_sends a) = Some (w, rets, r)"
      "s' = s\<lparr>fd := a_socket a, sock := a_socket a, written := written s @ w, pc := At_loop\<rparr>"
  | (loop) "pc s = At_loop" "s' = s\<lparr>pc := (if running s then At_send else At_end)\<rparr>"
  | (sent) cmd q w rets where "pc s = At_send" "queue_try_pop (from_ui s) = Done (cmd, q)"
      "send_message cmd (a_sends a) = Some (w, rets, Inr ())"
      "s' = s\<lparr>from_ui := q, written := written s @ w, sent_cmds := sent_cmds s @ [cmd]\<rparr>"
  | (send_failed) cmd q w rets e where "pc s = At_send" "queue_try_pop (from_ui s) = Done (cmd, q)"
      "send_message cmd (a_sends a) = Some (w, rets, Inl e)"
      "s' = (push_error (alloc (a_heap a)) (junk (a_heap a)) ''Send failed, disconnecting''
               (s\<lparr>from_ui := q, written := written s @ w\<rparr>))\<lparr>running := False, pc := At_end\<rparr>"
  | (all_sent) "pc s = At_send" "s' = s\<lparr>pc := (if running s then At_poll else At_end)\<rparr>"
      "\<nexists>r. queue_try_pop (from_ui s) = Done r"
  | (poll) l where "pc s = At_poll" "s' = s\<lparr>pc := l\<rparr>" "l = At_loop \<or> l = At_end"
  | (broken) e es where "pc s = At_poll" "receive_message (incoming s) = Returns (Inl e) es"
      "s' = (push_error (alloc (a_heap a)) (junk (a_heap a)) ''Receive error'' (s\<lparr>incoming := es\<rparr>))\<lparr>pc := At_end\<rparr>"
  | (got) m es where "pc s = At_poll" "receive_message (incoming s) = Returns (Inr m) es"
      "s' = (case message_to_event (alloc (a_heap a)) m of
              None \<Rightarrow> push_error (alloc_again (a_heap a)) (junk (a_heap a)) ''Out of memory processing server message''
                       (s\<lparr>incoming := es, received := received s @ [m], pc := At_loop\<rparr>)
            | Some ev \<Rightarrow> s\<lparr>incoming := es, received := received s @ [m], pc := At_loop, to_ui := to_ui s @ [ev]\<rparr>)"
  | (finish) "pc s = At_end" "s' = thread_end s"
proof (cases "pc s")
  case At_start
  have u: "set_user_msg (s\<lparr>fd := x, sock := y\<rparr>) = set_user_msg s" for x y by (simp add: set_user_msg_def)
  show thesis
  proof (cases "a_socket a < 0")
    case True
    with At_start assms show thesis
      by (intro failed_start [of "''Socket creation failed''" "sock s"])
        (simp_all add: network_thread_step_def thread_start_def)
  next
    case False
    with At_start assms show thesis
      unfolding network_thread_step_def thread_start_def Let_def
      by (auto simp: u split: if_splits Option.bind_splits intro: failed_start connected)
  qed
next
  case At_send
  then have t: "thread_send (a_heap a) (a_sends a) s = Some s'" using assms by (simp add: network_thread_step_def)
  show thesis
  proof (cases "queue_try_pop (from_ui s)")
    case (Done x)
    obtain cmd q where x: "x = (cmd, q)" by (cases x)
    with t Done obtain w rets r where m: "send_message cmd (a_sends a) = Some (w, rets, r)"
      by (auto simp: thread_send_def split: Option.bind_splits)
    show thesis
    proof (cases r)
      case (Inl e)
      with t Done x m At_send show thesis by (intro send_failed) (auto simp: thread_send_def)
    next
      case (Inr u)
      with t Done x m At_send show thesis by (intro sent) (auto simp: thread_send_def)
    qed
  next
    case Waits
    with t At_send show thesis by (intro all_sent) (auto simp: thread_send_def)
  next
    case Refused
    with t At_send show thesis by (intro all_sent) (auto simp: thread_send_def)
  qed
next
  case At_poll
  then have t: "thread_poll (a_heap a) (a_poll a) s = Some s'" using assms by (simp add: network_thread_step_def)
  show thesis
  proof (cases "a_poll a")
    case Poll_ready
    with t obtain res es where r: "receive_message (incoming s) = Returns res es"
      and s': "s' = thread_receive (a_heap a) res (s\<lparr>incoming := es\<rparr>)"
      by (auto simp: thread_poll_def split: recv_outcome.splits)
    show thesis
    proof (cases res)
      case (Inl e)
      with r s' At_poll show thesis by (intro broken) (simp_all add: thread_receive_eq)
    next
      case (Inr m)
      with r s' At_poll show thesis by (intro got) (simp_all add: thread_receive_eq cong: option.case_cong)
    qed
  qed (use t At_poll poll in \<open>auto simp: thread_poll_def\<close>)
next
  case At_loop
  with assms show thesis by (intro loop) (simp_all add: network_thread_step_def)
next
  case At_end
  with assms show thesis by (intro finish) (simp_all add: network_thread_step_def)
next
  case Finished
  with assms show thesis by (simp add: network_thread_step_def)
qed

lemma thread_exit_error_simps [simp]:
  "pc (thread_exit_error h t s) = Finished" "fd (thread_exit_error h t s) = fd s"
  "sock (thread_exit_error h t s) = -1" "\<not> running (thread_exit_error h t s)"
  "from_ui (thread_exit_error h t s) = from_ui s" "written (thread_exit_error h t s) = written s"
  "incoming (thread_exit_error h t s) = incoming s" "commands (thread_exit_error h t s) = commands s"
  "sent_cmds (thread_exit_error h t s) = sent_cmds s" "received (thread_exit_error h t s) = received s"
  "ctx_username (thread_exit_error h t s) = ctx_username s"
  "closed (thread_exit_error h t s) = closed s @ (if 0 \<le> sock s then [sock s] else [])"
  "to_ui (thread_exit_error h t s) = to_ui (push_error (alloc h) (junk h) t s)"
  by (simp_all add: thread_exit_error_def)

lemma thread_end_simps [simp]:
  "pc (thread_end s) = Finished" "fd (thread_end s) = fd s" "sock (thread_end s) = -1" "\<not> running (thread_end s)"
  "from_ui (thread_end s) = snd (drain_message_queue (from_ui s))" "written (thread_end s) = written s"
  "incoming (thread_end s) = incoming s" "commands (thread_end s) = commands s"
  "sent_cmds (thread_end s) = sent_cmds s" "received (thread_end s) = received s" "to_ui (thread_end s) = to_ui s"
  "ctx_username (thread_end s) = ctx_username s"
  "closed (thread_end s) = closed s @ (if 0 \<le> sock s then [sock s] else [])"
  by (simp_all add: thread_end_def)

lemma network_stop_simps [simp]:
  "pc (network_stop s) = pc s" "fd (network_stop s) = fd s" "sock (network_stop s) = sock s"
  "\<not> running (network_stop s)" "from_ui (network_stop s) = from_ui s" "written (network_stop s) = written s"
  "incoming (network_stop s) = incoming s" "closed (network_stop s) = closed s"
  "commands (network_stop s) = commands s" "sent_cmds (network_stop s) = sent_cmds s"
  "received (network_stop s) = received s" "to_ui (network_stop s) = to_ui s"
  "ctx_username (network_stop s) = ctx_username s"
  by (simp_all add: network_stop_def)

lemma net_start_fields:
  assumes "network_start a b c es u i p d r = Some s"
  shows "pc s = At_start" "fd s = -1" "sock s = -1" "running s" "to_ui s = []" "written s = []" "incoming s = es"
    "closed s = []" "sent_cmds s = []" "received s = []" "r = Some (from_ui s)"
    "commands s = queue_contents (from_ui s)" "ctx_username s = copy_string (fst c) u 32"
  using assms by (auto simp: network_start_def split: option.splits if_splits)

section \<open>The queue of commands and the wire\<close>

lemma drain_message_queue_drain: "cnt q \<le> n \<Longrightarrow> drain_message_queue q = drain queue_try_pop n q"
proof (induction n arbitrary: q)
  case 0
  then show ?case by (simp add: drain_message_queue.simps [of q] queue_try_pop_def queue_pop_locked_def)
next
  case (Suc n)
  show ?case
  proof (cases "queue_try_pop q")
    case (Done r)
    obtain x q' where r: "r = (x, q')" by (cases r)
    with Done try_pop_smaller [of q x q'] Suc.prems have "cnt q' \<le> n" by simp
    with Suc.IH Done r show ?thesis by (simp add: drain_message_queue.simps [of q])
  qed (simp_all add: drain_message_queue.simps [of q])
qed

lemma drain_contents:
  assumes "queue_open q"
  shows "\<exists>q'. drain_message_queue q = (queue_contents q, q') \<and> queue_contents q' = [] \<and> queue_open q'"
  using ring.drain_all [OF assms] drain_message_queue_drain [OF order_refl, of q] by auto

lemma open_push: "queue_open q \<Longrightarrow> queue_push q x = Done q' \<Longrightarrow> queue_contents q' = queue_contents q @ [x] \<and> queue_open q'"
  using blocking_calls(1) [of q x] ring.push_cases [of q x q'] by (auto split: attempt.splits)

definition wire_inv :: "Net \<Rightarrow> bool" where
  "wire_inv s \<longleftrightarrow>
     queue_open (from_ui s) \<and>
     (\<exists>lost. commands s = sent_cmds s @ lost @ queue_contents (from_ui s) \<and> (ended s \<or> lost = [])) \<and>
     (\<exists>w0 v w1. written s = w0 @ concat (map wire (sent_cmds s)) @ w1 \<and> wire (set_user_msg s) = w0 @ v \<and>
        (ended s \<or> w1 = [])) \<and>
     (pc s = At_start \<longrightarrow> sent_cmds s = [] \<and> written s = [])"

lemma wire_invI:
  assumes "queue_open (from_ui s)" "commands s = sent_cmds s @ lost @ queue_contents (from_ui s)"
    "written s = w0 @ concat (map wire (sent_cmds s)) @ w1" "wire (set_user_msg s) = w0 @ v"
    "ended s \<or> lost = [] \<and> w1 = []" "pc s = At_start \<longrightarrow> sent_cmds s = [] \<and> written s = []"
  shows "wire_inv s"
  using assms unfolding wire_inv_def by blast

definition user_msg :: "string \<Rightarrow> Message" where
  "user_msg u = \<lparr>msg_type = MSG_SET_USERNAME,
     payload = Set_username \<lparr>su_username = snprintf (zeros 32) 32 (cstr u)\<rparr>\<rparr>"

lemma user_msg_cong: "set_user_msg s = user_msg (ctx_username s)"
  by (simp add: set_user_msg_def user_msg_def zero_SetUsernamePayload_def)

lemma wire_start: "network_start a b c es u i p d (Some q) = Some s \<Longrightarrow> queue_open q \<Longrightarrow> wire_inv s"
  by (frule net_start_fields(11)) (auto simp: wire_inv_def net_start_fields)

lemma wire_step:
  assumes "net_step mem s s'" "wire_inv s"
  shows "wire_inv s'"
proof -
  from assms(2) obtain lost w0 v w1 where inv: "queue_open (from_ui s)"
    "commands s = sent_cmds s @ lost @ queue_contents (from_ui s)"
    "written s = w0 @ concat (map wire (sent_cmds s)) @ w1" "wire (set_user_msg s) = w0 @ v"
    "ended s \<or> lost = []" "ended s \<or> w1 = []" "pc s = At_start \<longrightarrow> sent_cmds s = [] \<and> written s = []"
    unfolding wire_inv_def by blast
  from assms(1) show ?thesis
  proof cases
    case (thread a)
    from thread(1) show ?thesis
    proof (cases rule: thread_step_cases)
      case (failed_start t n)
      with inv show ?thesis
        by (intro wire_invI [of _ lost w0 w1 v]) (simp_all add: ended_def user_msg_cong)
    next
      case (connected w rets r)
      with send_cut [of "set_user_msg s" "a_sends a" w rets r] obtain v' where "wire (set_user_msg s) = w @ v'" by blast
      with connected inv show ?thesis
        by (intro wire_invI [of _ "[]" w "[]" v']) (simp_all add: ended_def user_msg_cong)
    next
      case loop
      with inv show ?thesis
        by (intro wire_invI [of _ lost w0 w1 v]) (auto simp: ended_def user_msg_cong)
    next
      case (sent cmd q w rets)
      with inv ring.pop_cases [OF inv(1) sent(2)] send_message_wire [OF sent(3)] show ?thesis
        by (intro wire_invI [of _ "[]" w0 "[]" v]) (simp_all add: ended_def user_msg_cong)
    next
      case (send_failed cmd q w rets e)
      with inv ring.pop_cases [OF inv(1) send_failed(2)] show ?thesis
        by (intro wire_invI [of _ "lost @ [cmd]" w0 "w1 @ w" v]) (simp_all add: ended_def user_msg_cong)
    next
      case all_sent
      with inv show ?thesis
        by (intro wire_invI [of _ lost w0 w1 v]) (auto simp: ended_def user_msg_cong)
    next
      case (poll l)
      with inv show ?thesis
        by (intro wire_invI [of _ lost w0 w1 v]) (auto simp: ended_def user_msg_cong)
    next
      case (broken e es)
      with inv show ?thesis
        by (intro wire_invI [of _ lost w0 w1 v]) (auto simp: ended_def user_msg_cong)
    next
      case (got m es)
      with inv show ?thesis
        by (intro wire_invI [of _ lost w0 w1 v])
          (auto simp: ended_def user_msg_cong split: option.splits)
    next
      case finish
      from drain_contents [OF inv(1)] obtain q where
        "drain_message_queue (from_ui s) = (queue_contents (from_ui s), q)" "queue_contents q = []" "queue_open q" by blast
      with finish inv show ?thesis
        by (intro wire_invI [of _ "lost @ queue_contents (from_ui s)" w0 w1 v])
          (simp_all add: ended_def user_msg_cong)
    qed
  next
    case (command m q)
    with inv open_push [OF inv(1) command(2)] show ?thesis
      by (intro wire_invI [of _ lost w0 w1 v]) (auto simp: ended_def user_msg_cong)
  next
    case stop
    with inv show ?thesis
      by (intro wire_invI [of _ lost w0 w1 v]) (auto simp: ended_def user_msg_cong)
  qed
qed

section \<open>The stream of messages and the events\<close>

definition stream_inv :: "recv_event list \<Rightarrow> Net \<Rightarrow> bool" where
  "stream_inv es0 s \<longleftrightarrow>
     (\<exists>es. receive_many (length (received s)) es0 = Some (received s, es) \<and> (ended s \<or> incoming s = es)) \<and>
     (pc s = At_start \<longrightarrow> received s = [])"

lemma stream_start: "network_start a b c es u i p d r = Some s \<Longrightarrow> stream_inv es s"
  by (simp add: stream_inv_def net_start_fields)

lemma stream_step:
  assumes "net_step mem s s'" "stream_inv es0 s"
  shows "stream_inv es0 s'"
  using assms(1)
proof cases
  case (thread a)
  from thread(1) show ?thesis
  proof (cases rule: thread_step_cases)
    case (got m es)
    with assms(2) receive_many_snoc [of "length (received s)" es0 "received s" "incoming s" m es]
    show ?thesis by (auto simp: stream_inv_def ended_def split: option.splits)
  qed (use assms(2) in \<open>auto simp: stream_inv_def ended_def\<close>)
qed (use assms(2) in \<open>auto simp: stream_inv_def ended_def\<close>)

definition event_inv :: "bool \<Rightarrow> Net \<Rightarrow> bool" where
  "event_inv mem s \<longleftrightarrow>
     (mem \<longrightarrow> (\<exists>evs rest. to_ui s = evs @ rest \<and> list_all2 reports (received s) evs \<and>
        (rest = [] \<or> ended s \<and> (\<exists>ev. rest = [ev] \<and> exit_event ev)))) \<and>
     UI_EVENT_DISCONNECTED \<notin> set (to_ui s) \<and> (pc s = At_start \<longrightarrow> to_ui s = [] \<and> received s = [])"

lemma event_start: "network_start a b c es u i p d r = Some s \<Longrightarrow> event_inv mem s"
  by (simp add: event_inv_def net_start_fields)

lemma exit_event_pushed:
  "t \<in> {''Socket creation failed'', ''Invalid IP address'', ''Connection to server failed'',
        ''Send failed, disconnecting'', ''Receive error''} \<Longrightarrow>
   exit_event (UI_EVENT_ERROR \<lparr>err_message = snprintf j 64 t\<rparr>)"
  unfolding exit_event_def by (rule bexI [of _ t], rule error_event_pushed) auto

lemma event_invI:
  assumes "mem \<longrightarrow> list_all2 reports (received s) evs" "to_ui s = evs @ rest"
    "rest = [] \<or> ended s \<and> (\<exists>ev. rest = [ev] \<and> exit_event ev)" "UI_EVENT_DISCONNECTED \<notin> set (to_ui s)"
    "pc s \<noteq> At_start"
  shows "event_inv mem s"
  using assms unfolding event_inv_def by blast

text \<open>A push of an exit event onto a list that so far only reports messages.\<close>

lemma event_inv_exit:
  assumes "event_inv mem s" "\<not> ended s" "ended s'" "received s' = received s" "pc s' \<noteq> At_start"
    "to_ui s' = to_ui (push_error (alloc h) (junk h) t s)"
    "t \<in> {''Socket creation failed'', ''Invalid IP address'', ''Connection to server failed'',
        ''Send failed, disconnecting'', ''Receive error''}"
  shows "event_inv mem s'"
proof -
  let ?ev = "UI_EVENT_ERROR \<lparr>err_message = snprintf (junk h) 64 t\<rparr>"
  have e: "exit_event ?ev" by (rule exit_event_pushed [OF assms(7)])
  have "to_ui s' = to_ui s \<or> to_ui s' = to_ui s @ [?ev]" using assms(6) by (simp add: push_error_def)
  moreover have "mem \<longrightarrow> list_all2 reports (received s) (to_ui s)" "UI_EVENT_DISCONNECTED \<notin> set (to_ui s)"
    using assms(1,2) by (auto simp: event_inv_def)
  ultimately show ?thesis
    using assms(3-5) e by (auto intro: event_invI [of _ _ "to_ui s" "[]"] event_invI [of _ _ "to_ui s" "[?ev]"])
qed

lemma event_inv_report:
  assumes "event_inv mem s" "\<not> ended s" "received s' = received s @ [m]" "pc s' \<noteq> At_start"
    "to_ui s' = to_ui s \<and> \<not> mem \<or>
      (\<exists>ev. to_ui s' = to_ui s @ [ev] \<and> (mem \<longrightarrow> reports m ev) \<and> ev \<noteq> UI_EVENT_DISCONNECTED)"
  shows "event_inv mem s'"
proof -
  have l: "mem \<longrightarrow> list_all2 reports (received s) (to_ui s)" "UI_EVENT_DISCONNECTED \<notin> set (to_ui s)"
    using assms(1,2) by (auto simp: event_inv_def)
  have "list_all2 reports (received s') (to_ui s')" if mem
    using assms(3,5) l that by (auto intro: list_all2_appendI)
  moreover have "UI_EVENT_DISCONNECTED \<notin> set (to_ui s')" using assms(5) l by auto
  ultimately show ?thesis using assms(4) by (intro event_invI [of _ _ "to_ui s'" "[]"]) auto
qed

lemma message_to_event_reports:
  "message_to_event b m = Some ev \<Longrightarrow> reports m ev \<and> ev \<noteq> UI_EVENT_DISCONNECTED"
  "message_to_event True m = None \<Longrightarrow> error_event ''Out of memory processing server message'' ev \<Longrightarrow> reports m ev"
  by (auto simp: message_to_event_def reports_def split: if_splits MessageType.splits)

lemma event_step:
  assumes "net_step mem s s'" "event_inv mem s"
  shows "event_inv mem s'"
  using assms(1)
proof cases
  case (thread a)
  from thread(1) show ?thesis
  proof (cases rule: thread_step_cases)
    case (failed_start t n)
    with assms(2) show ?thesis
      by (intro event_inv_exit [of mem s s' "a_heap a" t]) (auto simp: ended_def push_error_def)
  next
    case (send_failed cmd q w rets e)
    with assms(2) show ?thesis
      by (intro event_inv_exit [of mem s s' "a_heap a" "''Send failed, disconnecting''"])
        (auto simp: ended_def push_error_def)
  next
    case (broken e es)
    with assms(2) show ?thesis
      by (intro event_inv_exit [of mem s s' "a_heap a" "''Receive error''"]) (auto simp: ended_def push_error_def)
  next
    case (got m es)
    have ended: "\<not> ended s" using got(1) by (simp add: ended_def)
    show ?thesis
    proof (cases "message_to_event (alloc (a_heap a)) m")
      case (Some ev)
      with got assms(2) ended message_to_event_reports(1) [OF Some] show ?thesis
        by (intro event_inv_report [of mem s s' m]) auto
    next
      case None
      let ?text = "''Out of memory processing server message''"
      let ?ev = "UI_EVENT_ERROR \<lparr>err_message = snprintf (junk (a_heap a)) 64 ?text\<rparr>"
      have ev: "error_event ?text ?ev" by (rule error_event_pushed) simp_all
      then have r: "mem \<longrightarrow> reports m ?ev"
        using None thread(2) message_to_event_reports(2) by auto
      have "s' = push_error (alloc_again (a_heap a)) (junk (a_heap a)) ?text
          (s\<lparr>incoming := es, received := received s @ [m], pc := At_loop\<rparr>)"
        using got(3) None by simp
      with r thread(2) assms(2) ended show ?thesis
        by (intro event_inv_report [of mem s s' m]) (auto simp: push_error_def)
    qed
  qed (use assms(2) in \<open>auto simp: ended_def event_inv_def\<close>)
qed (use assms(2) in \<open>auto simp: ended_def event_inv_def\<close>)

section \<open>The socket\<close>

definition socket_inv :: "Net \<Rightarrow> bool" where
  "socket_inv s \<longleftrightarrow>
     (case pc s of
        At_start \<Rightarrow> fd s = -1 \<and> sock s = -1 \<and> closed s = []
      | Finished \<Rightarrow> sock s = -1 \<and> \<not> running s \<and> closed s = (if 0 \<le> fd s then [fd s] else [])
      | _ \<Rightarrow> 0 \<le> fd s \<and> sock s = fd s \<and> closed s = [])"

lemma socket_start: "network_start a b c es u i p d r = Some s \<Longrightarrow> socket_inv s"
  by (simp add: socket_inv_def net_start_fields)

lemma socket_step:
  assumes "net_step mem s s'" "socket_inv s"
  shows "socket_inv s'"
  using assms(1)
proof cases
  case (thread a)
  from thread(1) show ?thesis
  proof (cases rule: thread_step_cases)
    case (got m es)
    with assms(2) show ?thesis by (auto simp: socket_inv_def split: option.splits)
  qed (use assms(2) in \<open>auto simp: socket_inv_def\<close>)
qed (use assms(2) in \<open>auto simp: socket_inv_def split: net_pc.splits\<close>)

section \<open>Everything reachable\<close>

lemma net_reach_inv:
  assumes "net_reach mem s0 s" "network_start a b c es u i p d (Some q) = Some s0" "queue_open q"
  shows "wire_inv s" "stream_inv es s" "event_inv mem s" "socket_inv s"
  using assms(1)
  by induction (auto intro: wire_step stream_step event_step socket_step
      wire_start [OF assms(2,3)] stream_start [OF assms(2)] event_start [OF assms(2)] socket_start [OF assms(2)])

lemma step_username: "net_step mem s s' \<Longrightarrow> ctx_username s' = ctx_username s"
  by (auto elim!: net_step.cases thread_step_cases split: option.splits)

lemma reach_username: "net_reach mem s0 s \<Longrightarrow> ctx_username s = ctx_username s0"
  by (induction rule: net_reach.induct) (auto dest: step_username)

lemma net_reach_trans: "net_reach mem s1 s2 \<Longrightarrow> net_reach mem s0 s1 \<Longrightarrow> net_reach mem s0 s2"
  by (induction rule: net_reach.induct) (auto intro: net_reach.step)

text \<open>A run of the thread alone, for concrete answers.\<close>

fun thread_run :: "Answers list \<Rightarrow> Net \<Rightarrow> Net option" where
  "thread_run [] s = Some s"
| "thread_run (a # as) s = do { s' \<leftarrow> network_thread_step a s; thread_run as s' }"

lemma thread_run_reach:
  "thread_run as s = Some s' \<Longrightarrow> \<forall>a \<in> set as. alloc (a_heap a) \<and> alloc_again (a_heap a) \<Longrightarrow> net_reach mem s0 s \<Longrightarrow>
   net_reach mem s0 s'"
proof (induction as arbitrary: s)
  case (Cons a as)
  then obtain s1 where "network_thread_step a s = Some s1" "thread_run as s1 = Some s'"
    by (auto split: Option.bind_splits)
  moreover from this(1) Cons.prems(2,3) have "net_reach mem s0 s1"
    by (auto intro: net_reach.step net_step.thread)
  ultimately show ?case using Cons by simp
qed simp

text \<open>
  The run of the witnesses: the thread connects, sends the command that is waiting, receives one
  message, and ends when the server closes the connection.
\<close>

definition waiting_queue :: "Message Queue" where
  "waiting_queue = \<lparr>buffer = [sample_move, sample_move], capacity = 2, head = 0, tail = 1, cnt = 1, destroyed = False\<rparr>"

definition news :: Message where
  "news = \<lparr>msg_type = MSG_POST_GAME_OPTIONS, payload = Post_game_options \<lparr>pg_game_id = 7, pg_continue = 1\<rparr>\<rparr>"

definition answers :: "int list \<Rightarrow> Answers" where
  "answers rets = \<lparr>a_heap = \<lparr>alloc = True, alloc_again = True, junk = replicate 64 CHR ''?''\<rparr>, a_socket = 3,
     a_pton = True, a_connect = True, a_sends = rets, a_poll = Poll_ready\<rparr>"

definition whole_session :: "Answers list" where
  "whole_session = map answers [[16, 32], [], [10, 6, 6], [], [], [], [], [], []]"

definition session_start :: Net where
  "session_start = the (network_start True True (zeros 32, zeros 16) [Data (wire news), Closed]
     (''Anna'' @ zeros 46) (Some (''127.0.0.1'' @ zeros 7)) 8080 True (Some waiting_queue))"

definition session_end :: Net where
  "session_end = the (thread_run whole_session session_start)"

lemma waiting_queue_open: "queue_open waiting_queue"
  by (simp add: waiting_queue_def queue_open_def queue_inv_def)

lemma session_started: "network_start True True (zeros 32, zeros 16) [Data (wire news), Closed]
     (''Anna'' @ zeros 46) (Some (''127.0.0.1'' @ zeros 7)) 8080 True (Some waiting_queue) = Some session_start"
  by (simp add: session_start_def network_start_def)

lemma session_end_facts:
  "pc session_end = Finished" "received session_end = [news]" "sent_cmds session_end = [sample_move]"
  "fd session_end = 3" "length (to_ui session_end) = 2" "cnt (from_ui session_end) = 0" "length (written session_end) = 70"
  by code_simp+

lemma session_reach: "net_reach True session_start session_end"
proof -
  have "thread_run whole_session session_start \<noteq> None" by code_simp
  then have "thread_run whole_session session_start = Some session_end" by (auto simp: session_end_def)
  then show ?thesis
    by (rule thread_run_reach) (auto simp: whole_session_def answers_def intro: net_reach.start)
qed

section \<open>Properties\<close>

text \<open>C28. The server's messages reach the user interface complete and in order: when memory does not
  run out, the events the thread has pushed are one event per message it received, in the order of
  the byte stream, followed by at most one error event, which the thread pushes only when it
  terminates.\<close>

theorem events_in_order:
  assumes "network_start a b c es u i p d (Some q) = Some s0" and "queue_open q" and "net_reach True s0 s"
  shows "\<exists>evs last es'. receive_many (length (received s)) es = Some (received s, es') \<and>
    to_ui s = evs @ last \<and> list_all2 reports (received s) evs \<and>
    (last = [] \<or> ended s \<and> (\<exists>ev. last = [ev] \<and> exit_event ev))"
  using net_reach_inv [OF assms(3,1,2)] unfolding event_inv_def stream_inv_def by blast

theorem events_in_order_witness:
  "\<exists>ev last. to_ui session_end = [ev, last] \<and> reports news ev \<and> exit_event last"
proof -
  from events_in_order [OF session_started waiting_queue_open session_reach] obtain evs last where
    "to_ui session_end = evs @ last" "list_all2 reports [news] evs"
    "last = [] \<or> (\<exists>ev. last = [ev] \<and> exit_event ev)"
    using session_end_facts(2) by auto
  moreover from this(2) obtain ev where "evs = [ev]" "reports news ev" by (auto simp: list_all2_Cons1)
  ultimately show ?thesis using session_end_facts(5) by auto
qed

text \<open>C29. The commands of the user interface reach the wire complete and in order: the bytes the thread
  wrote are the announcement of the user name, or the beginning of it, then the commands sent
  successfully, in the order they were pushed; only when the thread terminates can there be
  the beginning of one more, and commands that were not sent.\<close>

theorem commands_in_order:
  assumes "network_start a b c es u i p d (Some q) = Some s0" and "queue_open q" and "net_reach mem s0 s"
  shows "\<exists>w0 v w1 lost. written s = w0 @ concat (map wire (sent_cmds s)) @ w1 \<and> wire (set_user_msg s0) = w0 @ v \<and>
    commands s = sent_cmds s @ lost @ queue_contents (from_ui s) \<and> (ended s \<or> w1 = [] \<and> lost = [])"
proof -
  have "set_user_msg s = set_user_msg s0" using reach_username [OF assms(3)] by (simp add: user_msg_cong)
  with net_reach_inv(1) [OF assms(3,1,2)] show ?thesis unfolding wire_inv_def by metis
qed

theorem commands_in_order_witness:
  "\<exists>w0 v w1. written session_end = w0 @ wire sample_move @ w1 \<and> wire (set_user_msg session_start) = w0 @ v"
  using commands_in_order [OF session_started waiting_queue_open session_reach] session_end_facts(3) by auto

text \<open>C30. The thread closes the socket it opened exactly once, on every way out, and afterwards the module
  reports that it is not connected; before that it closes nothing.\<close>

theorem socket_closed_once:
  assumes "network_start a b c es u i p d (Some q) = Some s0" and "queue_open q" and "net_reach mem s0 s"
  shows "(if pc s = Finished then closed s = (if 0 \<le> fd s then [fd s] else []) \<and> \<not> network_is_connected (Some s)
    else closed s = [])"
  using net_reach_inv(4) [OF assms(3,1,2)]
  by (auto simp: socket_inv_def network_is_connected_def split: net_pc.splits)

theorem socket_closed_once_witness: "closed session_end = [3] \<and> \<not> network_is_connected (Some session_end)"
  using socket_closed_once [OF session_started waiting_queue_open session_reach] session_end_facts(1,4) by simp

text \<open>The event \<open>UI_EVENT_DISCONNECTED\<close> is never produced, whatever the server and the kernel do:
  \<open>receive_message\<close> answers -1 to an orderly shutdown too, so the branch for -2 is dead and the user
  interface is told of a receive error instead.\<close>

theorem disconnected_never_produced:
  assumes "network_start a b c es u i p d (Some q) = Some s0" and "queue_open q" and "net_reach mem s0 s"
  shows "UI_EVENT_DISCONNECTED \<notin> set (to_ui s)"
  using net_reach_inv(3) [OF assms(3,1,2)] by (simp add: event_inv_def)

theorem disconnected_never_produced_witness: "UI_EVENT_DISCONNECTED \<notin> set (to_ui session_end)"
  by (rule disconnected_never_produced [OF session_started waiting_queue_open session_reach])

text \<open>Before a thread polls for the first time, it has sent all that was in the queue when it was started.\<close>

definition backlog_sent :: "Message list \<Rightarrow> Net \<Rightarrow> bool" where
  "backlog_sent ms s \<longleftrightarrow>
     (\<exists>new. commands s = ms @ new) \<and> (pc s = At_poll \<or> received s \<noteq> [] \<longrightarrow> length ms \<le> length (sent_cmds s))"

lemma backlog_start: "network_start a b c es u i p d (Some q) = Some s \<Longrightarrow> backlog_sent (queue_contents q) s"
  by (frule net_start_fields(11)) (simp add: backlog_sent_def net_start_fields)

lemma backlog_step:
  assumes "net_step mem s s'" "wire_inv s" "backlog_sent ms s"
  shows "backlog_sent ms s'"
  using assms(1)
proof cases
  case (thread a)
  from thread(1) show ?thesis
  proof (cases rule: thread_step_cases)
    case all_sent
    have "queue_open (from_ui s)" using assms(2) by (simp add: wire_inv_def)
    then have "queue_contents (from_ui s) = []"
      using all_sent(3) ring.pop_some [of "from_ui s"] by (cases "queue_contents (from_ui s)") auto
    then have "length ms \<le> length (sent_cmds s)"
      using assms(2,3) all_sent(1) by (auto simp: wire_inv_def backlog_sent_def ended_def)
    then show ?thesis using all_sent(2) assms(3) by (auto simp: backlog_sent_def)
  qed (use assms(3) in \<open>auto simp: backlog_sent_def split: option.splits\<close>)
qed (use assms(3) in \<open>auto simp: backlog_sent_def\<close>)

lemma reach_backlog:
  assumes "net_reach mem s0 s" "network_start a b c es u i p d (Some q) = Some s0" "queue_open q"
  shows "backlog_sent (queue_contents q) s"
  using assms(1)
proof induction
  case start
  show ?case by (rule backlog_start [OF assms(2)])
next
  case (step s s')
  then show ?case using backlog_step [OF step(2) net_reach_inv(1) [OF step(1) assms(2,3)]] by simp
qed

lemma backlog_mem:
  assumes "backlog_sent ms s" "wire_inv s" "received s \<noteq> []" "m \<in> set ms"
  shows "m \<in> set (sent_cmds s)"
proof -
  obtain new rest where c: "commands s = ms @ new" "commands s = sent_cmds s @ rest" "length ms \<le> length (sent_cmds s)"
    using assms(1-3) by (auto simp: backlog_sent_def wire_inv_def)
  then have "take (length ms) (sent_cmds s) = ms" by (metis append_eq_conv_conj take_append diff_is_0_eq take0 append_Nil2)
  then show ?thesis using assms(4) by (metis in_set_takeD)
qed

text \<open>After the thread has ended, what is in the queue stays there while no other thread is started on it.\<close>

lemma queue_untouched:
  "net_reach mem s0 s \<Longrightarrow> pc s0 = Finished \<Longrightarrow> queue_open (from_ui s0) \<Longrightarrow> m \<in> set (queue_contents (from_ui s0)) \<Longrightarrow>
   pc s = Finished \<and> queue_open (from_ui s) \<and> m \<in> set (queue_contents (from_ui s))"
proof (induction rule: net_reach.induct)
  case (step s1 s2)
  from step.hyps(2) step.IH [OF step.prems] show ?case
    by (cases rule: net_step.cases) (auto simp: network_thread_step_def dest: open_push)
qed simp

text \<open>C36. A command that the user interface pushes after the network thread has ended is not dropped. Until
  another thread is started on the queue nobody takes it, so that when the client quits,
  \<open>queue_destroy\<close> fails its assertion. And when the client connects again, with whatever server and name,
  the new thread sends the command of the old session, after the announcement of the name and
  before it reads anything from the server.\<close>

theorem late_command_waits:
  assumes "pc s = Finished" and "queue_open (from_ui s)" and "queue_push (from_ui s) m = Done q"
    and "net_reach mem (s\<lparr>from_ui := q, commands := commands s @ [m]\<rparr>) s'"
  shows "queue_destroy (from_ui s') = None \<and>
    (\<forall>a b c es u i p d s0 t. network_start a b c es u i p d (Some (from_ui s')) = Some s0 \<and> net_reach mem s0 t \<and> received t \<noteq> [] \<longrightarrow>
      m \<in> set (sent_cmds t) \<and>
      (\<exists>w0 v w1. written t = w0 @ concat (map wire (sent_cmds t)) @ w1 \<and> wire (set_user_msg s0) = w0 @ v))"
proof -
  have "m \<in> set (queue_contents q)" "queue_open q" using open_push [OF assms(2,3)] by simp_all
  then have q: "queue_open (from_ui s')" "m \<in> set (queue_contents (from_ui s'))"
    using queue_untouched [OF assms(4), of m] assms(1) by simp_all
  then have "queue_destroy (from_ui s') = None"
    using contents_Nil [of "from_ui s'"] by (auto simp: queue_destroy_def)
  moreover have "m \<in> set (sent_cmds t) \<and>
      (\<exists>w0 v w1. written t = w0 @ concat (map wire (sent_cmds t)) @ w1 \<and> wire (set_user_msg s0) = w0 @ v)"
    if n: "network_start a b c es u i p d (Some (from_ui s')) = Some s0" and t: "net_reach mem s0 t" "received t \<noteq> []"
    for a b c es u i p d s0 t
  proof -
    have w: "wire_inv t" by (rule net_reach_inv(1) [OF t(1) n q(1)])
    have "m \<in> set (sent_cmds t)" by (rule backlog_mem [OF reach_backlog [OF t(1) n q(1)] w t(2) q(2)])
    moreover have "set_user_msg t = set_user_msg s0" using reach_username [OF t(1)] by (simp add: user_msg_cong)
    ultimately show ?thesis using w unfolding wire_inv_def by metis
  qed
  ultimately show ?thesis by blast
qed

text \<open>A move is pushed after the session of the other witnesses has ended; the client connects again.\<close>

definition late_queue :: "Message Queue" where
  "late_queue = (case queue_push (from_ui session_end) sample_move of Done q \<Rightarrow> q | _ \<Rightarrow> waiting_queue)"

definition second_start :: Net where
  "second_start = the (network_start True True (zeros 32, zeros 16) [Data (wire news), Closed]
     (''Anna'' @ zeros 46) (Some (''127.0.0.1'' @ zeros 7)) 8080 True (Some late_queue))"

definition second_end :: Net where
  "second_end = the (thread_run whole_session second_start)"

theorem late_command_waits_witness:
  "queue_destroy late_queue = None \<and> sample_move \<in> set (sent_cmds second_end)"
proof -
  have o: "queue_open (from_ui session_end)"
    using net_reach_inv(1) [OF session_reach session_started waiting_queue_open] by (simp add: wire_inv_def)
  have "capacity (from_ui session_end) = 2" by code_simp
  then obtain q where "queue_push (from_ui session_end) sample_move = Done q"
    using push_done [OF o, of sample_move] session_end_facts(6) blocking_calls(1) [OF o, of sample_move] by fastforce
  then have q: "queue_push (from_ui session_end) sample_move = Done late_queue" by (simp add: late_queue_def)
  have n: "network_start True True (zeros 32, zeros 16) [Data (wire news), Closed] (''Anna'' @ zeros 46)
      (Some (''127.0.0.1'' @ zeros 7)) 8080 True (Some late_queue) = Some second_start"
    by (simp add: second_start_def network_start_def)
  have "thread_run whole_session second_start \<noteq> None" by code_simp
  then have "thread_run whole_session second_start = Some second_end" by (auto simp: second_end_def)
  then have r: "net_reach True second_start second_end"
    by (rule thread_run_reach) (auto simp: whole_session_def answers_def intro: net_reach.start)
  have "received second_end \<noteq> []" by code_simp
  with late_command_waits [OF session_end_facts(1) o q net_reach.start, of True] n r show ?thesis by auto
qed

end
