(* ===== verification/Client_Config.thy ===== *)
theory Client_Config
  imports Tris_Prelude
begin

text \<open>
  The configuration file of the client (\<open>client/src/utils/utils.c\<close>).

  \<^item> The file is its content, or \<open>None\<close> when \<open>fopen\<close> cannot read it; \<open>can_write\<close> says whether
    \<open>fopen\<close> can open it for writing.
  \<^item> \<open>fscanf\<close> is modelled for the directives the format of \<open>read_config\<close> uses: white space, an
    ordinary character, and a text of bounded length. \<open>scan\<close> returns the texts that were assigned,
    in order; it stops at the first directive that does not match.
\<close>

section \<open>Scanning\<close>

datatype directive = Space | Lit char | Str nat

definition isspace :: "char \<Rightarrow> bool" where
  "isspace c \<longleftrightarrow> c \<in> {CHR '' '', CHR 0x09, CHR 0x0A, CHR 0x0B, CHR 0x0C, CHR 0x0D}"

fun scan :: "directive list \<Rightarrow> string \<Rightarrow> string list" where
  "scan [] inp = []"
| "scan (Space # ds) inp = scan ds (dropWhile isspace inp)"
| "scan (Lit c # ds) inp = (case inp of [] \<Rightarrow> [] | x # inp' \<Rightarrow> if x = c then scan ds inp' else [])"
| "scan (Str n # ds) inp =
     (let inp = dropWhile isspace inp; s = take n (takeWhile (\<lambda>c. \<not> isspace c) inp)
      in if s = [] then [] else s # scan ds (drop (length s) inp))"

text \<open>A conversion stores the text and a NUL; the rest of the array keeps its content.\<close>

definition store_text :: "string \<Rightarrow> string \<Rightarrow> string" where
  "store_text a s = s @ [NUL] @ drop (length s + 1) a"

section \<open>The code\<close>

record Config =
  cfg_username :: string
  cfg_ip :: string
  cfg_port :: string

definition default_config :: Config where
  "default_config = \<lparr>cfg_username = ''Player'' @ zeros 44, cfg_ip = ''127.0.0.1'' @ zeros 7,
     cfg_port = ''8080'' @ zeros 2\<rparr>"

definition newline :: string where
  "newline = [CHR 0x0A]"

definition config_comments :: string where
  "config_comments = ''# Configuration file for Tris client'' @ newline @
     ''# Modify these settings as needed'' @ newline @ newline"

definition config_fields :: "Config \<Rightarrow> string" where
  "config_fields c = ''username='' @ cstr (cfg_username c) @ newline @ ''ip='' @ cstr (cfg_ip c) @ newline @
     ''port='' @ cstr (cfg_port c) @ newline"

definition save_config :: "bool \<Rightarrow> Config \<Rightarrow> string option \<Rightarrow> bool \<times> string option" where
  "save_config can_write config file =
     (if \<not> can_write then (False, file) else (True, Some (config_comments @ config_fields config)))"

definition config_format :: "directive list" where
  "config_format = [Space] @ map Lit ''username='' @ [Str 49, Space] @ map Lit ''ip='' @ [Str 15, Space] @
     map Lit ''port='' @ [Str 5]"

text \<open>What \<open>fscanf\<close> stores: the fields of the conversions that succeeded.\<close>

fun assign_fields :: "Config \<Rightarrow> string list \<Rightarrow> Config" where
  "assign_fields c [u] = c\<lparr>cfg_username := store_text (cfg_username c) u\<rparr>"
| "assign_fields c [u, i] = c\<lparr>cfg_username := store_text (cfg_username c) u, cfg_ip := store_text (cfg_ip c) i\<rparr>"
| "assign_fields c (u # i # p # ss) = c\<lparr>cfg_username := store_text (cfg_username c) u,
     cfg_ip := store_text (cfg_ip c) i, cfg_port := store_text (cfg_port c) p\<rparr>"
| "assign_fields c [] = c"

definition read_config :: "bool \<Rightarrow> Config \<Rightarrow> string option \<Rightarrow> bool \<times> Config \<times> string option" where
  "read_config can_write config file =
     (let file = (case file of None \<Rightarrow> snd (save_config can_write default_config None) | Some t \<Rightarrow> Some t)
      in case file of
           None \<Rightarrow> (False, config, None)
         | Some t \<Rightarrow>
             let texts = scan config_format t
             in (length texts = 3, assign_fields config texts, Some t))"

text \<open>\<open>main\<close>: the configuration the client starts with.\<close>

definition main_config :: "bool \<Rightarrow> Config \<Rightarrow> string option \<Rightarrow> Config \<times> string option" where
  "main_config can_write uninit file =
     (case read_config can_write uninit file of
        (ok, config, file) \<Rightarrow>
          (if \<not> ok then
             config\<lparr>cfg_username := snprintf (cfg_username config) 50 ''Player'',
               cfg_ip := snprintf (cfg_ip config) 16 ''127.0.0.1'',
               cfg_port := snprintf (cfg_port config) 6 ''8080''\<rparr>
           else config, file))"

section \<open>Arrays keep their length\<close>

definition config_ok :: "Config \<Rightarrow> bool" where
  "config_ok c \<longleftrightarrow> length (cfg_username c) = 50 \<and> length (cfg_ip c) = 16 \<and> length (cfg_port c) = 6"

definition config_terminated :: "Config \<Rightarrow> bool" where
  "config_terminated c \<longleftrightarrow> NUL \<in> set (cfg_username c) \<and> NUL \<in> set (cfg_ip c) \<and> NUL \<in> set (cfg_port c)"

lemma length_store_text [array_simps]: "length s < length a \<Longrightarrow> length (store_text a s) = length a"
  by (simp add: store_text_def)

lemma NUL_store_text [simp]: "NUL \<in> set (store_text a s)"
  by (simp add: store_text_def)

lemma cstr_store_text [array_simps]: "NUL \<notin> set s \<Longrightarrow> cstr (store_text a s) = s"
  by (simp add: store_text_def cstr_append_NUL)

text \<open>How long the texts are that a format assigns.\<close>

fun widths :: "directive list \<Rightarrow> nat list" where
  "widths [] = []"
| "widths (Str n # ds) = n # widths ds"
| "widths (d # ds) = widths ds"

lemma scan_widths:
  "length (scan ds inp) \<le> length (widths ds) \<and>
   (\<forall>k < length (scan ds inp). length (scan ds inp ! k) \<le> widths ds ! k)"
proof (induction ds inp rule: scan.induct)
  case (4 n ds inp)
  let ?i = "dropWhile isspace inp"
  let ?s = "take n (takeWhile (\<lambda>c. \<not> isspace c) ?i)"
  show ?case
  proof (cases "?s = []")
    case False
    with 4 have IH: "length (scan ds (drop (length ?s) ?i)) \<le> length (widths ds)"
      "\<forall>k < length (scan ds (drop (length ?s) ?i)). length (scan ds (drop (length ?s) ?i) ! k) \<le> widths ds ! k"
      by (auto simp: Let_def)
    have "scan (Str n # ds) inp = ?s # scan ds (drop (length ?s) ?i)"
      using False by (simp add: Let_def)
    moreover have "length ((?s # scan ds (drop (length ?s) ?i)) ! k) \<le> (n # widths ds) ! k"
      if "k < Suc (length (scan ds (drop (length ?s) ?i)))" for k
      using that IH(2) by (cases k) auto
    ultimately show ?thesis using IH(1) by (simp only: widths.simps length_Cons Suc_le_mono) blast
  next
    case True
    then show ?thesis by (simp add: Let_def)
  qed
qed (auto split: list.split)

lemma widths_lits: "widths (map Lit cs @ ds) = widths ds"
  by (induction cs) simp_all

lemma widths_config: "widths config_format = [49, 15, 5]"
  by (simp add: config_format_def widths_lits del: list.map)

lemma config_ok_assign:
  assumes "config_ok c" "length ss \<le> 3" "\<forall>k < length ss. length (ss ! k) \<le> [49, 15, 5] ! k"
  shows "config_ok (assign_fields c ss)"
proof -
  have "length ss = 0 \<or> length ss = 1 \<or> length ss = 2 \<or> length ss = 3" using assms(2) by linarith
  then consider "ss = []" | u where "ss = [u]" | u i where "ss = [u, i]" | u i p where "ss = [u, i, p]"
    by (auto simp: length_Suc_conv numeral_2_eq_2 numeral_3_eq_3)
  then show ?thesis
  proof cases
    case (2 u)
    with assms show ?thesis by (simp add: config_ok_def length_store_text)
  next
    case (3 u i)
    with assms(3) have "length u \<le> 49" "length i \<le> 15"
      by (auto dest: spec [of _ 0] spec [of _ "Suc 0"])
    with 3 assms(1) show ?thesis by (simp add: config_ok_def length_store_text)
  next
    case (4 u i p)
    have "length u \<le> 49" "length i \<le> 15" "length p \<le> 5"
      using assms(3) 4 by (auto dest: spec [of _ 0] spec [of _ "Suc 0"] spec [of _ 2])
    with 4 assms(1) show ?thesis by (simp add: config_ok_def length_store_text)
  qed (use assms in simp)
qed

lemma config_ok_read:
  assumes "config_ok c" "read_config w c file = (ok, c', file')"
  shows "config_ok c'"
proof -
  have "config_ok (assign_fields c (scan config_format t))" for t
    using scan_widths [of config_format t] by (intro config_ok_assign [OF assms(1)]) (simp_all add: widths_config)
  with assms show ?thesis
    by (auto simp: read_config_def Let_def split: option.splits)
qed

lemma config_terminated_assign: "config_terminated c \<Longrightarrow> config_terminated (assign_fields c ss)"
  by (cases "(c, ss)" rule: assign_fields.cases) (simp_all add: config_terminated_def)

lemma config_terminated_read:
  "config_terminated c \<Longrightarrow> read_config w c file = (ok, c', file') \<Longrightarrow> config_terminated c'"
  by (auto simp: read_config_def Let_def config_terminated_assign split: option.splits)

section \<open>Reading what was written\<close>

lemma scan_lits: "scan (map Lit cs @ ds) (cs @ inp) = scan ds inp"
  by (induction cs) simp_all

definition word_ok :: "nat \<Rightarrow> string \<Rightarrow> bool" where
  "word_ok n s \<longleftrightarrow> s \<noteq> [] \<and> length s \<le> n \<and> (\<forall>c \<in> set s. \<not> isspace c)"

lemma scan_word:
  assumes "word_ok n s"
  shows "scan (Str n # ds) (s @ newline @ inp) = s # scan ds (newline @ inp)"
proof -
  have ns: "\<forall>c \<in> set s. \<not> isspace c" and s: "s \<noteq> []" "length s \<le> n"
    using assms by (simp_all add: word_ok_def)
  have d: "dropWhile isspace (s @ newline @ inp) = s @ newline @ inp"
    using ns s(1) by (cases s) auto
  have "takeWhile (\<lambda>c. \<not> isspace c) (s @ newline @ inp) = s @ takeWhile (\<lambda>c. \<not> isspace c) (newline @ inp)"
    by (rule takeWhile_append2) (use ns in simp)
  also have "\<dots> = s" by (simp add: newline_def isspace_def)
  finally have t: "takeWhile (\<lambda>c. \<not> isspace c) (s @ newline @ inp) = s" .
  show ?thesis
    unfolding scan.simps(4) Let_def d t using s by simp
qed

text \<open>A line \<open>key=value\<close>, after the line break that ends the line before it or at the start.\<close>

lemma scan_line:
  assumes "word_ok n v" "k \<noteq> []" "\<not> isspace (hd k)" "pre = [] \<or> pre = newline"
  shows "scan (Space # map Lit k @ Str n # ds) (pre @ k @ v @ newline @ inp) = v # scan ds (newline @ inp)"
proof -
  have "dropWhile isspace (pre @ k @ t) = k @ t" for t
    using assms(2-4) by (cases k) (auto simp: newline_def isspace_def)
  then show ?thesis by (simp add: scan_lits scan_word [OF assms(1)] del: scan.simps(4))
qed

lemma scan_config_fields:
  assumes "word_ok 49 (cstr (cfg_username c))" "word_ok 15 (cstr (cfg_ip c))" "word_ok 5 (cstr (cfg_port c))"
  shows "scan config_format (config_fields c) = [cstr (cfg_username c), cstr (cfg_ip c), cstr (cfg_port c)]"
proof -
  let ?port = "''port='' @ cstr (cfg_port c) @ newline @ []"
  let ?ip = "''ip='' @ cstr (cfg_ip c) @ newline @ ?port"
  let ?port_format = "Space # map Lit ''port='' @ Str 5 # []"
  let ?ip_format = "Space # map Lit ''ip='' @ Str 15 # ?port_format"
  have "scan ?port_format (newline @ ?port) = [cstr (cfg_port c)]"
    by (subst scan_line [OF assms(3)]) (simp_all add: isspace_def)
  moreover have "scan ?ip_format (newline @ ?ip) = cstr (cfg_ip c) # scan ?port_format (newline @ ?port)"
    by (rule scan_line [OF assms(2)]) (simp_all add: isspace_def)
  moreover have "scan (Space # map Lit ''username='' @ Str 49 # ?ip_format)
      ([] @ ''username='' @ cstr (cfg_username c) @ newline @ ?ip) = cstr (cfg_username c) # scan ?ip_format (newline @ ?ip)"
    by (rule scan_line [OF assms(1)]) (simp_all add: isspace_def)
  moreover have "config_format = Space # map Lit ''username='' @ Str 49 # ?ip_format"
    by (simp add: config_format_def)
  moreover have "config_fields c = [] @ ''username='' @ cstr (cfg_username c) @ newline @ ?ip"
    by (simp add: config_fields_def)
  ultimately show ?thesis by (simp only:)
qed

text \<open>\<open>fscanf\<close> stops at the comments a saved file starts with.\<close>

lemma scan_saved: "scan config_format (config_comments @ t) = []"
  by (simp add: config_format_def config_comments_def isspace_def)

section \<open>Properties\<close>

text \<open>Reading a configuration never writes past the arrays of \<open>Config\<close>, whatever the file holds,
  and the configuration the client starts with has a NUL in each of them, also when the file is
  missing, cannot be created or is malformed.\<close>

theorem start_config_safe:
  assumes "config_ok uninit"
  shows "config_ok (fst (main_config w uninit file)) \<and> config_terminated (fst (main_config w uninit file))"
proof (rule conjI)
  obtain ok c file' where r: "read_config w uninit file = (ok, c, file')" by (cases "read_config w uninit file") auto
  have c: "config_ok c" by (rule config_ok_read [OF assms r])
  then show "config_ok (fst (main_config w uninit file))"
    by (simp add: main_config_def r config_ok_def length_snprintf)
  have "config_terminated c" if o: ok
  proof -
    obtain t where t: "length (scan config_format t) = 3" "c = assign_fields uninit (scan config_format t)"
      using r o by (auto simp: read_config_def Let_def split: option.splits)
    then obtain u i p where "scan config_format t = [u, i, p]"
      by (auto simp: length_Suc_conv numeral_3_eq_3)
    with t(2) show ?thesis by (simp add: config_terminated_def)
  qed
  then show "config_terminated (fst (main_config w uninit file))"
    by (simp add: main_config_def r config_terminated_def snprintf_def Let_def)
qed

theorem start_config_safe_witness:
  "config_ok (fst (main_config True default_config (Some ''username=Anna ip=10.0.0.1234567890''))) \<and>
   config_terminated (fst (main_config True default_config (Some ''username=Anna ip=10.0.0.1234567890'')))"
  by (rule start_config_safe) (simp add: config_ok_def default_config_def)

text \<open>The three fields survive writing and reading: what \<open>fscanf\<close> finds in the field lines of a
  saved configuration is the configuration, provided each text is a non-empty word that fits.\<close>

theorem config_fields_roundtrip:
  assumes "word_ok 49 (cstr (cfg_username c))" "word_ok 15 (cstr (cfg_ip c))" "word_ok 5 (cstr (cfg_port c))"
  shows "\<exists>c'. read_config w d (Some (config_fields c)) = (True, c', Some (config_fields c)) \<and>
    cstr (cfg_username c') = cstr (cfg_username c) \<and> cstr (cfg_ip c') = cstr (cfg_ip c) \<and>
    cstr (cfg_port c') = cstr (cfg_port c)"
  by (simp add: read_config_def scan_config_fields [OF assms] cstr_store_text)

theorem config_fields_roundtrip_witness:
  "\<exists>c'. read_config w d (Some (config_fields default_config)) = (True, c', Some (config_fields default_config)) \<and>
    cstr (cfg_username c') = cstr (cfg_username default_config) \<and> cstr (cfg_ip c') = cstr (cfg_ip default_config) \<and>
    cstr (cfg_port c') = cstr (cfg_port default_config)"
  by (rule config_fields_roundtrip) (code_simp, code_simp, code_simp)

text \<open>A configuration that was saved is never read back: the file starts with two comment lines, at
  which \<open>fscanf\<close> stops before the first field. \<open>read_config\<close> reports failure and stores nothing, and
  the client starts with the built-in configuration whatever the user saved.\<close>

theorem saved_config_not_read:
  "read_config w d (snd (save_config True c f)) = (False, d, snd (save_config True c f)) \<and>
   cstr (cfg_username (fst (main_config w d (snd (save_config True c f))))) = ''Player'' \<and>
   cstr (cfg_ip (fst (main_config w d (snd (save_config True c f))))) = ''127.0.0.1'' \<and>
   cstr (cfg_port (fst (main_config w d (snd (save_config True c f))))) = ''8080''"
proof -
  have "read_config w d (snd (save_config True c f)) = (False, d, snd (save_config True c f))"
    by (simp add: read_config_def save_config_def scan_saved)
  then show ?thesis by (simp add: main_config_def cstr_snprintf)
qed

end
