(* ===== verification/UI.thy ===== *)
theory UI
  imports Network Client_Config "HOL-Library.Signed_Division"
begin

text \<open>
  The user interface of the client (\<open>client/src/ui/ui.c\<close>), without the drawing.

  \<^item> \<open>UIState\<close> is the structure of that name, and beside it what the functions act on: the flag
    \<open>ui_running\<close>, the configuration file, the commands pushed to the network thread, and the calls
    made to the network module.
  \<^item> \<open>UIEnv\<close> answers what the code asks of its environment: \<open>malloc\<close>, the network module, the
    clock, the size of the terminal, and \<open>isprint\<close> of the current locale. A key of \<open>getch\<close> is a
    byte or one of the codes of \<open>ncurses\<close>; with \<open>KEY_MOUSE\<close> comes what \<open>getmouse\<close> finds.
  \<^item> A function returns \<open>None\<close> where the code's behaviour is undefined: it reads or writes outside
    an array, or calls \<open>isprint\<close> with a value that is no character.
\<close>

section \<open>State\<close>

datatype ScreenState =
    SCREEN_MAIN_MENU | SCREEN_LOBBY | SCREEN_GAME_WAITING | SCREEN_IN_GAME | SCREEN_JOIN_REQUEST
  | SCREEN_POST_GAME | SCREEN_DISCONNECTED | SCREEN_SETTINGS | SCREEN_HELP | SCREEN_GAME_OVER

datatype SettingsMode = SETTINGS_NAV | SETTINGS_EDIT

datatype NetCall = Net_start string string int | Net_stop | Net_wait | Net_destroy

record UIState =
  ui_screen :: ScreenState
  ui_current_game_id :: u32
  ui_player_role :: Player
  ui_game_state :: GameCommonState
  ui_lobby_games :: "LobbyGameInfo list"
  ui_lobby_count :: u8
  ui_error_message :: string
  ui_join_requester_name :: string
  ui_join_game_id :: u32
  ui_post_game_message :: string
  ui_cursor_row :: int
  ui_cursor_col :: int
  ui_disconnected_at :: int
  ui_config :: Config
  ui_net_ctx :: bool
  ui_is_connected :: bool
  ui_settings_active_field :: int
  ui_settings_mode :: SettingsMode
  ui_settings_edit_buf :: string
  ui_menu_selection :: int
  ui_last_game_winner :: int
  ui_running :: bool
  ui_file :: "string option"
  ui_pushed :: "Message list"
  ui_net_calls :: "NetCall list"

record UIEnv =
  env_malloc :: bool
  env_malloc_again :: bool
  env_connected :: bool
  env_start_ok :: bool
  env_connected_after :: bool
  env_can_write :: bool
  env_time :: int
  env_lines :: int
  env_cols :: int
  env_isprint :: "char \<Rightarrow> bool"

record Mouse =
  mouse_y :: int
  mouse_x :: int
  mouse_button1 :: bool

datatype Key =
    KEY_UP | KEY_DOWN | KEY_LEFT | KEY_RIGHT | KEY_BACKSPACE | KEY_MOUSE "Mouse option" | KEY_other
  | Byte char

abbreviation ESC :: char where
  "ESC \<equiv> CHR 0x1B"

abbreviation LF :: char where
  "LF \<equiv> CHR 0x0A"

section \<open>C strings\<close>

text \<open>Reading a string out of an array: \<open>None\<close> when the array has no NUL and the read runs past it.\<close>

definition c_text :: "string \<Rightarrow> string option" where
  "c_text a = (if NUL \<in> set a then Some (cstr a) else None)"

definition strcpy :: "string \<Rightarrow> string \<Rightarrow> string option" where
  "strcpy dst src = do {
     s \<leftarrow> c_text src;
     if length s < length dst then Some (store_text dst s) else None }"

text \<open>
  The copy idiom of \<open>copy_string\<close> with \<open>strncpy\<close> reading out of an array: it stops at a NUL or after
  \<open>n - 1\<close> characters, so an array without a NUL is read within its bounds when it has that many.
\<close>

definition copy_text :: "string \<Rightarrow> string \<Rightarrow> nat \<Rightarrow> string option" where
  "copy_text dst src n = (if NUL \<in> set src \<or> n - 1 \<le> length src then Some (copy_string dst src n) else None)"

definition digit_value :: "char \<Rightarrow> int" where
  "digit_value c = of_char c - 48"

definition digits_value :: "string \<Rightarrow> int" where
  "digits_value s = foldl (\<lambda>n c. n * 10 + digit_value c) 0 (takeWhile (\<lambda>c. 0 \<le> digit_value c \<and> digit_value c \<le> 9) s)"

definition atoi :: "string \<Rightarrow> int" where
  "atoi s =
     (case dropWhile isspace (cstr s) of
        [] \<Rightarrow> 0
      | c # cs \<Rightarrow> if c = CHR ''-'' then - digits_value cs else if c = CHR ''+'' then digits_value cs
                 else digits_value (c # cs))"

section \<open>Sending commands\<close>

definition alloc_message :: "bool \<Rightarrow> Message option" where
  "alloc_message malloc_ok = (if malloc_ok then Some \<lparr>msg_type = MSG_unnamed 0, payload = Zeroed\<rparr> else None)"

definition push_cmd :: "MessageType \<Rightarrow> Payload \<Rightarrow> UIState \<Rightarrow> UIState" where
  "push_cmd t p st = st\<lparr>ui_pushed := ui_pushed st @ [\<lparr>msg_type = t, payload = p\<rparr>]\<rparr>"

definition ui_stop :: "UIState \<Rightarrow> UIState" where
  "ui_stop st = st\<lparr>ui_running := False\<rparr>"

definition net_call :: "NetCall list \<Rightarrow> UIState \<Rightarrow> UIState" where
  "net_call cs st = st\<lparr>ui_net_calls := ui_net_calls st @ cs\<rparr>"

definition ensure_network_connected :: "UIEnv \<Rightarrow> UIState \<Rightarrow> UIState \<times> bool" where
  "ensure_network_connected e st =
     (if ui_is_connected st \<and> ui_net_ctx st \<and> env_connected e then (st, True)
      else
        let st = (if ui_net_ctx st then
                    (net_call [Net_stop, Net_wait, Net_destroy] st)\<lparr>ui_net_ctx := False, ui_is_connected := False\<rparr>
                  else st);
            st = (if env_start_ok e then
                    (net_call [Net_start (cstr (cfg_username (ui_config st))) (cstr (cfg_ip (ui_config st)))
                                 (atoi (cfg_port (ui_config st)))] st)\<lparr>ui_net_ctx := True\<rparr>
                  else st\<lparr>ui_net_ctx := False\<rparr>)
        in if \<not> ui_net_ctx st then
             (st\<lparr>ui_error_message := strncpy (ui_error_message st) ''Failed to connect to server'' 255\<rparr>, False)
           else if \<not> env_connected_after e then
             ((net_call [Net_stop, Net_wait, Net_destroy] st)\<lparr>ui_net_ctx := False,
                ui_error_message := strncpy (ui_error_message st) ''Could not connect to server'' 255\<rparr>, False)
           else (st\<lparr>ui_is_connected := True\<rparr>, True))"

definition do_menu_action :: "UIEnv \<Rightarrow> int \<Rightarrow> UIState \<Rightarrow> UIState" where
  "do_menu_action e action st =
     (if action = 0 then
        (case ensure_network_connected e st of
           (st, ok) \<Rightarrow>
             if ok then
               (case alloc_message (env_malloc e) of
                  Some cmd \<Rightarrow> push_cmd MSG_CREATE_GAME (payload cmd) st
                | None \<Rightarrow> st)
             else st)
      else if action = 1 then
        (case ensure_network_connected e st of
           (st, ok) \<Rightarrow>
             if ok then
               (case alloc_message (env_malloc e) of
                  Some cmd \<Rightarrow> (push_cmd MSG_LIST_GAMES (payload cmd) st)\<lparr>ui_screen := SCREEN_LOBBY\<rparr>
                | None \<Rightarrow> st)
             else st)
      else if action = 2 then
        (case read_config (env_can_write e) (ui_config st) (ui_file st) of
           (ok, config, file) \<Rightarrow>
             st\<lparr>ui_config := config, ui_file := file, ui_settings_active_field := 0,
                ui_settings_mode := SETTINGS_NAV, ui_screen := SCREEN_SETTINGS\<rparr>)
      else if action = 3 then st\<lparr>ui_screen := SCREEN_HELP\<rparr>
      else if action = 4 then ui_stop st
      else st)"

section \<open>The keyboard\<close>

text \<open>One definition per screen; each is one \<open>case\<close> of the switch in \<open>handle_keyboard\<close>.\<close>

definition key_main_menu :: "UIEnv \<Rightarrow> Key \<Rightarrow> UIState \<Rightarrow> UIState" where
  "key_main_menu e ch st =
     (case ch of
        KEY_UP \<Rightarrow> (if 0 < ui_menu_selection st then st\<lparr>ui_menu_selection := ui_menu_selection st - 1\<rparr> else st)
      | KEY_DOWN \<Rightarrow> (if ui_menu_selection st < 4 then st\<lparr>ui_menu_selection := ui_menu_selection st + 1\<rparr> else st)
      | Byte c \<Rightarrow>
          (if c = LF then do_menu_action e (ui_menu_selection st) st
           else if c = ESC then ui_stop st
           else if 1 \<le> digit_value c \<and> digit_value c \<le> 5 then do_menu_action e (digit_value c - 1) st
           else st)
      | _ \<Rightarrow> st)"

definition key_lobby :: "UIEnv \<Rightarrow> Key \<Rightarrow> UIState \<Rightarrow> UIState option" where
  "key_lobby e ch st =
     (case ch of
        Byte c \<Rightarrow>
          (if 1 \<le> digit_value c \<and> digit_value c \<le> 9 then
             let idx = nat (digit_value c - 1)
             in if idx < unat (ui_lobby_count st) then
                  (case alloc_message (env_malloc e) of
                     None \<Rightarrow> Some st
                   | Some cmd \<Rightarrow>
                       if idx < length (ui_lobby_games st) then
                         let game_id = li_game_id (ui_lobby_games st ! idx)
                         in Some ((push_cmd MSG_JOIN_GAME (Join_request (zero_JoinRequestPayload\<lparr>jr_game_id := game_id\<rparr>))
                                    (st\<lparr>ui_current_game_id := game_id\<rparr>))\<lparr>ui_screen := SCREEN_GAME_WAITING\<rparr>)
                       else None)
                else Some st
           else if c = CHR ''r'' \<or> c = CHR ''R'' then
             (case alloc_message (env_malloc e) of
                None \<Rightarrow> Some st
              | Some cmd \<Rightarrow> Some (push_cmd MSG_LIST_GAMES (payload cmd) st))
           else if c = ESC then Some (st\<lparr>ui_screen := SCREEN_MAIN_MENU\<rparr>)
           else Some st)
      | _ \<Rightarrow> Some st)"

text \<open>\<open>MSG_LEAVE_GAME\<close> with the identifier in \<open>payload.move\<close>, then back to the main menu.\<close>

definition push_leave :: "bool \<Rightarrow> UIState \<Rightarrow> UIState" where
  "push_leave malloc_ok st =
     (case alloc_message malloc_ok of
        None \<Rightarrow> st
      | Some cmd \<Rightarrow> push_cmd MSG_LEAVE_GAME (Move (zero_MovePayload\<lparr>mv_game_id := ui_current_game_id st\<rparr>)) st)"

definition key_leave :: "bool \<Rightarrow> UIState \<Rightarrow> UIState" where
  "key_leave malloc_ok st = (push_leave malloc_ok st)\<lparr>ui_current_game_id := 0, ui_screen := SCREEN_MAIN_MENU\<rparr>"

definition key_game_waiting :: "UIEnv \<Rightarrow> Key \<Rightarrow> UIState \<Rightarrow> UIState" where
  "key_game_waiting e ch st = (if ch = Byte ESC then key_leave (env_malloc e) st else st)"

text \<open>Reading \<open>board[r][c]\<close>, and the move both \<open>ENTER\<close> and a click make.\<close>

definition board_cell :: "UIState \<Rightarrow> int \<Rightarrow> int \<Rightarrow> char option" where
  "board_cell st r c =
     (let b = board (ui_game_state st)
      in if 0 \<le> r \<and> nat r < length b \<and> 0 \<le> c \<and> nat c < length (b ! nat r) then Some (b ! nat r ! nat c) else None)"

definition place_move :: "bool \<Rightarrow> int \<Rightarrow> int \<Rightarrow> UIState \<Rightarrow> UIState option" where
  "place_move malloc_ok r c st = do {
     cell \<leftarrow> board_cell st r c;
     if cell = CHR '' '' \<and> current_turn (ui_game_state st) = ui_player_role st then
       (case alloc_message malloc_ok of
          None \<Rightarrow> Some st
        | Some cmd \<Rightarrow> Some (push_cmd MSG_MOVE (Move \<lparr>mv_game_id = ui_current_game_id st,
                               mv_row = word_of_int r, mv_col = word_of_int c\<rparr>) st))
     else Some st }"

definition clicked :: "int \<Rightarrow> int \<Rightarrow> int \<Rightarrow> int option" where
  "clicked origin cell y = find (\<lambda>i. origin + i * cell \<le> y \<and> y \<le> origin + i * cell + (cell - 1)) [0, 1, 2]"

definition key_mouse :: "UIEnv \<Rightarrow> Mouse option \<Rightarrow> UIState \<Rightarrow> UIState option" where
  "key_mouse e m st =
     (case m of
        None \<Rightarrow> Some st
      | Some event \<Rightarrow>
          if mouse_button1 event then
            let start_y = (env_lines e - 8) sdiv 2; start_x = (env_cols e - 19) sdiv 2
            in (case (clicked start_y 3 (mouse_y event), clicked start_x 6 (mouse_x event)) of
                  (Some r, Some c) \<Rightarrow> place_move (env_malloc e) r c (st\<lparr>ui_cursor_row := r, ui_cursor_col := c\<rparr>)
                | _ \<Rightarrow> Some st)
          else Some st)"

definition key_in_game :: "UIEnv \<Rightarrow> Key \<Rightarrow> UIState \<Rightarrow> UIState option" where
  "key_in_game e ch st =
     (case ch of
        KEY_UP \<Rightarrow> Some (st\<lparr>ui_cursor_row := (ui_cursor_row st - 1 + 3) smod 3\<rparr>)
      | KEY_DOWN \<Rightarrow> Some (st\<lparr>ui_cursor_row := (ui_cursor_row st + 1) smod 3\<rparr>)
      | KEY_LEFT \<Rightarrow> Some (st\<lparr>ui_cursor_col := (ui_cursor_col st - 1 + 3) smod 3\<rparr>)
      | KEY_RIGHT \<Rightarrow> Some (st\<lparr>ui_cursor_col := (ui_cursor_col st + 1) smod 3\<rparr>)
      | Byte c \<Rightarrow>
          (if c = LF \<or> c = CHR '' '' then place_move (env_malloc e) (ui_cursor_row st) (ui_cursor_col st) st
           else if c = ESC then Some (key_leave (env_malloc e) st)
           else Some st)
      | KEY_MOUSE m \<Rightarrow> key_mouse e m st
      | _ \<Rightarrow> Some st)"

definition push_decision :: "bool \<Rightarrow> u8 \<Rightarrow> UIState \<Rightarrow> UIState" where
  "push_decision malloc_ok accepted st =
     (case alloc_message malloc_ok of
        None \<Rightarrow> st
      | Some cmd \<Rightarrow> push_cmd MSG_JOIN_DECISION
                     (Join_decision \<lparr>jd_game_id = ui_join_game_id st, jd_accepted = accepted\<rparr>) st)"

definition key_join_request :: "UIEnv \<Rightarrow> Key \<Rightarrow> UIState \<Rightarrow> UIState" where
  "key_join_request e ch st =
     (if ch = Byte CHR ''y'' \<or> ch = Byte CHR ''Y'' then
        (if env_malloc e then (push_decision True 1 st)\<lparr>ui_screen := SCREEN_GAME_WAITING\<rparr> else st)
      else if ch = Byte CHR ''n'' \<or> ch = Byte CHR ''N'' then
        (push_decision (env_malloc e) 0 st)\<lparr>ui_screen := SCREEN_GAME_WAITING\<rparr>
      else if ch = Byte ESC then key_leave (env_malloc_again e) (push_decision (env_malloc e) 0 st)
      else st)"

definition push_post_game :: "bool \<Rightarrow> u8 \<Rightarrow> UIState \<Rightarrow> UIState" where
  "push_post_game malloc_ok continue st =
     (case alloc_message malloc_ok of
        None \<Rightarrow> st
      | Some cmd \<Rightarrow> push_cmd MSG_POST_GAME_OPTIONS
                     (Post_game_options \<lparr>pg_game_id = ui_current_game_id st, pg_continue = continue\<rparr>) st)"

definition key_post_game :: "UIEnv \<Rightarrow> Key \<Rightarrow> UIState \<Rightarrow> UIState" where
  "key_post_game e ch st =
     (if ch = Byte CHR ''y'' \<or> ch = Byte CHR ''Y'' then
        (if env_malloc e then (push_post_game True 1 st)\<lparr>ui_screen := SCREEN_GAME_WAITING\<rparr> else st)
      else if ch = Byte CHR ''n'' \<or> ch = Byte CHR ''N'' \<or> ch = Byte ESC then
        (push_post_game (env_malloc e) 0 st)\<lparr>ui_screen := SCREEN_MAIN_MENU\<rparr>
      else st)"

definition key_game_over :: "UIEnv \<Rightarrow> UIState \<Rightarrow> UIState" where
  "key_game_over e st = key_leave (env_malloc e) st"

text \<open>The settings: editing a field, and moving between the fields.\<close>

definition commit_field :: "UIState \<Rightarrow> string \<Rightarrow> Config" where
  "commit_field st text =
     (let c = ui_config st
      in if ui_settings_active_field st = 0 then c\<lparr>cfg_username := snprintf (cfg_username c) 50 text\<rparr>
         else if ui_settings_active_field st = 1 then c\<lparr>cfg_ip := snprintf (cfg_ip c) 16 text\<rparr>
         else if ui_settings_active_field st = 2 then c\<lparr>cfg_port := snprintf (cfg_port c) 6 text\<rparr>
         else c)"

definition is_printable :: "UIEnv \<Rightarrow> Key \<Rightarrow> bool option" where
  "is_printable e ch = (case ch of Byte c \<Rightarrow> Some (env_isprint e c) | _ \<Rightarrow> None)"

definition key_settings_edit :: "UIEnv \<Rightarrow> Key \<Rightarrow> UIState \<Rightarrow> UIState option" where
  "key_settings_edit e ch st =
     (if ch = Byte LF then do {
        text \<leftarrow> c_text (ui_settings_edit_buf st);
        Some (st\<lparr>ui_config := commit_field st text, ui_settings_mode := SETTINGS_NAV\<rparr>) }
      else if ch = Byte ESC then Some (st\<lparr>ui_settings_mode := SETTINGS_NAV\<rparr>)
      else if ch = KEY_BACKSPACE \<or> ch = Byte CHR 0x7F \<or> ch = Byte CHR 0x08 then do {
        text \<leftarrow> c_text (ui_settings_edit_buf st);
        Some (if text \<noteq> [] then st\<lparr>ui_settings_edit_buf := (ui_settings_edit_buf st)[length text - 1 := NUL]\<rparr>
              else st) }
      else do {
        printable \<leftarrow> is_printable e ch;
        if printable then do {
          text \<leftarrow> c_text (ui_settings_edit_buf st);
          Some (case ch of
            Byte c \<Rightarrow>
              if length text < 31 then
                st\<lparr>ui_settings_edit_buf := (ui_settings_edit_buf st)[length text := c, length text + 1 := NUL]\<rparr>
              else st
          | _ \<Rightarrow> st) }
        else Some st })"

definition open_field :: "UIState \<Rightarrow> UIState option" where
  "open_field st =
     (let edit = (\<lambda>src. do {
            buf \<leftarrow> strcpy (ui_settings_edit_buf st) src;
            Some (st\<lparr>ui_settings_mode := SETTINGS_EDIT, ui_settings_edit_buf := buf\<rparr>) })
      in if ui_settings_active_field st = 0 then edit (cfg_username (ui_config st))
         else if ui_settings_active_field st = 1 then edit (cfg_ip (ui_config st))
         else if ui_settings_active_field st = 2 then edit (cfg_port (ui_config st))
         else Some (st\<lparr>ui_settings_mode := SETTINGS_EDIT\<rparr>))"

definition key_settings_nav :: "UIEnv \<Rightarrow> Key \<Rightarrow> UIState \<Rightarrow> UIState option" where
  "key_settings_nav e ch st =
     (case ch of
        KEY_UP \<Rightarrow> Some (st\<lparr>ui_settings_active_field := (ui_settings_active_field st + 3) smod 4\<rparr>)
      | KEY_DOWN \<Rightarrow> Some (st\<lparr>ui_settings_active_field := (ui_settings_active_field st + 1) smod 4\<rparr>)
      | Byte c \<Rightarrow>
          (if c = CHR 0x09 then Some (st\<lparr>ui_settings_active_field := (ui_settings_active_field st + 1) smod 4\<rparr>)
           else if c = LF then
             (if ui_settings_active_field st = 3 then
                (case save_config (env_can_write e) (ui_config st) (ui_file st) of
                   (ok, file) \<Rightarrow> Some (st\<lparr>ui_file := file, ui_screen := SCREEN_MAIN_MENU\<rparr>))
              else open_field st)
           else if c = ESC then Some (st\<lparr>ui_screen := SCREEN_MAIN_MENU\<rparr>)
           else Some st)
      | _ \<Rightarrow> Some st)"

definition handle_keyboard :: "UIEnv \<Rightarrow> Key \<Rightarrow> UIState \<Rightarrow> UIState option" where
  "handle_keyboard e ch st =
     (if ui_error_message st ! 0 \<noteq> NUL then
        Some (if ch = Byte LF \<or> ch = Byte CHR '' '' \<or> ch = Byte ESC then
                st\<lparr>ui_error_message := zeros (length (ui_error_message st))\<rparr>
              else st)
      else case ui_screen st of
        SCREEN_MAIN_MENU \<Rightarrow> Some (key_main_menu e ch st)
      | SCREEN_LOBBY \<Rightarrow> key_lobby e ch st
      | SCREEN_GAME_WAITING \<Rightarrow> Some (key_game_waiting e ch st)
      | SCREEN_IN_GAME \<Rightarrow> key_in_game e ch st
      | SCREEN_JOIN_REQUEST \<Rightarrow> Some (key_join_request e ch st)
      | SCREEN_POST_GAME \<Rightarrow> Some (key_post_game e ch st)
      | SCREEN_GAME_OVER \<Rightarrow> Some (key_game_over e st)
      | SCREEN_SETTINGS \<Rightarrow>
          (if ui_settings_mode st = SETTINGS_EDIT then key_settings_edit e ch st else key_settings_nav e ch st)
      | SCREEN_HELP \<Rightarrow> Some (st\<lparr>ui_screen := SCREEN_MAIN_MENU\<rparr>)
      | SCREEN_DISCONNECTED \<Rightarrow> Some st)"

section \<open>Events from the network thread\<close>

text \<open>The loop that copies the list of games, over the indices \<open>is\<close>.\<close>

fun copy_lobby_games :: "LobbyGameInfo list \<Rightarrow> nat list \<Rightarrow> LobbyGameInfo list \<Rightarrow> LobbyGameInfo list option" where
  "copy_lobby_games evs [] gs = Some gs"
| "copy_lobby_games evs (i # is) gs =
     (if i < length evs \<and> i < length gs then do {
        name \<leftarrow> copy_text (li_owner_name (gs ! i)) (li_owner_name (evs ! i)) 32;
        copy_lobby_games evs is (gs[i := (gs ! i)\<lparr>li_game_id := li_game_id (evs ! i), li_state := li_state (evs ! i),
          li_owner_name := name,
          li_players_connected := li_players_connected (evs ! i)\<rparr>]) }
      else None)"

definition handle_event :: "UIEnv \<Rightarrow> UIEvent \<Rightarrow> UIState \<Rightarrow> UIState option" where
  "handle_event e ev st =
     (case ev of
        UI_EVENT_GAME_STATE p \<Rightarrow>
          Some (st\<lparr>ui_game_state := gs_state_data p, ui_current_game_id := gs_game_id p, ui_screen := SCREEN_IN_GAME\<rparr>)
      | UI_EVENT_GAME_START p \<Rightarrow>
          Some (st\<lparr>ui_cursor_row := 0, ui_cursor_col := 0, ui_current_game_id := st_game_id p,
                  ui_player_role := st_player_role p, ui_screen := SCREEN_IN_GAME\<rparr>)
      | UI_EVENT_GAME_OVER p \<Rightarrow> do {
          text \<leftarrow> c_text (ov_message p);
          Some (st\<lparr>ui_screen := SCREEN_GAME_OVER, ui_last_game_winner := uint (ov_winner p),
                  ui_post_game_message := snprintf (ui_post_game_message st) 128 (''Game over: '' @ text),
                  ui_disconnected_at := env_time e\<rparr>) }
      | UI_EVENT_LOBBY_UPDATE p \<Rightarrow> do {
          gs \<leftarrow> copy_lobby_games (lu_games p) [0..<unat (lu_game_count p)] (ui_lobby_games st);
          Some (st\<lparr>ui_lobby_count := lu_game_count p, ui_lobby_games := gs\<rparr>) }
      | UI_EVENT_ERROR p \<Rightarrow> do {
          text \<leftarrow> copy_text (ui_error_message st) (err_message p) 256;
          let st = st\<lparr>ui_error_message := text\<rparr>
          in Some (if ui_screen st = SCREEN_GAME_WAITING then
                     st\<lparr>ui_current_game_id := 0, ui_screen := SCREEN_LOBBY\<rparr>
                   else st) }
      | UI_EVENT_JOIN_REQUEST p \<Rightarrow> do {
          name \<leftarrow> copy_text (ui_join_requester_name st) (jr_player_name p) 32;
          Some (st\<lparr>ui_join_requester_name := name,
                  ui_join_game_id := jr_game_id p, ui_screen := SCREEN_JOIN_REQUEST\<rparr>) }
      | UI_EVENT_POST_GAME_OPTIONS p \<Rightarrow>
          Some (st\<lparr>ui_screen := SCREEN_POST_GAME,
                  ui_post_game_message := snprintf (ui_post_game_message st) 128 ''Play again?''\<rparr>)
      | UI_EVENT_DISCONNECTED \<Rightarrow> Some (st\<lparr>ui_screen := SCREEN_DISCONNECTED, ui_disconnected_at := env_time e\<rparr>)
      | UI_EVENT_GAME_STATUS_CHANGE p \<Rightarrow>
          (let st = st\<lparr>ui_current_game_id := sc_game_id p\<rparr>
           in Some (if sc_new_state p = GAME_WAITING then st\<lparr>ui_screen := SCREEN_GAME_WAITING\<rparr> else st))
      | UI_EVENT_JOIN_DECISION p \<Rightarrow> Some st)"

section \<open>The main loop\<close>

definition ui_init :: "Config \<Rightarrow> string option \<Rightarrow> UIState" where
  "ui_init config file =
     \<lparr>ui_screen = SCREEN_MAIN_MENU, ui_current_game_id = 0, ui_player_role = 0, ui_game_state = zero_GameCommonState,
      ui_lobby_games = replicate 10 zero_LobbyGameInfo, ui_lobby_count = 0, ui_error_message = zeros 256,
      ui_join_requester_name = zeros 32, ui_join_game_id = 0, ui_post_game_message = zeros 128,
      ui_cursor_row = 0, ui_cursor_col = 0, ui_disconnected_at = 0, ui_config = config, ui_net_ctx = False,
      ui_is_connected = False, ui_settings_active_field = 0, ui_settings_mode = SETTINGS_NAV,
      ui_settings_edit_buf = zeros 32, ui_menu_selection = 0, ui_last_game_winner = uint (GameResult_code RESULT_NONE),
      ui_running = True, ui_file = file, ui_pushed = [], ui_net_calls = []\<rparr>"

fun handle_events :: "UIEnv \<Rightarrow> UIEvent list \<Rightarrow> UIState \<Rightarrow> UIState option" where
  "handle_events e [] st = Some st"
| "handle_events e (ev # evs) st = do { st \<leftarrow> handle_event e ev st; handle_events e evs st }"

text \<open>
  One turn of the loop: the events that are in the queue, then a key if \<open>getch\<close> has one, then the
  screen is drawn, where a lost connection ends the program after two seconds.
\<close>

record Turn =
  turn_env :: UIEnv
  turn_events :: "UIEvent list"
  turn_key :: "Key option"

definition ui_turn :: "Turn \<Rightarrow> UIState \<Rightarrow> UIState option" where
  "ui_turn t st = do {
     st \<leftarrow> handle_events (turn_env t) (turn_events t) st;
     st \<leftarrow> (case turn_key t of None \<Rightarrow> Some st | Some ch \<Rightarrow> handle_keyboard (turn_env t) ch st);
     Some (if ui_screen st = SCREEN_DISCONNECTED \<and> 2 \<le> env_time (turn_env t) - ui_disconnected_at st then ui_stop st
           else st) }"

fun ui_loop :: "Turn list \<Rightarrow> UIState \<Rightarrow> UIState option" where
  "ui_loop [] st = Some st"
| "ui_loop (t # ts) st = (if ui_running st then do { st \<leftarrow> ui_turn t st; ui_loop ts st } else Some st)"

definition ui_cleanup :: "UIState \<Rightarrow> UIState" where
  "ui_cleanup st = (if ui_net_ctx st then net_call [Net_stop, Net_wait, Net_destroy] st else st)"

definition ui_run :: "Config \<Rightarrow> string option \<Rightarrow> Turn list \<Rightarrow> UIState option" where
  "ui_run config file ts = do { st \<leftarrow> ui_loop ts (ui_init config file); Some (ui_cleanup st) }"

end
