(* ===== verification/UI_Props.thy ===== *)
theory UI_Props
  imports UI
begin

text \<open>
  The user interface: its invariant, which every key and every event keeps, where its behaviour is
  undefined, and what it sends.

  \<^item> \<open>ui_inv\<close>: indices stay within the arrays they are used on, every character array keeps its
    length and a NUL, every command pushed is well-formed, and the calls to the network module form
    complete lives of one context at a time.
  \<^item> \<open>event_safe\<close>: what an event must satisfy for \<open>handle_event\<close> to be defined.
\<close>

section \<open>The invariant\<close>

datatype ctx_life = Gone | Alive | Stopped | Joined

fun net_life :: "NetCall \<Rightarrow> ctx_life \<Rightarrow> ctx_life option" where
  "net_life (Net_start u i p) Gone = Some Alive"
| "net_life Net_stop Alive = Some Stopped"
| "net_life Net_wait Stopped = Some Joined"
| "net_life Net_destroy Joined = Some Gone"
| "net_life c l = None"

fun net_lives :: "NetCall list \<Rightarrow> ctx_life \<Rightarrow> ctx_life option" where
  "net_lives [] l = Some l"
| "net_lives (c # cs) l = do { l \<leftarrow> net_life c l; net_lives cs l }"

lemma net_lives_append: "net_lives (cs @ ds) l = do { l \<leftarrow> net_lives cs l; net_lives ds l }"
  by (induction cs arbitrary: l) (auto split: Option.bind_splits)

definition screen_inv :: "UIState \<Rightarrow> bool" where
  "screen_inv st \<longleftrightarrow>
     ui_cursor_row st \<in> {0, 1, 2} \<and> ui_cursor_col st \<in> {0, 1, 2} \<and> ui_menu_selection st \<in> {0, 1, 2, 3, 4} \<and>
     ui_settings_active_field st \<in> {0, 1, 2, 3} \<and>
     length (board (ui_game_state st)) = 3 \<and> (\<forall>row \<in> set (board (ui_game_state st)). length row = 3)"

definition text_inv :: "UIState \<Rightarrow> bool" where
  "text_inv st \<longleftrightarrow>
     length (ui_lobby_games st) = 10 \<and> (\<forall>g \<in> set (ui_lobby_games st). length (li_owner_name g) = 32 \<and> NUL \<in> set (li_owner_name g)) \<and>
     unat (ui_lobby_count st) \<le> 10 \<and>
     length (ui_error_message st) = 256 \<and> ui_error_message st ! 255 = NUL \<and>
     length (ui_join_requester_name st) = 32 \<and> NUL \<in> set (ui_join_requester_name st) \<and>
     length (ui_post_game_message st) = 128 \<and> NUL \<in> set (ui_post_game_message st) \<and>
     length (ui_settings_edit_buf st) = 32 \<and> NUL \<in> set (ui_settings_edit_buf st) \<and>
     config_ok (ui_config st) \<and> config_terminated (ui_config st)"

definition net_inv :: "UIState \<Rightarrow> bool" where
  "net_inv st \<longleftrightarrow>
     (\<forall>m \<in> set (ui_pushed st). wf_message m) \<and>
     net_lives (ui_net_calls st) Gone = Some (if ui_net_ctx st then Alive else Gone) \<and>
     (ui_is_connected st \<longrightarrow> ui_net_ctx st)"

definition ui_inv :: "UIState \<Rightarrow> bool" where
  "ui_inv st \<longleftrightarrow> screen_inv st \<and> text_inv st \<and> net_inv st"

lemmas ui_inv_defs = ui_inv_def screen_inv_def text_inv_def net_inv_def

named_theorems ui_keeps \<open>operations of the user interface that keep its invariant\<close>

lemma ui_init_inv: "config_ok c \<Longrightarrow> config_terminated c \<Longrightarrow> ui_inv (ui_init c f)"
  by (simp add: ui_inv_defs ui_init_def zero_GameCommonState_def zero_LobbyGameInfo_def zeros_def)

lemma inv_push [ui_keeps]: "ui_inv st \<Longrightarrow> wf_message \<lparr>msg_type = t, payload = p\<rparr> \<Longrightarrow> ui_inv (push_cmd t p st)"
  by (simp add: ui_inv_defs push_cmd_def)

lemma wf_commands [simp]:
  "wf_message \<lparr>msg_type = MSG_CREATE_GAME, payload = p\<rparr>" "wf_message \<lparr>msg_type = MSG_LIST_GAMES, payload = p\<rparr>"
  "wf_message \<lparr>msg_type = MSG_LEAVE_GAME, payload = p\<rparr>" "wf_message \<lparr>msg_type = MSG_MOVE, payload = Move m\<rparr>"
  "wf_message \<lparr>msg_type = MSG_JOIN_GAME, payload = Join_request (zero_JoinRequestPayload\<lparr>jr_game_id := i\<rparr>)\<rparr>"
  "b = 0 \<or> b = 1 \<Longrightarrow> wf_message \<lparr>msg_type = MSG_JOIN_DECISION, payload = Join_decision \<lparr>jd_game_id = i, jd_accepted = b\<rparr>\<rparr>"
  "b = 0 \<or> b = 1 \<Longrightarrow>
   wf_message \<lparr>msg_type = MSG_POST_GAME_OPTIONS, payload = Post_game_options \<lparr>pg_game_id = i, pg_continue = b\<rparr>\<rparr>"
  by (simp_all add: wf_message_def wf_payload_defs zero_JoinRequestPayload_def)

lemma inv_screen [ui_keeps]:
  "ui_inv st \<Longrightarrow> ui_inv (st\<lparr>ui_screen := s\<rparr>)" "ui_inv st \<Longrightarrow> ui_inv (st\<lparr>ui_current_game_id := i\<rparr>)"
  "ui_inv st \<Longrightarrow> ui_inv (ui_stop st)"
  by (simp_all add: ui_inv_defs ui_stop_def)

lemma inv_leave [ui_keeps]: "ui_inv st \<Longrightarrow> ui_inv (push_leave b st)" "ui_inv st \<Longrightarrow> ui_inv (key_leave b st)"
  by (simp_all add: push_leave_def key_leave_def ui_keeps split: option.split)

lemma inv_decisions [ui_keeps]:
  "ui_inv st \<Longrightarrow> a = 0 \<or> a = 1 \<Longrightarrow> ui_inv (push_decision b a st)"
  "ui_inv st \<Longrightarrow> a = 0 \<or> a = 1 \<Longrightarrow> ui_inv (push_post_game b a st)"
  by (auto simp: push_decision_def push_post_game_def intro!: ui_keeps split: option.split)

lemma inv_ensure [ui_keeps]:
  assumes "ui_inv st"
  shows "ui_inv (fst (ensure_network_connected e st))"
proof -
  have l: "net_lives (ui_net_calls st) Gone = Some (if ui_net_ctx st then Alive else Gone)"
    using assms by (simp add: ui_inv_defs)
  have n: "length (strncpy d s 255) = 256 \<and> strncpy d s 255 ! 255 = d ! 255" if "length d = 256" for d s :: string
    using that by (simp add: strncpy_def Let_def nth_append)
  show ?thesis
    using assms l n [of "ui_error_message st"]
    by (auto simp: ensure_network_connected_def ui_inv_defs net_call_def net_lives_append Let_def)
qed

lemma inv_menu_action [ui_keeps]:
  assumes "ui_inv st"
  shows "ui_inv (do_menu_action e a st)"
proof -
  obtain st1 ok where e: "ensure_network_connected e st = (st1, ok)" by (cases "ensure_network_connected e st") auto
  with inv_ensure [OF assms, of e] have st1: "ui_inv st1" by simp
  obtain r c f where r: "read_config (env_can_write e) (ui_config st) (ui_file st) = (r, c, f)"
    by (cases "read_config (env_can_write e) (ui_config st) (ui_file st)") auto
  have "config_ok c" using config_ok_read [OF _ r] assms by (simp add: ui_inv_defs)
  moreover have "config_terminated c" using config_terminated_read [OF _ r] assms by (simp add: ui_inv_defs)
  ultimately have "ui_inv (st\<lparr>ui_config := c, ui_file := f, ui_settings_active_field := 0,
      ui_settings_mode := SETTINGS_NAV, ui_screen := SCREEN_SETTINGS\<rparr>)"
    using assms by (simp add: ui_inv_defs)
  with st1 assms e r show ?thesis by (simp add: do_menu_action_def ui_keeps split: option.split)
qed

lemma inv_main_menu [ui_keeps]: "ui_inv st \<Longrightarrow> ui_inv (key_main_menu e ch st)"
  by (auto simp: key_main_menu_def ui_keeps split: Key.split) (auto simp: ui_inv_defs)

lemma inv_lobby: "ui_inv st \<Longrightarrow> key_lobby e ch st = Some st' \<Longrightarrow> ui_inv st'"
  by (auto simp: key_lobby_def Let_def ui_keeps split: Key.splits if_splits option.splits)

lemma inv_game_waiting [ui_keeps]: "ui_inv st \<Longrightarrow> ui_inv (key_game_waiting e ch st)"
  by (simp add: key_game_waiting_def ui_keeps)

lemma inv_place_move: "ui_inv st \<Longrightarrow> place_move b r c st = Some st' \<Longrightarrow> ui_inv st'"
  by (auto simp: place_move_def ui_keeps split: Option.bind_splits if_splits option.splits)

lemma clicked_cell: "clicked a b y = Some i \<Longrightarrow> i \<in> {0, 1, 2}"
  unfolding clicked_def by (drule find_Some_mem) auto

lemma inv_cursor:
  "ui_inv st \<Longrightarrow> r \<in> {0, 1, 2} \<Longrightarrow> ui_inv (st\<lparr>ui_cursor_row := r\<rparr>)"
  "ui_inv st \<Longrightarrow> c \<in> {0, 1, 2} \<Longrightarrow> ui_inv (st\<lparr>ui_cursor_col := c\<rparr>)"
  "ui_inv st \<Longrightarrow> r \<in> {0, 1, 2} \<Longrightarrow> c \<in> {0, 1, 2} \<Longrightarrow> ui_inv (st\<lparr>ui_cursor_row := r, ui_cursor_col := c\<rparr>)"
  by (simp_all add: ui_inv_defs)

lemma inv_mouse:
  assumes "ui_inv st" "key_mouse e m st = Some st'"
  shows "ui_inv st'"
proof -
  have "ui_inv st'" if "clicked a b y = Some r" "clicked c d x = Some k"
    "place_move ok r k (st\<lparr>ui_cursor_row := r, ui_cursor_col := k\<rparr>) = Some st'" for a b c d x y r k ok
    by (rule inv_place_move [OF inv_cursor(3) [OF assms(1) clicked_cell clicked_cell]]) (fact that)+
  with assms show ?thesis
    unfolding key_mouse_def Let_def by (simp split: option.splits if_splits)
qed

lemma one_smod [simp]: "(1 :: int) smod 3 = 1" "(1 :: int) smod 4 = 1"
  by code_simp+

lemma cursor_mod:
  "x \<in> {0, 1, 2} \<Longrightarrow> (x - 1 + 3) smod 3 \<in> {0, 1, 2} \<and> (x + 1) smod 3 \<in> {0, 1, 2 :: int}"
  by auto

lemma inv_in_game:
  assumes "ui_inv st" "key_in_game e ch st = Some st'"
  shows "ui_inv st'"
proof -
  have c: "ui_cursor_row st \<in> {0, 1, 2}" "ui_cursor_col st \<in> {0, 1, 2}" using assms(1) by (simp_all only: ui_inv_defs)
  note m = cursor_mod [OF c(1), THEN conjunct1] cursor_mod [OF c(1), THEN conjunct2]
    cursor_mod [OF c(2), THEN conjunct1] cursor_mod [OF c(2), THEN conjunct2]
  show ?thesis
  proof (cases ch)
    case (KEY_MOUSE m)
    with assms(2) have "key_mouse e m st = Some st'" by (simp add: key_in_game_def)
    then show ?thesis by (rule inv_mouse [OF assms(1)])
  next
    case (Byte x)
    show ?thesis
    proof (cases "x = LF \<or> x = CHR '' ''")
      case True
      with Byte assms(2) have "place_move (env_malloc e) (ui_cursor_row st) (ui_cursor_col st) st = Some st'"
        by (simp add: key_in_game_def)
      then show ?thesis by (rule inv_place_move [OF assms(1)])
    next
      case False
      with Byte assms(2) have "st' = key_leave (env_malloc e) st \<or> st' = st"
        by (simp add: key_in_game_def split: if_splits)
      then show ?thesis using assms(1) inv_leave(2) by blast
    qed
  qed (use assms m inv_cursor(1,2) [OF assms(1)] in \<open>auto simp: key_in_game_def simp del: insert_iff\<close>)
qed

lemma inv_join_request_key [ui_keeps]: "ui_inv st \<Longrightarrow> ui_inv (key_join_request e ch st)"
  by (simp add: key_join_request_def ui_keeps)

lemma inv_post_game_key [ui_keeps]: "ui_inv st \<Longrightarrow> ui_inv (key_post_game e ch st)"
  by (simp add: key_post_game_def ui_keeps)

lemma c_text_simps:
  "NUL \<in> set a \<Longrightarrow> c_text a = Some (cstr a)" "c_text a = None \<longleftrightarrow> NUL \<notin> set a"
  "c_text a = Some t \<Longrightarrow> t = cstr a"
  by (auto simp: c_text_def split: if_splits)

lemma inv_commit [ui_keeps]:
  "ui_inv st \<Longrightarrow> ui_inv (st\<lparr>ui_config := commit_field st t, ui_settings_mode := m\<rparr>)"
  by (auto simp: ui_inv_defs commit_field_def config_ok_def config_terminated_def length_snprintf
      snprintf_def Let_def)

lemma length_cstr: "NUL \<in> set a \<Longrightarrow> length (cstr a) < length a"
  by (induction a) (auto simp: cstr_def)

lemma inv_edit_buf:
  "ui_inv st \<Longrightarrow> length b = 32 \<Longrightarrow> NUL \<in> set b \<Longrightarrow> ui_inv (st\<lparr>ui_settings_edit_buf := b\<rparr>)"
  by (simp add: ui_inv_defs)

lemma inv_mode [ui_keeps]: "ui_inv st \<Longrightarrow> ui_inv (st\<lparr>ui_settings_mode := m\<rparr>)"
  by (simp add: ui_inv_defs)

lemma inv_settings_edit:
  assumes "ui_inv st" "key_settings_edit e ch st = Some st'"
  shows "ui_inv st'"
proof -
  let ?buf = "ui_settings_edit_buf st"
  have b: "length ?buf = 32" "NUL \<in> set ?buf" using assms(1) by (simp_all add: ui_inv_defs)
  then have n: "length (cstr ?buf) < 32" by (rule_tac length_cstr [THEN order_less_le_trans]) simp_all
  have erased: "ui_inv (st\<lparr>ui_settings_edit_buf := ?buf[length (cstr ?buf) - 1 := NUL]\<rparr>)"
    using assms(1) b n by (intro inv_edit_buf) (auto intro: set_update_memI)
  have typed: "ui_inv (st\<lparr>ui_settings_edit_buf := ?buf[length (cstr ?buf) := c, length (cstr ?buf) + 1 := NUL]\<rparr>)"
    if "length (cstr ?buf) < 31" for c
    using assms(1) b that by (intro inv_edit_buf) (auto intro: set_update_memI)
  consider (enter) "ch = Byte LF" | (esc) "ch = Byte ESC"
    | (erase) "ch \<noteq> Byte LF" "ch \<noteq> Byte ESC" "ch = KEY_BACKSPACE \<or> ch = Byte CHR 0x7F \<or> ch = Byte CHR 0x08"
    | (other) "ch \<noteq> Byte LF" "ch \<noteq> Byte ESC" "\<not> (ch = KEY_BACKSPACE \<or> ch = Byte CHR 0x7F \<or> ch = Byte CHR 0x08)"
    by blast
  then show ?thesis
  proof cases
    case enter
    with assms(2) have "st' = st\<lparr>ui_config := commit_field st (cstr ?buf), ui_settings_mode := SETTINGS_NAV\<rparr>"
      by (simp add: key_settings_edit_def c_text_simps(1) [OF b(2)])
    then show ?thesis by (simp only: inv_commit [OF assms(1)])
  next
    case esc
    with assms(2) have "st' = st\<lparr>ui_settings_mode := SETTINGS_NAV\<rparr>" by (simp add: key_settings_edit_def)
    then show ?thesis by (simp only: inv_mode [OF assms(1)])
  next
    case erase
    with assms(2) have "st' = st\<lparr>ui_settings_edit_buf := ?buf[length (cstr ?buf) - 1 := NUL]\<rparr> \<or> st' = st"
      unfolding key_settings_edit_def c_text_simps(1) [OF b(2)] by (auto split: if_splits)
    then show ?thesis using erased assms(1) by auto
  next
    case other
    then have e: "key_settings_edit e ch st = do {
        printable \<leftarrow> is_printable e ch;
        if printable then
          Some (case ch of
            Byte c \<Rightarrow>
              if length (cstr ?buf) < 31 then
                st\<lparr>ui_settings_edit_buf := ?buf[length (cstr ?buf) := c, length (cstr ?buf) + 1 := NUL]\<rparr>
              else st
          | _ \<Rightarrow> st)
        else Some st }"
      unfolding key_settings_edit_def c_text_simps(1) [OF b(2)] by (simp cong: if_cong)
    show ?thesis
    proof (cases ch)
      case (Byte c)
      with e assms(2) have "st' = st \<or> length (cstr ?buf) < 31 \<and>
          st' = st\<lparr>ui_settings_edit_buf := ?buf[length (cstr ?buf) := c, length (cstr ?buf) + 1 := NUL]\<rparr>"
        by (simp add: is_printable_def split: if_splits)
      then show ?thesis using typed assms(1) by auto
    qed (use e assms(2) in \<open>simp_all add: is_printable_def\<close>)
  qed
qed

lemma inv_open_field:
  assumes "ui_inv st" "open_field st = Some st'"
  shows "ui_inv st'"
proof -
  have "length (ui_settings_edit_buf st) = 32" using assms(1) by (simp add: ui_inv_defs)
  with assms show ?thesis
    by (auto simp: open_field_def strcpy_def Let_def split: if_splits Option.bind_splits)
      (auto simp: ui_inv_defs length_store_text)
qed

lemma inv_field:
  assumes "ui_inv st"
  shows "ui_inv (st\<lparr>ui_settings_active_field := (ui_settings_active_field st + 3) smod 4\<rparr>)"
    and "ui_inv (st\<lparr>ui_settings_active_field := (ui_settings_active_field st + 1) smod 4\<rparr>)"
proof -
  have m: "(x + 3) smod 4 \<in> {0, 1, 2, 3} \<and> (x + 1) smod 4 \<in> {0, 1, 2, 3}" if "x \<in> {0, 1, 2, 3}" for x :: int
    using that by auto
  from assms have "ui_settings_active_field st \<in> {0, 1, 2, 3}" by (simp only: ui_inv_defs)
  from m [OF this] assms show "ui_inv (st\<lparr>ui_settings_active_field := (ui_settings_active_field st + 3) smod 4\<rparr>)"
    "ui_inv (st\<lparr>ui_settings_active_field := (ui_settings_active_field st + 1) smod 4\<rparr>)"
    by (simp_all add: ui_inv_defs)
qed

lemma inv_settings_nav:
  assumes "ui_inv st" "key_settings_nav e ch st = Some st'"
  shows "ui_inv st'"
proof -
  have s: "ui_inv (st\<lparr>ui_file := f, ui_screen := s\<rparr>)" for f s using assms(1) by (simp add: ui_inv_defs)
  show ?thesis
  proof (cases ch)
    case (Byte c)
    consider (tab) "c = CHR 0x09" | (save) "c = LF" "ui_settings_active_field st = 3"
      | (edit) "c = LF" "ui_settings_active_field st \<noteq> 3" | (esc) "c = ESC"
      | (other) "c \<noteq> CHR 0x09" "c \<noteq> LF" "c \<noteq> ESC" by blast
    then show ?thesis
    proof cases
      case tab
      with assms(2) Byte inv_field(2) [OF assms(1)] show ?thesis by (auto simp: key_settings_nav_def)
    next
      case save
      with assms(2) Byte s show ?thesis by (auto simp: key_settings_nav_def split: prod.splits)
    next
      case edit
      with assms(2) Byte have "open_field st = Some st'" by (simp add: key_settings_nav_def)
      then show ?thesis by (rule inv_open_field [OF assms(1)])
    next
      case esc
      with assms(2) Byte inv_screen(1) [OF assms(1)] show ?thesis by (auto simp: key_settings_nav_def)
    next
      case other
      with assms Byte show ?thesis by (simp add: key_settings_nav_def)
    qed
  qed (use assms inv_field [OF assms(1)] in \<open>auto simp: key_settings_nav_def\<close>)
qed

lemma inv_keyboard:
  assumes "ui_inv st" "handle_keyboard e ch st = Some st'"
  shows "ui_inv st'"
proof (cases "ui_error_message st ! 0 \<noteq> NUL")
  case True
  have "ui_inv (st\<lparr>ui_error_message := zeros (length (ui_error_message st))\<rparr>)"
    using assms(1) by (simp add: ui_inv_defs zeros_def)
  with True assms show ?thesis by (auto simp: handle_keyboard_def split: if_splits)
next
  case False
  with assms show ?thesis
    by (cases "ui_screen st") (auto simp: handle_keyboard_def key_game_over_def split: if_splits
        intro: ui_keeps inv_lobby inv_in_game inv_settings_edit inv_settings_nav)
qed

section \<open>Events\<close>

text \<open>
  What \<open>handle_event\<close> needs of an event to be defined: the text of an error and of the end of a game
  ends within its array, and a list of games announces at most the ten games it has room for. The names in a
  list and in a join request need no NUL: they are copied up to one character less than their arrays have.
\<close>

definition event_safe :: "UIEvent \<Rightarrow> bool" where
  "event_safe ev \<longleftrightarrow>
     (case ev of
        UI_EVENT_GAME_OVER p \<Rightarrow> NUL \<in> set (ov_message p)
      | UI_EVENT_ERROR p \<Rightarrow> NUL \<in> set (err_message p)
      | UI_EVENT_LOBBY_UPDATE p \<Rightarrow> unat (lu_game_count p) \<le> 10
      | _ \<Rightarrow> True)"

text \<open>The arrays of an event have their declared lengths.\<close>

definition event_wf :: "UIEvent \<Rightarrow> bool" where
  "event_wf ev \<longleftrightarrow>
     (case ev of
        UI_EVENT_LOBBY_UPDATE p \<Rightarrow> length (lu_games p) = 10 \<and> (\<forall>g \<in> set (lu_games p). length (li_owner_name g) = 32)
      | UI_EVENT_GAME_OVER p \<Rightarrow> length (ov_message p) = 64
      | UI_EVENT_ERROR p \<Rightarrow> length (err_message p) = 64
      | UI_EVENT_JOIN_REQUEST p \<Rightarrow> length (jr_player_name p) = 32
      | UI_EVENT_GAME_STATE p \<Rightarrow>
          length (board (gs_state_data p)) = 3 \<and> (\<forall>row \<in> set (board (gs_state_data p)). length row = 3)
      | _ \<Rightarrow> True)"

definition copied_game :: "LobbyGameInfo \<Rightarrow> LobbyGameInfo \<Rightarrow> LobbyGameInfo" where
  "copied_game ev g = g\<lparr>li_game_id := li_game_id ev, li_state := li_state ev,
     li_owner_name := copy_string (li_owner_name g) (li_owner_name ev) 32,
     li_players_connected := li_players_connected ev\<rparr>"

lemma copy_text_name [simp]: "length src = 32 \<Longrightarrow> copy_text dst src 32 = Some (copy_string dst src 32)"
  by (simp add: copy_text_def)

lemma copy_lobby_games_defined:
  "length evs = 10 \<Longrightarrow> \<forall>g \<in> set evs. length (li_owner_name g) = 32 \<Longrightarrow> length gs = 10 \<Longrightarrow>
   copy_lobby_games evs is gs \<noteq> None \<longleftrightarrow> (\<forall>i \<in> set is. i < 10)"
  by (induction "is" arbitrary: gs) (auto split: Option.bind_splits if_splits)

lemma copy_lobby_games_keeps:
  "copy_lobby_games evs is gs = Some gs' \<Longrightarrow> \<forall>g \<in> set gs. length (li_owner_name g) = 32 \<and> NUL \<in> set (li_owner_name g) \<Longrightarrow>
   length gs' = length gs \<and> (\<forall>g \<in> set gs'. length (li_owner_name g) = 32 \<and> NUL \<in> set (li_owner_name g))"
proof (induction "is" arbitrary: gs)
  case (Cons i "is")
  let ?gs = "gs[i := copied_game (evs ! i) (gs ! i)]"
  from Cons.prems(1) have s: "copy_lobby_games evs is ?gs = Some gs'" and i: "i < length gs"
    by (auto simp: copied_game_def copy_text_def split: if_splits Option.bind_splits)
  have c: "length (li_owner_name (copied_game (evs ! i) (gs ! i))) = 32 \<and>
      NUL \<in> set (li_owner_name (copied_game (evs ! i) (gs ! i)))"
    using Cons.prems(2) i by (simp add: copied_game_def length_copy_string NUL_copy_string)
  have "length (li_owner_name g) = 32 \<and> NUL \<in> set (li_owner_name g)" if "g \<in> set ?gs" for g
  proof -
    from that have "g = copied_game (evs ! i) (gs ! i) \<or> g \<in> set gs"
      using set_update_subset_insert [of gs i] by blast
    then show ?thesis using c Cons.prems(2) by blast
  qed
  with Cons.IH [OF s] show ?case by simp
qed simp

lemma copy_lobby_games_contents:
  assumes "length gs = 10" "length evs = 10" "n \<le> 10" "\<forall>g \<in> set evs. length (li_owner_name g) = 32"
  shows "copy_lobby_games evs [0..<n] gs = Some (map2 copied_game (take n evs) (take n gs) @ drop n gs)"
proof -
  have "copy_lobby_games evs [k..<n] (map2 copied_game (take k evs) (take k gs) @ drop k gs) =
      Some (map2 copied_game (take n evs) (take n gs) @ drop n gs)" if "k \<le> n" for k
    using that
  proof (induction rule: inc_induct)
    case (step k)
    then have k: "k < 10" using assms(3) by simp
    have l: "length (map2 copied_game (take k evs) (take k gs)) = k" using assms k by simp
    have g: "drop k gs = gs ! k # drop (Suc k) gs" using k assms by (simp add: Cons_nth_drop_Suc)
    have "map2 copied_game (take (Suc k) evs) (take (Suc k) gs) =
        map2 copied_game (take k evs) (take k gs) @ [copied_game (evs ! k) (gs ! k)]"
      using k assms by (simp add: take_Suc_conv_app_nth)
    then have u: "(map2 copied_game (take k evs) (take k gs) @ drop k gs)[k := copied_game (evs ! k) (gs ! k)] =
        map2 copied_game (take (Suc k) evs) (take (Suc k) gs) @ drop (Suc k) gs"
      using l g by (simp add: list_update_append)
    have "(map2 copied_game (take k evs) (take k gs) @ drop k gs) ! k = gs ! k"
      using l g by (simp add: nth_append)
    with step k assms u show ?case
      by (simp add: upt_conv_Cons copied_game_def del: upt_Suc)
  qed simp
  from this [of 0] show ?thesis by simp
qed

lemma handle_event_defined:
  assumes "text_inv st" "event_wf ev"
  shows "handle_event e ev st \<noteq> None \<longleftrightarrow> event_safe ev"
proof (cases ev)
  case (UI_EVENT_LOBBY_UPDATE p)
  let ?n = "unat (lu_game_count p)"
  have l: "length (lu_games p) = 10" "\<forall>g \<in> set (lu_games p). length (li_owner_name g) = 32"
    "length (ui_lobby_games st) = 10"
    using assms UI_EVENT_LOBBY_UPDATE by (simp_all add: text_inv_def event_wf_def)
  have "(\<forall>i \<in> set [0..<?n]. i < 10) \<longleftrightarrow> ?n \<le> 10" by (cases "?n \<le> 10") (auto intro!: bexI [of _ 10])
  then have "(\<forall>i \<in> set [0..<?n]. i < 10) \<longleftrightarrow> event_safe ev" by (simp only: UI_EVENT_LOBBY_UPDATE event_safe_def UIEvent.case)
  then have "copy_lobby_games (lu_games p) [0..<?n] (ui_lobby_games st) \<noteq> None \<longleftrightarrow> event_safe ev"
    by (simp only: copy_lobby_games_defined [OF l])
  moreover have "handle_event e ev st = None \<longleftrightarrow> copy_lobby_games (lu_games p) [0..<?n] (ui_lobby_games st) = None"
    by (cases "copy_lobby_games (lu_games p) [0..<?n] (ui_lobby_games st)")
      (simp_all add: UI_EVENT_LOBBY_UPDATE handle_event_def)
  ultimately show ?thesis by (simp only: not_False_eq_True)
qed (use assms(2) in \<open>simp_all add: handle_event_def event_safe_def event_wf_def c_text_def copy_text_def Let_def\<close>)

lemma inv_event:
  assumes "ui_inv st" "event_wf ev" "handle_event e ev st = Some st'"
  shows "ui_inv st'"
proof (cases ev)
  case (UI_EVENT_LOBBY_UPDATE p)
  with assms(3) obtain gs where gs: "copy_lobby_games (lu_games p) [0..<unat (lu_game_count p)] (ui_lobby_games st) = Some gs"
      "st' = st\<lparr>ui_lobby_count := lu_game_count p, ui_lobby_games := gs\<rparr>"
    by (auto simp: handle_event_def split: Option.bind_splits)
  have "event_safe ev" using handle_event_defined [of st ev e] assms by (auto simp: ui_inv_def)
  then have "unat (lu_game_count p) \<le> 10" by (simp add: event_safe_def UI_EVENT_LOBBY_UPDATE)
  then have c: "unat (lu_game_count p) \<le> 10" .
  have i: "text_inv st" "screen_inv st" "net_inv st" using assms(1) by (simp_all add: ui_inv_def)
  have g0: "length (ui_lobby_games st) = 10"
    "\<forall>g \<in> set (ui_lobby_games st). length (li_owner_name g) = 32 \<and> NUL \<in> set (li_owner_name g)"
    using i(1) unfolding text_inv_def by blast+
  have "text_inv st'"
    using i(1) c copy_lobby_games_keeps [OF gs(1) g0(2)] g0(1) unfolding text_inv_def gs(2) by simp
  moreover have "screen_inv st'" "net_inv st'" using i by (simp_all add: screen_inv_def net_inv_def gs(2))
  ultimately show ?thesis by (simp add: ui_inv_def)
next
  case (UI_EVENT_GAME_STATE p)
  with assms show ?thesis
    by (clarsimp simp: handle_event_def) (simp add: ui_inv_defs event_wf_def)
next
  case (UI_EVENT_ERROR p)
  have e: "length (copy_string d s 256) = 256 \<and> copy_string d s 256 ! 255 = NUL" if "length d = 256" for d s
    using that by (simp add: length_copy_string copy_string_def)
  have "ui_inv (st\<lparr>ui_error_message := copy_string (ui_error_message st) (err_message p) 256\<rparr>)"
    using assms(1) e [of "ui_error_message st" "err_message p"] by (simp add: ui_inv_defs)
  with UI_EVENT_ERROR assms(3) show ?thesis
    by (auto simp: handle_event_def copy_text_def Let_def intro: ui_keeps split: Option.bind_splits if_splits)
next
  case (UI_EVENT_GAME_OVER p)
  with assms(1,3) show ?thesis
    by (clarsimp simp: handle_event_def split: Option.bind_splits)
      (simp add: ui_inv_defs length_snprintf snprintf_def Let_def)
next
  case (UI_EVENT_JOIN_REQUEST p)
  with assms show ?thesis
    by (clarsimp simp: handle_event_def event_wf_def split: Option.bind_splits)
      (simp add: ui_inv_defs length_copy_string NUL_copy_string)
next
  case (UI_EVENT_POST_GAME_OPTIONS p)
  with assms(1,3) show ?thesis
    by (clarsimp simp: handle_event_def) (simp add: ui_inv_defs length_snprintf snprintf_def Let_def)
qed (use assms(1,3) in \<open>(clarsimp simp: handle_event_def Let_def; simp add: ui_inv_defs)+\<close>)

section \<open>Where a key press is undefined\<close>

definition key_undefined :: "Key \<Rightarrow> UIState \<Rightarrow> bool" where
  "key_undefined ch st \<longleftrightarrow>
     ui_screen st = SCREEN_SETTINGS \<and> ui_error_message st ! 0 = NUL \<and>
     (if ui_settings_mode st = SETTINGS_EDIT then
        (case ch of Byte c \<Rightarrow> False | KEY_BACKSPACE \<Rightarrow> False | _ \<Rightarrow> True)
      else ch = Byte LF \<and> ui_settings_active_field st = 0 \<and> 32 \<le> length (cstr (cfg_username (ui_config st))))"

lemma lobby_defined: "text_inv st \<Longrightarrow> key_lobby e ch st \<noteq> None"
  by (auto simp: key_lobby_def Let_def text_inv_def split: Key.split option.split)

lemma board_cell_defined:
  assumes "screen_inv st" "r \<in> {0, 1, 2}" "c \<in> {0, 1, 2}"
  shows "board_cell st r c \<noteq> None"
proof -
  have b: "length (board (ui_game_state st)) = 3" "\<forall>row \<in> set (board (ui_game_state st)). length row = 3"
    using assms(1) by (simp_all add: screen_inv_def)
  have i: "nat r < 3" "nat c < 3" "0 \<le> r" "0 \<le> c" using assms(2,3) by auto
  then have "length (board (ui_game_state st) ! nat r) = 3" using b by (simp add: nth_mem)
  with b(1) i show ?thesis by (simp add: board_cell_def Let_def)
qed

lemma place_move_defined:
  assumes "screen_inv st" "r \<in> {0, 1, 2}" "c \<in> {0, 1, 2}"
  shows "place_move b r c st \<noteq> None"
proof -
  obtain x where "board_cell st r c = Some x" using board_cell_defined [OF assms] by blast
  then show ?thesis by (simp add: place_move_def split: option.split)
qed

lemma in_game_defined:
  assumes "screen_inv st"
  shows "key_in_game e ch st \<noteq> None"
proof (cases ch)
  case (KEY_MOUSE m)
  have "screen_inv (st\<lparr>ui_cursor_row := r, ui_cursor_col := c\<rparr>)" if "r \<in> {0, 1, 2}" "c \<in> {0, 1, 2}" for r c
    using that assms by (simp add: screen_inv_def)
  with place_move_defined clicked_cell have "key_mouse e m st \<noteq> None"
    unfolding key_mouse_def Let_def by (auto split: option.split simp del: insert_iff)
  with KEY_MOUSE show ?thesis by (simp add: key_in_game_def)
next
  case (Byte x)
  have "ui_cursor_row st \<in> {0, 1, 2}" "ui_cursor_col st \<in> {0, 1, 2}" using assms by (simp_all only: screen_inv_def)
  then have "place_move b (ui_cursor_row st) (ui_cursor_col st) st \<noteq> None" for b
    by (rule place_move_defined [OF assms])
  with Byte show ?thesis by (simp add: key_in_game_def)
qed (simp_all add: key_in_game_def)

lemma settings_edit_defined:
  assumes "text_inv st"
  shows "key_settings_edit e ch st = None \<longleftrightarrow> (case ch of Byte c \<Rightarrow> False | KEY_BACKSPACE \<Rightarrow> False | _ \<Rightarrow> True)"
proof -
  have "c_text (ui_settings_edit_buf st) = Some (cstr (ui_settings_edit_buf st))"
    using assms by (simp add: text_inv_def c_text_def)
  then show ?thesis by (cases ch) (simp_all add: key_settings_edit_def is_printable_def)
qed

lemma open_field_defined:
  assumes "text_inv st" "ui_settings_active_field st \<noteq> 3"
  shows "open_field st = None \<longleftrightarrow> ui_settings_active_field st = 0 \<and> 32 \<le> length (cstr (cfg_username (ui_config st)))"
proof -
  from assms have c: "length (ui_settings_edit_buf st) = 32" "NUL \<in> set (cfg_username (ui_config st))"
    "NUL \<in> set (cfg_ip (ui_config st))" "NUL \<in> set (cfg_port (ui_config st))"
    "length (cfg_ip (ui_config st)) = 16" "length (cfg_port (ui_config st)) = 6"
    by (simp_all add: text_inv_def config_ok_def config_terminated_def)
  from length_cstr [OF c(3)] length_cstr [OF c(4)] c show ?thesis
    by (simp add: open_field_def Let_def strcpy_def c_text_def)
qed

lemma settings_nav_defined:
  assumes "text_inv st"
  shows "key_settings_nav e ch st = None \<longleftrightarrow> ch = Byte LF \<and> ui_settings_active_field st = 0 \<and>
    32 \<le> length (cstr (cfg_username (ui_config st)))"
  using open_field_defined [OF assms]
  by (cases ch) (auto simp: key_settings_nav_def split: prod.split)

section \<open>Moves\<close>

definition moves :: "UIState \<Rightarrow> Message list" where
  "moves st = filter (\<lambda>m. msg_type m = MSG_MOVE) (ui_pushed st)"

lemma moves_push [simp]:
  "moves (push_cmd t p st) = moves st @ (if t = MSG_MOVE then [\<lparr>msg_type = t, payload = p\<rparr>] else [])"
  by (simp add: moves_def push_cmd_def)

lemma moves_update [simp]:
  "moves (st\<lparr>ui_screen := a\<rparr>) = moves st" "moves (st\<lparr>ui_current_game_id := b\<rparr>) = moves st"
  "moves (st\<lparr>ui_error_message := c\<rparr>) = moves st" "moves (st\<lparr>ui_cursor_row := d\<rparr>) = moves st"
  "moves (st\<lparr>ui_cursor_col := d\<rparr>) = moves st" "moves (st\<lparr>ui_menu_selection := d\<rparr>) = moves st"
  "moves (st\<lparr>ui_settings_active_field := d\<rparr>) = moves st" "moves (st\<lparr>ui_settings_mode := f\<rparr>) = moves st"
  "moves (st\<lparr>ui_settings_edit_buf := c\<rparr>) = moves st" "moves (st\<lparr>ui_config := g\<rparr>) = moves st"
  "moves (st\<lparr>ui_file := h\<rparr>) = moves st" "moves (st\<lparr>ui_net_ctx := i\<rparr>) = moves st"
  "moves (st\<lparr>ui_is_connected := i\<rparr>) = moves st" "moves (ui_stop st) = moves st" "moves (net_call cs st) = moves st"
  by (simp_all add: moves_def ui_stop_def net_call_def)

lemma moves_leave [simp]: "moves (key_leave b st) = moves st"
  by (simp add: key_leave_def push_leave_def split: option.split)

lemma moves_decision [simp]: "moves (push_decision b a st) = moves st" "moves (push_post_game b a st) = moves st"
  by (simp_all add: push_decision_def push_post_game_def split: option.split)

lemma moves_ensure: "ensure_network_connected e st = (st', ok) \<Longrightarrow> moves st' = moves st"
  by (auto simp: ensure_network_connected_def Let_def split: if_splits)

lemma moves_menu [simp]: "moves (do_menu_action e a st) = moves st"
  by (simp add: do_menu_action_def moves_ensure split: prod.split option.split)

lemma moves_place:
  assumes "place_move b r c st = Some st'"
  shows "moves st' = moves st \<or>
    board_cell st r c = Some CHR '' '' \<and> current_turn (ui_game_state st) = ui_player_role st \<and>
    moves st' = moves st @ [\<lparr>msg_type = MSG_MOVE,
      payload = Move \<lparr>mv_game_id = ui_current_game_id st, mv_row = word_of_int r, mv_col = word_of_int c\<rparr>\<rparr>]"
  using assms by (auto simp: place_move_def split: Option.bind_splits if_splits option.splits)

text \<open>A move for a free cell of the board while it is the client's turn.\<close>

definition legal_move :: "UIState \<Rightarrow> Message \<Rightarrow> bool" where
  "legal_move st m \<longleftrightarrow>
     ui_screen st = SCREEN_IN_GAME \<and> current_turn (ui_game_state st) = ui_player_role st \<and>
     msg_type m = MSG_MOVE \<and>
     (case payload m of
        Move p \<Rightarrow> mv_game_id p = ui_current_game_id st \<and> unat (mv_row p) < 3 \<and> unat (mv_col p) < 3 \<and>
          board (ui_game_state st) ! unat (mv_row p) ! unat (mv_col p) = CHR '' ''
      | _ \<Rightarrow> False)"

lemma place_move_legal:
  assumes "place_move b r c st = Some st'" "ui_screen st = SCREEN_IN_GAME" "r \<in> {0, 1, 2}" "c \<in> {0, 1, 2}"
  shows "moves st' = moves st \<or> (\<exists>m. legal_move st m \<and> moves st' = moves st @ [m])"
proof -
  have "unat (word_of_int r :: u8) = nat r" "nat r < 3" "unat (word_of_int c :: u8) = nat c" "nat c < 3"
    using assms(3,4) by auto
  with moves_place [OF assms(1)] assms(2) show ?thesis
    by (auto simp: legal_move_def board_cell_def Let_def split: if_splits)
qed

lemma in_game_moves:
  assumes "ui_inv st" "ui_screen st = SCREEN_IN_GAME" "key_in_game e ch st = Some st'"
  shows "moves st' = moves st \<or> (\<exists>m. legal_move st m \<and> moves st' = moves st @ [m])"
proof -
  have i: "ui_cursor_row st \<in> {0, 1, 2}" "ui_cursor_col st \<in> {0, 1, 2}" using assms(1) by (simp_all only: ui_inv_defs)
  show ?thesis
  proof (cases ch)
    case (KEY_MOUSE m)
    with assms(3) have k: "key_mouse e m st = Some st'" by (simp add: key_in_game_def)
    have "moves st' = moves st \<or> (\<exists>m. legal_move st m \<and> moves st' = moves st @ [m])"
      if "clicked a b y = Some r" "clicked c d x = Some k"
        "place_move ok r k (st\<lparr>ui_cursor_row := r, ui_cursor_col := k\<rparr>) = Some st'" for a b c d x y r k ok
    proof -
      have "legal_move (st\<lparr>ui_cursor_row := r, ui_cursor_col := k\<rparr>) m = legal_move st m" for m
        by (simp add: legal_move_def split: Payload.split)
      with place_move_legal [OF that(3) _ clicked_cell [OF that(1)] clicked_cell [OF that(2)]] assms(2)
      show ?thesis by simp
    qed
    with k show ?thesis unfolding key_mouse_def Let_def by (simp split: option.splits if_splits)
  next
    case (Byte x)
    show ?thesis
    proof (cases "x = LF \<or> x = CHR '' ''")
      case True
      with Byte assms(3) have "place_move (env_malloc e) (ui_cursor_row st) (ui_cursor_col st) st = Some st'"
        by (simp add: key_in_game_def)
      from place_move_legal [OF this assms(2) i] show ?thesis .
    next
      case False
      with Byte assms(3) have "st' = key_leave (env_malloc e) st \<or> st' = st"
        by (simp add: key_in_game_def split: if_splits)
      then show ?thesis by auto
    qed
  qed (use assms(3) in \<open>simp_all add: key_in_game_def\<close>, auto)
qed

lemma other_screens_moves:
  "moves (key_main_menu e ch st) = moves st" "key_lobby e ch st = Some st' \<Longrightarrow> moves st' = moves st"
  "moves (key_game_waiting e ch st) = moves st" "moves (key_join_request e ch st) = moves st"
  "moves (key_post_game e ch st) = moves st"
  by (auto simp: key_main_menu_def key_lobby_def key_game_waiting_def key_join_request_def key_post_game_def Let_def
      split: Key.splits if_splits option.splits)

lemma settings_moves:
  "key_settings_edit e ch st = Some st' \<Longrightarrow> moves st' = moves st"
  "key_settings_nav e ch st = Some st' \<Longrightarrow> moves st' = moves st"
proof -
  show "key_settings_edit e ch st = Some st' \<Longrightarrow> moves st' = moves st"
    by (cases ch) (auto simp: key_settings_edit_def is_printable_def split: if_splits Option.bind_splits)
  have "open_field st = Some st' \<Longrightarrow> moves st' = moves st"
    by (auto simp: open_field_def Let_def split: if_splits Option.bind_splits)
  then show "key_settings_nav e ch st = Some st' \<Longrightarrow> moves st' = moves st"
    by (cases ch) (auto simp: key_settings_nav_def split: if_splits prod.splits)
qed

section \<open>Whole runs\<close>

definition turn_wf :: "Turn \<Rightarrow> bool" where
  "turn_wf t \<longleftrightarrow> (\<forall>ev \<in> set (turn_events t). event_wf ev)"

lemma inv_events: "handle_events e evs st = Some st' \<Longrightarrow> ui_inv st \<Longrightarrow> \<forall>ev \<in> set evs. event_wf ev \<Longrightarrow> ui_inv st'"
  by (induction evs arbitrary: st) (auto split: Option.bind_splits intro: inv_event)

lemma inv_turn:
  assumes "ui_turn t st = Some st'" "ui_inv st" "turn_wf t"
  shows "ui_inv st'"
proof -
  from assms(1) obtain st1 where st1: "handle_events (turn_env t) (turn_events t) st = Some st1"
    by (auto simp: ui_turn_def split: Option.bind_splits)
  with inv_events assms(2,3) have i1: "ui_inv st1" by (auto simp: turn_wf_def)
  from assms(1) st1 obtain st2 where st2: "(case turn_key t of None \<Rightarrow> Some st1
      | Some ch \<Rightarrow> handle_keyboard (turn_env t) ch st1) = Some st2" and s: "st' = st2 \<or> st' = ui_stop st2"
    by (auto simp: ui_turn_def split: Option.bind_splits)
  then have "ui_inv st2" using i1 inv_keyboard by (auto split: option.splits)
  with s show ?thesis by (auto intro: ui_keeps)
qed

lemma inv_loop: "ui_loop ts st = Some st' \<Longrightarrow> ui_inv st \<Longrightarrow> \<forall>t \<in> set ts. turn_wf t \<Longrightarrow> ui_inv st'"
  by (induction ts arbitrary: st) (auto split: if_splits Option.bind_splits intro: inv_turn)

section \<open>The name fits the edit buffer\<close>

text \<open>
  The settings copy the name of up to 49 characters into a buffer of 32 bytes. What follows shows that
  a name that fits stays so: what is typed is shorter than the buffer, what is saved is not read
  back, so that only the configuration of the start and the file found at the start matter.
\<close>

definition file_name_fits :: "string option \<Rightarrow> bool" where
  "file_name_fits f \<longleftrightarrow>
     (case f of None \<Rightarrow> True | Some t \<Rightarrow> (case scan config_format t of [] \<Rightarrow> True | u # us \<Rightarrow> length u < 32))"

definition name_fits :: "Config \<Rightarrow> bool" where
  "name_fits c \<longleftrightarrow> length (cstr (cfg_username c)) < 32"

definition names_fit :: "UIState \<Rightarrow> bool" where
  "names_fit st \<longleftrightarrow> name_fits (ui_config st) \<and> file_name_fits (ui_file st)"

lemma cstr_stored: "length (cstr (store_text a u)) \<le> length u"
proof -
  have "length (takeWhile (\<lambda>c. c \<noteq> NUL) (u @ NUL # t)) \<le> length u" for t by (induction u) simp_all
  then show ?thesis by (simp add: store_text_def cstr_def)
qed

lemma name_fits_assign:
  "name_fits c \<Longrightarrow> (case us of [] \<Rightarrow> True | u # us' \<Rightarrow> length u < 32) \<Longrightarrow> name_fits (assign_fields c us)"
  using cstr_stored [of "cfg_username c" "hd us"]
  by (cases "(c, us)" rule: assign_fields.cases) (simp_all add: name_fits_def)

lemma file_fits_save: "file_name_fits f \<Longrightarrow> file_name_fits (snd (save_config w c f))"
  by (simp add: file_name_fits_def save_config_def scan_saved)

lemma fits_read:
  assumes "name_fits c" "file_name_fits f" "read_config w c f = (ok, c', f')"
  shows "name_fits c' \<and> file_name_fits f'"
proof -
  let ?f = "case f of None \<Rightarrow> snd (save_config w default_config None) | Some t \<Rightarrow> Some t"
  have "file_name_fits ?f"
    using assms(2) by (cases f) (simp_all add: file_fits_save)
  with assms(1,3) show ?thesis
    by (auto simp: read_config_def Let_def file_name_fits_def intro: name_fits_assign split: option.splits)
qed

lemma names_fit_update [simp]:
  "names_fit (st\<lparr>ui_screen := a\<rparr>) = names_fit st" "names_fit (st\<lparr>ui_current_game_id := b\<rparr>) = names_fit st"
  "names_fit (st\<lparr>ui_error_message := c\<rparr>) = names_fit st" "names_fit (st\<lparr>ui_cursor_row := d\<rparr>) = names_fit st"
  "names_fit (st\<lparr>ui_cursor_col := d\<rparr>) = names_fit st" "names_fit (st\<lparr>ui_menu_selection := d\<rparr>) = names_fit st"
  "names_fit (st\<lparr>ui_settings_active_field := d\<rparr>) = names_fit st" "names_fit (st\<lparr>ui_settings_mode := f\<rparr>) = names_fit st"
  "names_fit (st\<lparr>ui_settings_edit_buf := c\<rparr>) = names_fit st" "names_fit (st\<lparr>ui_net_ctx := i\<rparr>) = names_fit st"
  "names_fit (st\<lparr>ui_is_connected := i\<rparr>) = names_fit st" "names_fit (ui_stop st) = names_fit st"
  "names_fit (net_call cs st) = names_fit st" "names_fit (push_cmd t p st) = names_fit st"
  by (simp_all add: names_fit_def ui_stop_def net_call_def push_cmd_def)

lemma names_fit_push [simp]:
  "names_fit (key_leave b st) = names_fit st" "names_fit (push_decision b a st) = names_fit st"
  "names_fit (push_post_game b a st) = names_fit st"
  by (simp_all add: key_leave_def push_leave_def push_decision_def push_post_game_def split: option.split)

lemma names_fit_ensure: "ensure_network_connected e st = (st', ok) \<Longrightarrow> names_fit st' = names_fit st"
  by (auto simp: ensure_network_connected_def Let_def split: if_splits)

lemma names_fit_menu:
  assumes "names_fit st"
  shows "names_fit (do_menu_action e a st)"
proof -
  obtain ok c f where r: "read_config (env_can_write e) (ui_config st) (ui_file st) = (ok, c, f)"
    by (cases "read_config (env_can_write e) (ui_config st) (ui_file st)") auto
  have "name_fits c \<and> file_name_fits f" using fits_read [OF _ _ r] assms by (simp add: names_fit_def)
  then show ?thesis
    using assms r by (auto simp: do_menu_action_def names_fit_ensure names_fit_def [of "_\<lparr>ui_config := _\<rparr>"] split: prod.split option.split)
      (simp_all add: names_fit_def)
qed

lemma names_fit_place: "place_move b r c st = Some st' \<Longrightarrow> names_fit st' = names_fit st"
  by (auto simp: place_move_def split: Option.bind_splits if_splits option.splits)

lemma names_fit_screens:
  "names_fit st \<Longrightarrow> names_fit (key_main_menu e ch st)" "key_lobby e ch st = Some st' \<Longrightarrow> names_fit st' = names_fit st"
  "names_fit (key_game_waiting e ch st) = names_fit st" "names_fit (key_join_request e ch st) = names_fit st"
  "names_fit (key_post_game e ch st) = names_fit st" "names_fit (key_game_over e st) = names_fit st"
  by (auto simp: key_main_menu_def key_lobby_def key_game_waiting_def key_join_request_def key_post_game_def
      key_game_over_def Let_def names_fit_menu split: Key.splits if_splits option.splits)

lemma names_fit_in_game: "key_in_game e ch st = Some st' \<Longrightarrow> names_fit st' = names_fit st"
  by (auto simp: key_in_game_def key_mouse_def Let_def dest!: names_fit_place split: Key.splits if_splits option.splits)

lemma name_fits_commit:
  assumes "text_inv st" "name_fits (ui_config st)"
  shows "name_fits (commit_field st (cstr (ui_settings_edit_buf st)))"
proof -
  have "length (cstr (ui_settings_edit_buf st)) < 32"
    using length_cstr [of "ui_settings_edit_buf st"] assms(1) by (simp add: text_inv_def)
  then show ?thesis using assms(2) by (simp add: name_fits_def commit_field_def cstr_snprintf Let_def)
qed

lemma names_fit_settings:
  "text_inv st \<Longrightarrow> names_fit st \<Longrightarrow> key_settings_edit e ch st = Some st' \<Longrightarrow> names_fit st'"
  "names_fit st \<Longrightarrow> key_settings_nav e ch st = Some st' \<Longrightarrow> names_fit st'"
proof -
  show "names_fit st'" if t: "text_inv st" and n: "names_fit st" and k: "key_settings_edit e ch st = Some st'"
  proof (cases "ch = Byte LF")
    case True
    have "c_text (ui_settings_edit_buf st) = Some (cstr (ui_settings_edit_buf st))"
      using t by (simp add: text_inv_def c_text_def)
    with True k have "st' = st\<lparr>ui_config := commit_field st (cstr (ui_settings_edit_buf st)), ui_settings_mode := SETTINGS_NAV\<rparr>"
      by (simp add: key_settings_edit_def)
    with name_fits_commit [OF t] n show ?thesis by (simp add: names_fit_def)
  next
    case False
    with k n show ?thesis
      by (cases ch) (auto simp: key_settings_edit_def is_printable_def split: if_splits Option.bind_splits)
  qed
  have "open_field st = Some st' \<Longrightarrow> names_fit st' = names_fit st"
    by (auto simp: open_field_def Let_def split: if_splits Option.bind_splits)
  moreover have "names_fit (st\<lparr>ui_file := f\<rparr>)" if "names_fit st" "save_config w (ui_config st) (ui_file st) = (ok, f)" for w ok f
    using that file_fits_save [of "ui_file st" w "ui_config st"] by (simp add: names_fit_def)
  ultimately show "names_fit st \<Longrightarrow> key_settings_nav e ch st = Some st' \<Longrightarrow> names_fit st'"
    by (cases ch) (auto simp: key_settings_nav_def split: if_splits prod.splits)
qed

lemma names_fit_keyboard:
  assumes "ui_inv st" "names_fit st" "handle_keyboard e ch st = Some st'"
  shows "names_fit st'"
  using assms names_fit_settings [of st e ch st'] names_fit_screens names_fit_in_game [of e ch st st']
  by (cases "ui_screen st") (auto simp: handle_keyboard_def ui_inv_def split: if_splits)

lemma names_fit_event: "handle_event e ev st = Some st' \<Longrightarrow> names_fit st' = names_fit st"
  by (cases ev) (auto simp: handle_event_def names_fit_def Let_def split: Option.bind_splits if_splits)

lemma names_fit_events: "handle_events e evs st = Some st' \<Longrightarrow> names_fit st' = names_fit st"
  by (induction evs arbitrary: st) (auto simp: names_fit_event split: Option.bind_splits)

section \<open>Runs that stay within the arrays\<close>

definition editing :: "UIState \<Rightarrow> bool" where
  "editing st \<longleftrightarrow> ui_screen st = SCREEN_SETTINGS \<and> ui_settings_mode st = SETTINGS_EDIT \<and> ui_error_message st ! 0 = NUL"

definition no_character :: "Key \<Rightarrow> bool" where
  "no_character ch \<longleftrightarrow> (case ch of Byte c \<Rightarrow> False | KEY_BACKSPACE \<Rightarrow> False | _ \<Rightarrow> True)"

text \<open>A turn in which a key that is no character is pressed while a field is edited.\<close>

definition stray_key :: "Turn \<Rightarrow> UIState \<Rightarrow> bool" where
  "stray_key t st \<longleftrightarrow>
     (case (handle_events (turn_env t) (turn_events t) st, turn_key t) of
        (Some st1, Some ch) \<Rightarrow> editing st1 \<and> no_character ch
      | _ \<Rightarrow> False)"

definition turn_safe :: "Turn \<Rightarrow> bool" where
  "turn_safe t \<longleftrightarrow> (\<forall>ev \<in> set (turn_events t). event_wf ev \<and> event_safe ev)"

lemma key_undefined_fits: "names_fit st \<Longrightarrow> key_undefined ch st \<longleftrightarrow> editing st \<and> no_character ch"
  by (cases "ui_settings_mode st") (auto simp: key_undefined_def editing_def no_character_def names_fit_def name_fits_def)

lemma events_defined:
  "ui_inv st \<Longrightarrow> \<forall>ev \<in> set evs. event_wf ev \<and> event_safe ev \<Longrightarrow> \<exists>st'. handle_events e evs st = Some st' \<and> ui_inv st'"
proof (induction evs arbitrary: st)
  case (Cons ev evs)
  then obtain u1 where u1: "handle_event e ev st = Some u1"
    using handle_event_defined [of st ev e] by (auto simp: ui_inv_def)
  with inv_event [of st ev e u1] Cons.prems have "ui_inv u1" by simp
  with Cons u1 show ?case by simp
qed simp

lemma keyboard_defined:
  assumes "ui_inv st"
  shows "handle_keyboard e ch st = None \<longleftrightarrow> key_undefined ch st"
proof -
  have i: "screen_inv st" "text_inv st" using assms by (simp_all add: ui_inv_def)
  show ?thesis
    using lobby_defined [OF i(2)] in_game_defined [OF i(1)] settings_edit_defined [OF i(2)] settings_nav_defined [OF i(2)]
    by (cases "ui_screen st") (auto simp: handle_keyboard_def key_undefined_def simp del: not_None_eq)
qed

lemma turn_defined:
  assumes "ui_inv st" "names_fit st" "turn_safe t"
  shows "ui_turn t st = None \<longleftrightarrow> stray_key t st"
    and "ui_turn t st = Some st' \<Longrightarrow> ui_inv st' \<and> names_fit st'"
proof -
  obtain st1 where st1: "handle_events (turn_env t) (turn_events t) st = Some st1" "ui_inv st1"
    using events_defined [OF assms(1), of "turn_events t"] assms(3) unfolding turn_safe_def by blast
  have n1: "names_fit st1" using names_fit_events [OF st1(1)] assms(2) by simp
  have k: "handle_keyboard e ch st1 = None \<longleftrightarrow> editing st1 \<and> no_character ch" for e ch
    by (simp only: keyboard_defined [OF st1(2)] key_undefined_fits [OF n1])
  show "ui_turn t st = None \<longleftrightarrow> stray_key t st"
  proof (cases "turn_key t")
    case (Some ch)
    with k [of "turn_env t" ch] show ?thesis
      by (cases "handle_keyboard (turn_env t) ch st1") (simp_all add: ui_turn_def stray_key_def st1(1))
  qed (simp add: ui_turn_def stray_key_def st1(1))
  have w: "turn_wf t" using assms(3) by (simp add: turn_safe_def turn_wf_def)
  assume t: "ui_turn t st = Some st'"
  then obtain st2 where "(case turn_key t of None \<Rightarrow> Some st1
      | Some ch \<Rightarrow> handle_keyboard (turn_env t) ch st1) = Some st2" and s: "st' = st2 \<or> st' = ui_stop st2"
    by (auto simp: ui_turn_def st1(1) split: Option.bind_splits)
  then have "names_fit st2" using n1 names_fit_keyboard [OF st1(2) n1] by (auto split: option.splits)
  with s inv_turn [OF t assms(1) w] show "ui_inv st' \<and> names_fit st'" by auto
qed

text \<open>The run stops at the first stray key, and only there.\<close>

definition stray_key_in :: "Turn list \<Rightarrow> UIState \<Rightarrow> bool" where
  "stray_key_in ts st \<longleftrightarrow>
     (\<exists>ts1 t ts2 st1. ts = ts1 @ t # ts2 \<and> ui_loop ts1 st = Some st1 \<and> ui_running st1 \<and> stray_key t st1)"

lemma stray_key_in_Cons:
  assumes "ui_running st" "ui_turn t st = Some st'"
  shows "stray_key_in (t # ts) st \<longleftrightarrow> stray_key t st \<or> stray_key_in ts st'"
proof
  assume "stray_key_in (t # ts) st"
  then obtain ts1 u ts2 st1 where d: "t # ts = ts1 @ u # ts2" "ui_loop ts1 st = Some st1" "ui_running st1" "stray_key u st1"
    unfolding stray_key_in_def by blast
  show "stray_key t st \<or> stray_key_in ts st'"
  proof (cases ts1)
    case Nil
    with d show ?thesis by simp
  next
    case (Cons t' ts1')
    with d assms have "ts = ts1' @ u # ts2" "ui_loop ts1' st' = Some st1" by simp_all
    with d(3,4) show ?thesis unfolding stray_key_in_def by blast
  qed
next
  assume "stray_key t st \<or> stray_key_in ts st'"
  then show "stray_key_in (t # ts) st"
  proof
    assume s: "stray_key t st"
    have "t # ts = [] @ t # ts" "ui_loop [] st = Some st" by simp_all
    with s assms(1) show ?thesis unfolding stray_key_in_def by blast
  next
    assume "stray_key_in ts st'"
    then obtain ts1 u ts2 st1 where d: "ts = ts1 @ u # ts2" "ui_loop ts1 st' = Some st1" "ui_running st1" "stray_key u st1"
      unfolding stray_key_in_def by blast
    then have "t # ts = (t # ts1) @ u # ts2" "ui_loop (t # ts1) st = Some st1" using assms by simp_all
    with d(3,4) show ?thesis unfolding stray_key_in_def by blast
  qed
qed

lemma loop_defined:
  "ui_inv st \<Longrightarrow> names_fit st \<Longrightarrow> \<forall>t \<in> set ts. turn_safe t \<Longrightarrow>
   (ui_loop ts st = None \<longleftrightarrow> stray_key_in ts st) \<and> (\<forall>st'. ui_loop ts st = Some st' \<longrightarrow> ui_inv st')"
proof (induction ts arbitrary: st)
  case Nil
  then show ?case by (simp add: stray_key_in_def)
next
  case (Cons t ts)
  note d = turn_defined [OF Cons.prems(1,2), of t]
  show ?case
  proof (cases "ui_running st")
    case False
    have "ui_loop us st = Some st" for us using False by (cases us) simp_all
    with False Cons.prems(1) show ?thesis by (auto simp: stray_key_in_def)
  next
    case True
    show ?thesis
    proof (cases "ui_turn t st")
      case None
      with d(1) Cons.prems(3) have s: "stray_key t st" by simp
      have "t # ts = [] @ t # ts" "ui_loop [] st = Some st" by simp_all
      with s True have "stray_key_in (t # ts) st" unfolding stray_key_in_def by blast
      with None True show ?thesis by simp
    next
      case (Some st')
      with d Cons.prems(3) have i: "ui_inv st'" "names_fit st'" "\<not> stray_key t st" by auto
      from Cons.IH [OF i(1,2)] Cons.prems(3) have
        "(ui_loop ts st' = None \<longleftrightarrow> stray_key_in ts st') \<and> (\<forall>st2. ui_loop ts st' = Some st2 \<longrightarrow> ui_inv st2)" by simp
      with Some True i(3) show ?thesis by (simp add: stray_key_in_Cons [OF True Some])
    qed
  qed
qed

section \<open>States of the witnesses\<close>

definition calm_env :: UIEnv where
  "calm_env = \<lparr>env_malloc = True, env_malloc_again = True, env_connected = True, env_start_ok = True,
     env_connected_after = True, env_can_write = True, env_time = 0, env_lines = 24, env_cols = 80,
     env_isprint = (\<lambda>c. True)\<rparr>"

definition first_state :: UIState where
  "first_state = ui_init default_config None"

lemma first_state_inv: "ui_inv first_state"
  unfolding first_state_def by (rule ui_init_inv) (simp_all add: default_config_def config_ok_def config_terminated_def zeros_def)

definition blank_game :: GameCommonState where
  "blank_game = zero_GameCommonState\<lparr>board := replicate 3 ''   ''\<rparr>"

definition playing_state :: UIState where
  "playing_state = first_state\<lparr>ui_screen := SCREEN_IN_GAME, ui_game_state := blank_game, ui_current_game_id := 4\<rparr>"

lemma playing_state_inv: "ui_inv playing_state"
  using first_state_inv
  by (simp add: playing_state_def blank_game_def ui_inv_defs)

text \<open>A name of 40 characters, which the protocol's 32 bytes cut but the configuration holds.\<close>

definition long_name_state :: UIState where
  "long_name_state = first_state\<lparr>ui_screen := SCREEN_SETTINGS,
     ui_config := default_config\<lparr>cfg_username := replicate 40 CHR ''a'' @ zeros 10\<rparr>\<rparr>"

lemma long_name_state_inv: "ui_inv long_name_state"
  using first_state_inv
  by (simp add: long_name_state_def ui_inv_defs config_ok_def config_terminated_def default_config_def zeros_def)

definition eleven_games :: UIEvent where
  "eleven_games = UI_EVENT_LOBBY_UPDATE \<lparr>lu_game_count = 11, lu_games = replicate 10 zero_LobbyGameInfo\<rparr>"

text \<open>A join request whose name fills its array, without a NUL.\<close>

definition unended_name :: UIEvent where
  "unended_name = UI_EVENT_JOIN_REQUEST \<lparr>jr_game_id = 3, jr_player_id = 0, jr_player_name = replicate 32 CHR ''a''\<rparr>"

definition one_game :: LobbyUpdatePayload where
  "one_game = \<lparr>lu_game_count = 1, lu_games = zero_LobbyGameInfo\<lparr>li_game_id := 7\<rparr> # replicate 9 zero_LobbyGameInfo\<rparr>"

text \<open>The player creates a game, it starts, the player makes a move, leaves and quits.\<close>

definition session_turns :: "Turn list" where
  "session_turns =
     [\<lparr>turn_env = calm_env, turn_events = [], turn_key = Some (Byte CHR ''1'')\<rparr>,
      \<lparr>turn_env = calm_env,
       turn_events = [UI_EVENT_GAME_START \<lparr>st_game_id = 4, st_player_role = PLAYER_X, st_first_player = PLAYER_X\<rparr>,
         UI_EVENT_GAME_STATE \<lparr>gs_game_id = 4, gs_state_data = blank_game, gs_message = zeros 64\<rparr>],
       turn_key = Some (Byte CHR '' '')\<rparr>,
      \<lparr>turn_env = calm_env, turn_events = [], turn_key = Some (Byte ESC)\<rparr>,
      \<lparr>turn_env = calm_env, turn_events = [], turn_key = Some (Byte ESC)\<rparr>]"

section \<open>Properties\<close>

text \<open>C32. What the keyboard can do to memory, exactly: in a state of the user interface, a key press is
  defined except in the settings, where there are two ways out of bounds. Pressing ENTER on the name
  copies the 50-byte name into the 32-byte edit buffer, which overflows when the name has 32
  characters or more; and while a field is edited, an arrow key or a mouse click hands \<open>isprint\<close> a
  code that is no character.\<close>

theorem key_undefined_iff:
  assumes "ui_inv st"
  shows "handle_keyboard e ch st = None \<longleftrightarrow> key_undefined ch st"
  by (rule keyboard_defined [OF assms])

theorem key_undefined_iff_witness:
  "handle_keyboard calm_env (Byte LF) long_name_state = None \<and>
   handle_keyboard calm_env (Byte CHR ''q'') long_name_state \<noteq> None"
proof -
  have "key_undefined (Byte LF) long_name_state" "\<not> key_undefined (Byte CHR ''q'') long_name_state" by code_simp+
  then show ?thesis using key_undefined_iff [OF long_name_state_inv] by blast
qed

text \<open>C33. A network event is handled within bounds exactly when it announces at most ten games and the text
  of an error or of the end of a game ends within its array; neither is checked anywhere between the
  socket and this code. Names without a NUL do no harm.\<close>

theorem event_defined_iff:
  assumes "ui_inv st" and "event_wf ev"
  shows "handle_event e ev st \<noteq> None \<longleftrightarrow> event_safe ev"
  using handle_event_defined assms by (simp add: ui_inv_def)

theorem event_defined_iff_witness:
  "handle_event calm_env eleven_games first_state = None \<and>
   handle_event calm_env (UI_EVENT_ERROR \<lparr>err_message = replicate 64 CHR ''x''\<rparr>) first_state = None \<and>
   handle_event calm_env unended_name first_state \<noteq> None"
proof -
  let ?err = "UI_EVENT_ERROR \<lparr>err_message = replicate 64 CHR ''x''\<rparr>"
  have w: "event_wf eleven_games" "event_wf ?err" "event_wf unended_name" by code_simp+
  have "\<not> event_safe eleven_games" "\<not> event_safe ?err" "event_safe unended_name" by code_simp+
  then show ?thesis
    using event_defined_iff [OF first_state_inv w(1)] event_defined_iff [OF first_state_inv w(2)]
      event_defined_iff [OF first_state_inv w(3)] by blast
qed

text \<open>C31. The user interface only sends moves that the rules allow in the state it shows: a key press
  pushes at most one \<open>MSG_MOVE\<close>, and then the game is on the screen, it is the client's turn, and
  the cell is on the board and free.\<close>

theorem only_legal_moves:
  assumes "ui_inv st" and "handle_keyboard e ch st = Some st'"
  shows "moves st' = moves st \<or> (\<exists>m. legal_move st m \<and> moves st' = moves st @ [m])"
proof (cases "ui_error_message st ! 0 = NUL")
  case True
  with assms show ?thesis
    using in_game_moves [of st e ch st'] other_screens_moves settings_moves [of e ch st st']
    by (cases "ui_screen st") (auto simp: handle_keyboard_def key_game_over_def split: if_splits)
next
  case False
  with assms(2) show ?thesis by (auto simp: handle_keyboard_def split: if_splits)
qed

theorem only_legal_moves_witness:
  "\<exists>st' m. handle_keyboard calm_env (Byte LF) playing_state = Some st' \<and> legal_move playing_state m \<and> moves st' = [m]"
proof -
  have "map_option (\<lambda>st. length (moves st)) (handle_keyboard calm_env (Byte LF) playing_state) = Some 1" by code_simp
  then obtain st' where s: "handle_keyboard calm_env (Byte LF) playing_state = Some st'" and l: "length (moves st') = 1"
    by auto
  have "moves playing_state = []" by code_simp
  with only_legal_moves [OF playing_state_inv s] l obtain m where "legal_move playing_state m" "moves st' = [m]" by auto
  with s show ?thesis by blast
qed

text \<open>C25. A whole run of the user interface, from the start to the cleanup. When the events are ones that
  are handled within bounds and the names of the configuration and of its file have fewer than 32
  characters, the run is defined for any keys, except exactly when a key that is no character (an arrow
  key, a mouse click) is pressed while a field is edited. And then the cursor, the menu and the settings
  stay on their fields, every text stays within its array and ends there, every command is one the
  protocol can encode, and the network contexts live one at a time, each started, stopped,
  waited for and destroyed, with none left at the end.\<close>

theorem ui_run_keeps_order:
  assumes "config_ok config" and "config_terminated config" and "name_fits config" and "file_name_fits file"
    and "\<forall>t \<in> set ts. turn_safe t"
  shows "(ui_run config file ts = None \<longleftrightarrow> stray_key_in ts (ui_init config file)) \<and>
    (\<forall>st. ui_run config file ts = Some st \<longrightarrow>
      screen_inv st \<and> text_inv st \<and> (\<forall>m \<in> set (ui_pushed st). wf_message m) \<and>
      net_lives (ui_net_calls st) Gone = Some Gone)"
proof -
  have i: "ui_inv (ui_init config file)" by (rule ui_init_inv [OF assms(1,2)])
  have n: "names_fit (ui_init config file)" using assms(3,4) by (simp add: names_fit_def ui_init_def)
  have c: "screen_inv (ui_cleanup st) \<and> text_inv (ui_cleanup st) \<and> (\<forall>m \<in> set (ui_pushed (ui_cleanup st)). wf_message m) \<and>
      net_lives (ui_net_calls (ui_cleanup st)) Gone = Some Gone" if "ui_inv st" for st
    using that by (simp add: ui_inv_def ui_cleanup_def net_call_def screen_inv_def text_inv_def net_inv_def net_lives_append)
  show ?thesis
  proof (cases "ui_loop ts (ui_init config file)")
    case (Some st)
    with loop_defined [OF i n assms(5)] have "\<not> stray_key_in ts (ui_init config file)" "ui_inv st" by simp_all
    with c [of st] Some show ?thesis by (simp add: ui_run_def)
  qed (use loop_defined [OF i n assms(5)] in \<open>simp add: ui_run_def\<close>)
qed

text \<open>A run that opens a field and presses an arrow key there.\<close>

definition stray_turns :: "Turn list" where
  "stray_turns = map (\<lambda>ch. \<lparr>turn_env = calm_env, turn_events = [], turn_key = Some ch\<rparr>) [Byte CHR ''3'', Byte LF, KEY_UP]"

theorem ui_run_keeps_order_witness:
  "(\<exists>st. ui_run default_config None session_turns = Some st \<and> length (ui_pushed st) = 3 \<and>
     net_lives (ui_net_calls st) Gone = Some Gone \<and> ui_net_calls st \<noteq> [] \<and> text_inv st) \<and>
   stray_key_in stray_turns (ui_init default_config None)"
proof -
  have "map_option (\<lambda>st. (length (ui_pushed st), length (ui_net_calls st))) (ui_run default_config None session_turns) =
      Some (3, 4)" by code_simp
  then obtain st where st: "ui_run default_config None session_turns = Some st" "length (ui_pushed st) = 3"
    "length (ui_net_calls st) = 4" by auto
  have "list_all turn_safe session_turns" "list_all turn_safe stray_turns" by code_simp+
  then have w: "\<forall>t \<in> set session_turns. turn_safe t" "\<forall>t \<in> set stray_turns. turn_safe t" by (simp_all add: list_all_iff)
  have c: "config_ok default_config" "config_terminated default_config" "name_fits default_config" "file_name_fits None"
    by code_simp+
  have "ui_run default_config None stray_turns = None" by code_simp
  then have "stray_key_in stray_turns (ui_init default_config None)"
    using ui_run_keeps_order [OF c w(2)] by blast
  with ui_run_keeps_order [OF c w(1)] st show ?thesis by auto
qed

text \<open>What the player sees is what the player joins: after a list of games from the server, pressing
  a digit in the lobby asks to join the game that stands at this place of the server's list, and
  waits for the answer; a digit beyond the list does nothing.\<close>

theorem join_by_number:
  assumes "ui_inv st" and "ui_screen st = SCREEN_LOBBY" and "ui_error_message st ! 0 = NUL"
    and "event_wf (UI_EVENT_LOBBY_UPDATE p)" and "handle_event e (UI_EVENT_LOBBY_UPDATE p) st = Some st1"
    and "digit_value c = int k + 1" and "k < 9" and "env_malloc e'"
  shows "handle_keyboard e' (Byte c) st1 = Some
    (if k < unat (lu_game_count p) then
       let game_id = li_game_id (lu_games p ! k)
       in st1\<lparr>ui_screen := SCREEN_GAME_WAITING, ui_current_game_id := game_id,
              ui_pushed := ui_pushed st @
                [\<lparr>msg_type = MSG_JOIN_GAME, payload = Join_request (zero_JoinRequestPayload\<lparr>jr_game_id := game_id\<rparr>)\<rparr>]\<rparr>
     else st1)"
proof -
  let ?n = "unat (lu_game_count p)"
  have l: "length (ui_lobby_games st) = 10" "length (lu_games p) = 10"
    and names: "\<forall>g \<in> set (lu_games p). length (li_owner_name g) = 32"
    using assms(1,4) by (simp_all add: ui_inv_defs event_wf_def)
  have safe: "event_safe (UI_EVENT_LOBBY_UPDATE p)"
    using handle_event_defined [of st "UI_EVENT_LOBBY_UPDATE p" e] assms(1,4,5) by (simp add: ui_inv_def)
  then have n: "?n \<le> 10" by (simp add: event_safe_def)
  let ?gs = "map2 copied_game (take ?n (lu_games p)) (take ?n (ui_lobby_games st)) @ drop ?n (ui_lobby_games st)"
  have st1: "st1 = st\<lparr>ui_lobby_count := lu_game_count p, ui_lobby_games := ?gs\<rparr>"
    using assms(5) copy_lobby_games_contents [OF l n names] by (simp add: handle_event_def)
  have id: "li_game_id (?gs ! k) = li_game_id (lu_games p ! k)" if "k < ?n"
    using that n l by (simp add: nth_append copied_game_def)
  have k: "1 \<le> digit_value c" "digit_value c \<le> 9" "nat (digit_value c - 1) = k" using assms(6,7) by simp_all
  then have "key_lobby e' (Byte c) st1 = Some
    (if k < ?n then
       let game_id = li_game_id (lu_games p ! k)
       in st1\<lparr>ui_screen := SCREEN_GAME_WAITING, ui_current_game_id := game_id,
              ui_pushed := ui_pushed st @
                [\<lparr>msg_type = MSG_JOIN_GAME, payload = Join_request (zero_JoinRequestPayload\<lparr>jr_game_id := game_id\<rparr>)\<rparr>]\<rparr>
     else st1)"
    using id l n assms(7,8) unfolding key_lobby_def Key.case Let_def
    by (simp add: alloc_message_def push_cmd_def st1)
  then show ?thesis using assms(2,3) by (simp add: handle_keyboard_def st1)
qed

theorem join_by_number_witness:
  "\<exists>st1 st2. handle_event calm_env (UI_EVENT_LOBBY_UPDATE one_game) (first_state\<lparr>ui_screen := SCREEN_LOBBY\<rparr>) = Some st1 \<and>
     handle_keyboard calm_env (Byte CHR ''1'') st1 = Some st2 \<and> ui_current_game_id st2 = 7 \<and> length (ui_pushed st2) = 1"
proof -
  let ?st = "first_state\<lparr>ui_screen := SCREEN_LOBBY\<rparr>"
  have i: "ui_inv ?st" by (rule inv_screen(1) [OF first_state_inv])
  have e: "ui_error_message ?st ! 0 = NUL" "digit_value CHR ''1'' = int 0 + 1" "(0 :: nat) < 9" "env_malloc calm_env"
    "event_wf (UI_EVENT_LOBBY_UPDATE one_game)" by code_simp+
  have "event_safe (UI_EVENT_LOBBY_UPDATE one_game)" by code_simp
  then obtain st1 where st1: "handle_event calm_env (UI_EVENT_LOBBY_UPDATE one_game) ?st = Some st1"
    using handle_event_defined [of ?st _ calm_env] i e(5) by (auto simp: ui_inv_def)
  have "unat (lu_game_count one_game) = 1" "li_game_id (lu_games one_game ! 0) = 7" by code_simp+
  with join_by_number [OF i _ e(1) e(5) st1 e(2,3,4)] st1 show ?thesis
    by (simp add: Let_def first_state_def ui_init_def)
qed

end
