(* ===== verification/UI_Draw.thy ===== *)
theory UI_Draw
  imports UI_Props
begin

text \<open>
  The drawing functions of \<open>ui.c\<close>: what each prints, as the list of its calls to \<open>ncurses\<close>, for a
  terminal of \<open>env_lines\<close> by \<open>env_cols\<close>. The properties relate what is drawn to what the keyboard
  and the mouse do.
\<close>

section \<open>Calls\<close>

datatype Attribute = A_BOLD | A_REVERSE

datatype Curses =
    Clear | Refresh | Attron "Attribute list" | Attroff "Attribute list"
  | Mvprintw int int string | Printw string
  | Mvvline int int int | Mvhline int int int | Mvaddch int int

text \<open>\<open>%-ns\<close> pads on the right.\<close>

definition pad_right :: "nat \<Rightarrow> string \<Rightarrow> string" where
  "pad_right n s = s @ replicate (n - length s) CHR '' ''"

definition print_u32 :: "u32 \<Rightarrow> string" where
  "print_u32 w = decimal (unat w)"

definition reversed :: "bool \<Rightarrow> Curses list \<Rightarrow> Curses list" where
  "reversed b cs = (if b then [Attron [A_REVERSE]] @ cs @ [Attroff [A_REVERSE]] else cs)"

section \<open>The screens\<close>

definition draw_status_bar :: "UIEnv \<Rightarrow> UIState \<Rightarrow> Curses list" where
  "draw_status_bar e st =
     (if ui_error_message st ! 0 \<noteq> NUL then
        [Attron [A_BOLD], Mvprintw (env_lines e - 1) 0 (''ERR: '' @ take 60 (cstr (ui_error_message st))), Attroff [A_BOLD]]
      else [])"

definition menu_items :: "string list" where
  "menu_items = [''Create game'', ''Join game'', ''Settings'', ''Help'', ''Quit'']"

definition draw_main_menu :: "UIEnv \<Rightarrow> UIState \<Rightarrow> Curses list" where
  "draw_main_menu e st =
     (let mid_y = env_lines e sdiv 2 - 4; mid_x = (env_cols e - 20) sdiv 2
      in [Clear, Mvprintw mid_y mid_x ''=== TRIS ===''] @
         concat (map (\<lambda>i. reversed (int i = ui_menu_selection st) [Mvprintw (mid_y + 2 + int i) mid_x (menu_items ! i)]) [0..<5]) @
         [Mvprintw (mid_y + 2 + 5 + 1) ((env_cols e - 40) sdiv 2) ''Use arrows to move, ENTER to select''] @
         draw_status_bar e st @ [Refresh])"

definition lobby_line :: "nat \<Rightarrow> LobbyGameInfo \<Rightarrow> string" where
  "lobby_line i g = decimal_int (int i + 1) @ '' - ID: '' @ print_u32 (li_game_id g) @ '' - Owner: '' @ cstr (li_owner_name g) @
     '' - ('' @ decimal_int (li_players_connected g) @ '' players) - STATUS: '' @
     (if li_state g = GAME_WAITING then ''Waiting'' else ''In-Game'')"

definition draw_lobby :: "UIEnv \<Rightarrow> UIState \<Rightarrow> Curses list" where
  "draw_lobby e st =
     (let n = min (unat (ui_lobby_count st)) 10
      in [Clear, Mvprintw 1 ((env_cols e - 30) sdiv 2) ''=== Available Games ===''] @
         map (\<lambda>i. Mvprintw (3 + int i) 4 (lobby_line i (ui_lobby_games st ! i))) [0..<n] @
         (if ui_lobby_count st = 0 then [Mvprintw (3 + int n) 4 ''No games available.''] else []) @
         [Mvprintw (env_lines e - 2) 2 (''Press number to join, '' @ [CHR 0x27] @ ''r'' @ [CHR 0x27] @ '' to refresh, ESC to go back'')] @
         draw_status_bar e st @ [Refresh])"

definition draw_game_waiting :: "UIEnv \<Rightarrow> UIState \<Rightarrow> Curses list" where
  "draw_game_waiting e st =
     (let y = env_lines e sdiv 2; x = (env_cols e - 20) sdiv 2
      in [Clear, Mvprintw (y - 2) x ''Waiting for opponent...'',
          Mvprintw y x (''Game ID: '' @ print_u32 (ui_current_game_id st)),
          Mvprintw (y + 2) x ''Press ESC to cancel''] @ draw_status_bar e st @ [Refresh])"

definition board_origin :: "UIEnv \<Rightarrow> int \<times> int" where
  "board_origin e = ((env_lines e - 8) sdiv 2, (env_cols e - 19) sdiv 2)"

text \<open>Row \<open>i\<close>, column \<open>j\<close> of the board, with the cursor in reverse.\<close>

definition draw_cell :: "UIEnv \<Rightarrow> UIState \<Rightarrow> nat \<Rightarrow> nat \<Rightarrow> Curses list" where
  "draw_cell e st i j =
     (case board_origin e of
        (start_y, start_x) \<Rightarrow>
          reversed (int i = ui_cursor_row st \<and> int j = ui_cursor_col st)
            [Mvprintw (start_y + int i * 3 + 1) (start_x + int j * 6 + 2)
               [CHR '' '', board (ui_game_state st) ! i ! j, CHR '' '']])"

definition draw_cells :: "UIEnv \<Rightarrow> UIState \<Rightarrow> Curses list" where
  "draw_cells e st = concat (map (\<lambda>i. concat (map (draw_cell e st i) [0..<3])) [0..<3])"

definition draw_game_board :: "UIEnv \<Rightarrow> UIState \<Rightarrow> Curses list" where
  "draw_game_board e st =
     (case board_origin e of
        (start_y, start_x) \<Rightarrow>
          [Clear] @ map (\<lambda>j. Mvvline start_y (start_x + j * 6) 9) [1, 2] @
          concat (map (\<lambda>i. let y = start_y + i * 3
                       in [Mvhline y start_x 19, Mvaddch y (start_x + 6), Mvaddch y (start_x + 12)]) [1, 2]) @
          draw_cells e st @
          [Mvprintw (start_y + 10) start_x
             (''Turn: '' @ (if current_turn (ui_game_state st) = PLAYER_X then ''X'' else ''O'')),
           Mvprintw (start_y + 11) start_x (''You are: '' @ (if ui_player_role st = PLAYER_X then ''X'' else ''O'')),
           Mvprintw (env_lines e - 3) 2 ''Use arrow keys to move, ENTER to place, ESC to quit''] @
          draw_status_bar e st @ [Refresh])"

definition draw_join_request :: "UIEnv \<Rightarrow> UIState \<Rightarrow> Curses list" where
  "draw_join_request e st =
     [Clear,
      Mvprintw (env_lines e sdiv 2 - 2) ((env_cols e - 30) sdiv 2) (''Join request from: '' @ cstr (ui_join_requester_name st)),
      Mvprintw (env_lines e sdiv 2) ((env_cols e - 30) sdiv 2) ''Accept? (y/n)''] @ draw_status_bar e st @ [Refresh]"

definition result_text :: "UIState \<Rightarrow> string" where
  "result_text st =
     take 255
       (if ui_last_game_winner st = uint (GameResult_code RESULT_DRAW) then ''DRAW! '' @ cstr (ui_post_game_message st)
        else (if uint (Player_code (ui_player_role st)) = ui_last_game_winner st then ''YOU WIN'' else ''YOU LOSE'') @ ''! '' @
             cstr (ui_post_game_message st))"

definition draw_result_message :: "UIEnv \<Rightarrow> UIState \<Rightarrow> bool \<Rightarrow> Curses list" where
  "draw_result_message e st play_again =
     (let display_msg = result_text st
      in [Mvprintw (env_lines e sdiv 2 - 2) ((env_cols e - int (length display_msg)) sdiv 2) display_msg,
          Mvprintw (env_lines e sdiv 2) ((env_cols e - 30) sdiv 2)
            (if play_again then ''Play again? (y/n)'' else ''Press any key to return to menu...'')] @
         draw_status_bar e st @ [Refresh])"

definition draw_post_game :: "UIEnv \<Rightarrow> UIState \<Rightarrow> Curses list" where
  "draw_post_game e st = [Clear] @ draw_result_message e st True"

definition draw_game_over :: "UIEnv \<Rightarrow> UIState \<Rightarrow> Curses list" where
  "draw_game_over e st = [Clear] @ draw_result_message e st False"

definition draw_disconnected :: "UIEnv \<Rightarrow> UIState \<Rightarrow> Curses list" where
  "draw_disconnected e st =
     [Clear, Mvprintw (env_lines e sdiv 2) ((env_cols e - 20) sdiv 2) ''Disconnected from server.'',
      Mvprintw (env_lines e sdiv 2 + 1) ((env_cols e - 20) sdiv 2) ''Exiting...''] @ draw_status_bar e st @ [Refresh]"

text \<open>One field of the settings: its label, then the edit buffer or the stored text.\<close>

definition draw_field :: "UIState \<Rightarrow> int \<Rightarrow> int \<Rightarrow> int \<Rightarrow> string \<Rightarrow> nat \<Rightarrow> string \<Rightarrow> Curses list" where
  "draw_field st field y x label width stored =
     reversed (ui_settings_active_field st = field \<and> ui_settings_mode st = SETTINGS_NAV)
       [Mvprintw y x label,
        Printw (if ui_settings_active_field st = field \<and> ui_settings_mode st = SETTINGS_EDIT
                then pad_right width (cstr (ui_settings_edit_buf st)) else cstr stored)]"

definition draw_settings :: "UIEnv \<Rightarrow> UIState \<Rightarrow> Curses list" where
  "draw_settings e st =
     (let x = (env_cols e - 30) sdiv 2; save = ui_settings_active_field st = 3 \<and> ui_settings_mode st = SETTINGS_NAV
      in [Clear, Attron [A_BOLD], Mvprintw 2 ((env_cols e - 16) sdiv 2) ''=== SETTINGS ==='', Attroff [A_BOLD]] @
         draw_field st 0 5 x ''Username: '' 20 (cfg_username (ui_config st)) @
         draw_field st 1 7 x ''IP: '' 15 (cfg_ip (ui_config st)) @
         draw_field st 2 9 x ''Port: '' 5 (cfg_port (ui_config st)) @
         (if save then [Attron [A_REVERSE, A_BOLD]] else []) @ [Mvprintw 13 (x + 10) ''[ SAVE ]''] @
         (if save then [Attroff [A_REVERSE, A_BOLD]] else []) @
         [Mvprintw (env_lines e - 2) 2
            (if ui_settings_mode st = SETTINGS_EDIT then ''Editing: type and press ENTER to confirm, ESC to cancel''
             else ''Arrows: navigate   ENTER: edit/save   ESC: exit'')] @
         draw_status_bar e st @ [Refresh])"

definition help_lines :: "(int \<times> int \<times> string) list" where
  "help_lines =
     [(4, 2, ''Goal of the game:''),
      (5, 4, ''- Align three identical symbols in a row.''),
      (7, 2, ''Multiplayer Features:''),
      (8, 4, ''- Create Game: Create a new game and wait for opponents''),
      (9, 4, ''- Join Game: Browse and join available games''),
      (10, 4, ''- Lobby System: See all available games in real-time''),
      (11, 4, ''- Join Requests: Accept or reject players wanting to join''),
      (12, 4, ''- Post-Game Options: Winners can choose to stay as owner''),
      (14, 2, ''How to play:''),
      (15, 4, ''- Use ARROW KEYS to navigate menus and move cursor on board.''),
      (16, 4, ''- Press ENTER to select an option or place a move.''),
      (17, 4, ''- Press ESC to go back (except main menu where ESC exits).''),
      (18, 4, ''- During game, you can also LEFT CLICK to select a cell.''),
      (20, 2, ''Press any key to return to main menu...'')]"

definition draw_help :: "UIEnv \<Rightarrow> UIState \<Rightarrow> Curses list" where
  "draw_help e st =
     [Clear, Attron [A_BOLD], Mvprintw 1 (env_cols e sdiv 2 - 10) ''=== TRIS HELP ==='', Attroff [A_BOLD]] @
     map (\<lambda>(y, x, text). Mvprintw y x text) help_lines @ draw_status_bar e st @ [Refresh]"

definition draw :: "UIEnv \<Rightarrow> UIState \<Rightarrow> Curses list" where
  "draw e st =
     (case ui_screen st of
        SCREEN_MAIN_MENU \<Rightarrow> draw_main_menu e st
      | SCREEN_LOBBY \<Rightarrow> draw_lobby e st
      | SCREEN_GAME_WAITING \<Rightarrow> draw_game_waiting e st
      | SCREEN_IN_GAME \<Rightarrow> draw_game_board e st
      | SCREEN_JOIN_REQUEST \<Rightarrow> draw_join_request e st
      | SCREEN_POST_GAME \<Rightarrow> draw_post_game e st
      | SCREEN_DISCONNECTED \<Rightarrow> draw_disconnected e st
      | SCREEN_SETTINGS \<Rightarrow> draw_settings e st
      | SCREEN_HELP \<Rightarrow> draw_help e st
      | SCREEN_GAME_OVER \<Rightarrow> draw_game_over e st)"

section \<open>What is drawn and what is hit\<close>

lemma draw_cell_in_board:
  assumes "i < 3" "j < 3" "c \<in> set (draw_cell e st i j)"
  shows "c \<in> set (draw_game_board e st)"
proof -
  have "i \<in> set [0..<3]" "j \<in> set [0..<3]" using assms(1,2) by simp_all
  with assms(3) have "\<exists>i \<in> set [0..<3]. \<exists>j \<in> set [0..<3]. c \<in> set (draw_cell e st i j)" by (intro bexI)
  then have "c \<in> set (draw_cells e st)" by (simp add: draw_cells_def)
  then show ?thesis by (cases "board_origin e") (simp add: draw_game_board_def)
qed

lemma cell_printed:
  assumes "board_origin e = (y0, x0)"
  shows "Mvprintw (y0 + int i * 3 + 1) (x0 + int j * 6 + 2) [CHR '' '', board (ui_game_state st) ! i ! j, CHR '' '']
    \<in> set (draw_cell e st i j)"
  using assms by (simp add: draw_cell_def reversed_def)

lemma clicked_row: "i < 3 \<Longrightarrow> 0 \<le> d \<Longrightarrow> d < c \<Longrightarrow> clicked a c (a + int i * c + d) = Some (int i)"
proof -
  assume i: "i < 3" "0 \<le> d" "d < c"
  then have "i = 0 \<or> i = 1 \<or> i = 2" by auto
  with i show ?thesis by (auto simp: clicked_def)
qed

text \<open>
  The highlighted cell: the attribute is switched on exactly once, around the cell of the cursor.
\<close>

definition highlights :: "Curses list \<Rightarrow> nat" where
  "highlights cs = length (filter (\<lambda>c. c = Attron [A_REVERSE]) cs)"

lemma highlights_append [simp]: "highlights (as @ bs) = highlights as + highlights bs"
  by (simp add: highlights_def)

lemma highlights_cell: "highlights (draw_cell e st i j) = (if int i = ui_cursor_row st \<and> int j = ui_cursor_col st then 1 else 0)"
  by (simp add: draw_cell_def reversed_def highlights_def split: prod.split)

section \<open>Properties\<close>

text \<open>C34. A click hits the cell it points at: wherever the board is placed on the terminal, a click on
  any of the three characters that show cell \<open>(i, j)\<close> moves the cursor there and plays exactly
  this cell.\<close>

theorem click_hits_drawn_cell:
  assumes "i < 3" and "j < 3" and "board_origin e = (y0, x0)" and "0 \<le> d" and "d < 3"
  shows "Mvprintw (y0 + int i * 3 + 1) (x0 + int j * 6 + 2) [CHR '' '', board (ui_game_state st) ! i ! j, CHR '' '']
      \<in> set (draw_game_board e st) \<and>
    key_mouse e (Some \<lparr>mouse_y = y0 + int i * 3 + 1, mouse_x = x0 + int j * 6 + 2 + d, mouse_button1 = True\<rparr>) st =
      place_move (env_malloc e) (int i) (int j) (st\<lparr>ui_cursor_row := int i, ui_cursor_col := int j\<rparr>)"
proof
  show "Mvprintw (y0 + int i * 3 + 1) (x0 + int j * 6 + 2) [CHR '' '', board (ui_game_state st) ! i ! j, CHR '' '']
      \<in> set (draw_game_board e st)"
    by (rule draw_cell_in_board [OF assms(1,2) cell_printed [OF assms(3)]])
  have "clicked y0 3 (y0 + int i * 3 + 1) = Some (int i)" using clicked_row [OF assms(1), of 1 3 y0] by simp
  moreover have "clicked x0 6 (x0 + int j * 6 + 2 + d) = Some (int j)"
    using clicked_row [OF assms(2), of "2 + d" 6 x0] assms(4,5) by (simp add: add.assoc)
  ultimately show "key_mouse e (Some \<lparr>mouse_y = y0 + int i * 3 + 1, mouse_x = x0 + int j * 6 + 2 + d, mouse_button1 = True\<rparr>) st =
      place_move (env_malloc e) (int i) (int j) (st\<lparr>ui_cursor_row := int i, ui_cursor_col := int j\<rparr>)"
    using assms(3) by (simp add: key_mouse_def board_origin_def Let_def)
qed

theorem click_hits_drawn_cell_witness:
  "key_mouse calm_env (Some \<lparr>mouse_y = 12, mouse_x = 34, mouse_button1 = True\<rparr>) playing_state =
     place_move True 1 0 (playing_state\<lparr>ui_cursor_row := 1, ui_cursor_col := 0\<rparr>)"
proof -
  have o: "board_origin calm_env = (8, 30)" by code_simp
  from click_hits_drawn_cell [of 1 0, OF _ _ o, of 2 playing_state] show ?thesis
    by (simp add: calm_env_def)
qed

text \<open>The highlight is where ENTER plays: the board is drawn with exactly one highlighted cell, and
  it shows the cell that pressing ENTER tries to play.\<close>

theorem one_cell_highlighted:
  assumes "ui_inv st"
  shows "highlights (draw_game_board e st) = 1 \<and>
    (\<exists>i j. i < 3 \<and> j < 3 \<and> highlights (draw_cell e st i j) = 1 \<and>
       key_in_game e (Byte LF) st = place_move (env_malloc e) (int i) (int j) st)"
proof
  have r: "ui_cursor_row st \<in> {0, 1, 2}" "ui_cursor_col st \<in> {0, 1, 2}"
    using assms by (simp_all only: ui_inv_defs)
  have "highlights (draw_cells e st) = 1"
    using r by (auto simp: draw_cells_def highlights_cell upt_rec)
  moreover have "highlights (draw_status_bar e st) = 0" by (simp add: draw_status_bar_def highlights_def)
  ultimately show "highlights (draw_game_board e st) = 1"
    by (cases "board_origin e") (simp add: draw_game_board_def highlights_def Let_def)
  have "nat (ui_cursor_row st) < 3" "nat (ui_cursor_col st) < 3" "0 \<le> ui_cursor_row st" "0 \<le> ui_cursor_col st"
    using r by auto
  then show "\<exists>i j. i < 3 \<and> j < 3 \<and> highlights (draw_cell e st i j) = 1 \<and>
       key_in_game e (Byte LF) st = place_move (env_malloc e) (int i) (int j) st"
    by (intro exI [of _ "nat (ui_cursor_row st)"] exI [of _ "nat (ui_cursor_col st)"])
      (simp add: highlights_cell key_in_game_def)
qed

theorem one_cell_highlighted_witness: "highlights (draw_game_board calm_env playing_state) = 1"
  using one_cell_highlighted [OF playing_state_inv] by blast

end
