(* ===== verification/Client_Main.thy ===== *)
theory Client_Main
  imports UI_Props
begin

text \<open>
  \<open>client/src/main.c\<close>: the configuration, the two queues, the user interface, and the end.

  The queues as the threads have left them when \<open>ui_run\<close> returns are arguments; \<open>queue_destroy\<close> aborts
  the process when one is not empty.
\<close>

record QueueEnv =
  queue_memory :: bool
  buffer_memory :: bool
  lock_init_ok :: bool
  not_full_init_ok :: bool
  not_empty_init_ok :: bool

definition create_64 :: "QueueEnv \<Rightarrow> 'a list \<Rightarrow> 'a Queue option" where
  "create_64 e fresh = queue_create 64 (queue_memory e) (buffer_memory e) (lock_init_ok e)
     (not_full_init_ok e) (not_empty_init_ok e) fresh"

text \<open>The exit status, with the state of the user interface if it ran; \<open>None\<close> is undefined
  behaviour or an abort.\<close>

definition client_main ::
  "bool \<Rightarrow> Config \<Rightarrow> string option \<Rightarrow> QueueEnv \<Rightarrow> Message list \<Rightarrow> QueueEnv \<Rightarrow> UIEvent list \<Rightarrow> Turn list \<Rightarrow>
   Message Queue \<Rightarrow> UIEvent Queue \<Rightarrow> (int \<times> UIState option) option" where
  "client_main can_write uninit file e_to fresh_to e_from fresh_from turns to_net_left from_net_left =
     (let (config, file) = main_config can_write uninit file;
          to_net = create_64 e_to fresh_to;
          from_net = create_64 e_from fresh_from
      in if to_net = None \<or> from_net = None then Some (1, None)
         else do {
           st \<leftarrow> ui_run config file turns;
           q \<leftarrow> queue_destroy to_net_left;
           q' \<leftarrow> queue_destroy from_net_left;
           Some (0, Some st) })"

text \<open>Whatever the configuration file holds, a client that ends with status 0 has kept every text, index
  and menu position in its bounds, and both queues were empty at the end.\<close>

theorem client_main_safe:
  assumes main: "client_main w uninit file e1 f1 e2 f2 ts to_left from_left = Some (0, Some st)"
    and uninit: "config_ok uninit" and ts: "\<forall>t \<in> set ts. turn_wf t"
  shows "screen_inv st \<and> text_inv st \<and> cnt to_left = 0 \<and> cnt from_left = 0"
proof -
  obtain config file' where c: "main_config w uninit file = (config, file')" by (cases "main_config w uninit file")
  from main have run: "ui_run config file' ts = Some st" and q: "cnt to_left = 0" "cnt from_left = 0"
    by (auto simp: client_main_def c Let_def queue_destroy_def split: if_splits Option.bind_splits)
  obtain st1 where st1: "ui_loop ts (ui_init config file') = Some st1" "st = ui_cleanup st1"
    using run by (auto simp: ui_run_def split: Option.bind_splits)
  have "config_ok config" "config_terminated config"
    using start_config_safe [OF uninit] c by (metis fst_conv)+
  with inv_loop [OF st1(1)] ui_init_inv ts have "ui_inv st1" by blast
  with st1(2) q show ?thesis
    by (simp add: ui_inv_def ui_cleanup_def net_call_def screen_inv_def text_inv_def)
qed

end
