(* ===== verification/Game_Heap.thy ===== *)
theory Game_Heap
  imports Game_Runs "HOL-Library.Monad_Syntax"
begin

text \<open>
  The list of games as \<open>server/src/game.c\<close> keeps it: nodes in memory, linked by \<open>next\<close> from \<open>head\<close>
  to \<open>tail\<close>, allocated with \<open>malloc\<close> and released with \<open>free\<close>.

  \<^item> \<open>nodes\<close> maps the address of every node in use to its content. Reading or writing through any
    other address, such as that of a node already released, is the value \<open>None\<close>; a loop that
    never ends is \<open>None\<close> too. The address \<open>malloc\<close> returns is an argument.
  \<^item> the operations walk and change the links as the code does: the search with the pointer to
    the node before, the append at \<open>tail\<close>, the unlinking of the first, a middle and the last node,
    and the release of all of them at the end.
  \<^item> \<open>refines\<close> relates the nodes to the list of \<open>Game\<close>: same games in the same order, no address
    twice, \<open>tail\<close> at the last node, and no node outside the list. Every operation keeps it and
    gives the same answer, so nothing the code follows is dangling and nothing is leaked.
\<close>

section \<open>Memory\<close>

type_synonym addr = nat

record Node =
  node_game :: Game
  node_next :: "addr option"

type_synonym Memory = "addr \<rightharpoonup> Node"

record GameHeap =
  nodes :: Memory
  head_of :: "addr option"
  tail_of :: "addr option"
  next_id :: u32

definition set_next :: "addr \<Rightarrow> addr option \<Rightarrow> GameHeap \<Rightarrow> GameHeap option" where
  "set_next a p hm = do { n \<leftarrow> nodes hm a; Some (hm\<lparr>nodes := (nodes hm)(a \<mapsto> n\<lparr>node_next := p\<rparr>)\<rparr>) }"

definition write_node :: "addr \<Rightarrow> Game \<Rightarrow> GameHeap \<Rightarrow> GameHeap option" where
  "write_node a g hm = do { n \<leftarrow> nodes hm a; Some (hm\<lparr>nodes := (nodes hm)(a \<mapsto> n\<lparr>node_game := g\<rparr>)\<rparr>) }"

definition free_node :: "addr \<Rightarrow> GameHeap \<Rightarrow> GameHeap option" where
  "free_node a hm = do { n \<leftarrow> nodes hm a; Some (hm\<lparr>nodes := (nodes hm)(a := None)\<rparr>) }"

section \<open>The loops\<close>

text \<open>\<open>while (cur && cur->id != game_id) { prev = cur; cur = cur->next; }\<close>\<close>

partial_function (option) find_node ::
  "Memory \<Rightarrow> u32 \<Rightarrow> addr option \<Rightarrow> addr option \<Rightarrow> (addr option \<times> addr option) option" where
  "find_node h i prev cur =
     (if cur = None then Some (prev, None)
      else do {
        n \<leftarrow> h (the cur);
        if gid (node_game n) \<noteq> i then find_node h i cur (node_next n) else Some (prev, cur) })"

text \<open>The first loop of \<open>game_manager_cleanup_creator_games\<close>.\<close>

partial_function (option) collect_nodes ::
  "Memory \<Rightarrow> socket \<Rightarrow> u32 \<Rightarrow> nat \<Rightarrow> addr option \<Rightarrow> u32 list option" where
  "collect_nodes h s accepted remove_count cur =
     (if cur = None \<or> \<not> remove_count < 128 then Some []
      else do {
        n \<leftarrow> h (the cur);
        if player_x_socket (node_game n) = s \<and> gid (node_game n) \<noteq> accepted
        then do {
          ids \<leftarrow> collect_nodes h s accepted (remove_count + 1) (node_next n);
          Some (gid (node_game n) # ids) }
        else collect_nodes h s accepted remove_count (node_next n) })"

text \<open>The loop of \<open>game_manager_list_games\<close>.\<close>

partial_function (option) list_nodes :: "Memory \<Rightarrow> nat \<Rightarrow> addr option \<Rightarrow> GameSnapshot list option" where
  "list_nodes h cnt cur =
     (if cur = None \<or> \<not> cnt < 10 then Some []
      else do {
        n \<leftarrow> h (the cur);
        if joinable (node_game n)
        then do { rest \<leftarrow> list_nodes h (cnt + 1) (node_next n); Some (snapshot (node_game n) # rest) }
        else list_nodes h cnt (node_next n) })"

text \<open>The loop of \<open>game_manager_destroy\<close>: the link is read before the node is released.\<close>

partial_function (option) free_nodes :: "Memory \<Rightarrow> addr option \<Rightarrow> Memory option" where
  "free_nodes h cur =
     (if cur = None then Some h
      else do { n \<leftarrow> h (the cur); free_nodes (h(the cur := None)) (node_next n) })"

section \<open>What is done at a node\<close>

definition join_body :: "socket \<Rightarrow> string \<Rightarrow> Game \<Rightarrow> (Game \<times> unit) result" where
  "join_body s name g =
     (if gstate (state_data g) \<noteq> GAME_WAITING \<or> player_o_socket g \<noteq> -1 \<or> waiting_player_socket g \<noteq> -1
      then Inl Minus1
      else Inr (g\<lparr>waiting_player_socket := s,
                  waiting_player_username := copy_string (waiting_player_username g) name 32\<rparr>, ()))"

definition decision_body :: "bool \<Rightarrow> Game \<Rightarrow> (Game \<times> Player option) result" where
  "decision_body accepted g =
     (if waiting_player_socket g = -1 then Inl Minus1
      else if accepted then
        Inr (g\<lparr>player_o_socket := waiting_player_socket g, waiting_player_socket := -1,
               waiting_player_username := (waiting_player_username g)[0 := NUL],
               state_data := (state_data g)\<lparr>gstate := GAME_IN_PROGRESS\<rparr>\<rparr>, Some PLAYER_O)
      else
        Inr (g\<lparr>waiting_player_socket := -1,
               waiting_player_username := (waiting_player_username g)[0 := NUL]\<rparr>, None))"

definition move_body :: "socket \<Rightarrow> u8 \<Rightarrow> u8 \<Rightarrow> Game \<Rightarrow> (Game \<times> bool \<times> int option) result" where
  "move_body s row col g =
     (case player_of_socket g s of
        None \<Rightarrow> Inl Minus1
      | Some p \<Rightarrow> if \<not> move_legal g p row col then Inl Minus1
                  else Inr (after_move g p row col, move_report g p row col))"

definition answer_body :: "socket \<Rightarrow> bool \<Rightarrow> Game \<Rightarrow> (Game \<times> bool) result" where
  "answer_body s wants g =
     (if s \<noteq> player_x_socket g \<and> s \<noteq> player_o_socket g then Inl Minus1
      else Inr (decide_post_game g s wants))"

definition read_body :: "(Game \<Rightarrow> 'r) \<Rightarrow> Game \<Rightarrow> (Game \<times> 'r) result" where
  "read_body f g = Inr (g, f g)"

text \<open>Searching, and working through the pointer found.\<close>

definition at_game :: "(Game \<Rightarrow> (Game \<times> 'r) result) \<Rightarrow> u32 \<Rightarrow> GameHeap \<Rightarrow> (GameHeap \<times> 'r) result option" where
  "at_game body i hm = do {
     (prev, cur) \<leftarrow> find_node (nodes hm) i None (head_of hm);
     (case cur of
        None \<Rightarrow> Some (Inl Minus1)
      | Some a \<Rightarrow> do {
          n \<leftarrow> nodes hm a;
          (case body (node_game n) of
             Inl e \<Rightarrow> Some (Inl e)
           | Inr (g, r) \<Rightarrow> do { hm' \<leftarrow> write_node a g hm; Some (Inr (hm', r)) }) }) }"

section \<open>The operations\<close>

definition heap_create :: "bool \<Rightarrow> GameHeap option" where
  "heap_create alloc =
     (if \<not> alloc then None
      else Some \<lparr>nodes = Map.empty, head_of = None, tail_of = None, next_id = 0\<rparr>)"

text \<open>Linking a new node at the end: \<open>a\<close> is its address.\<close>

definition append_node :: "addr \<Rightarrow> Game \<Rightarrow> GameHeap \<Rightarrow> GameHeap option" where
  "append_node a g hm =
     (let hm = hm\<lparr>nodes := (nodes hm)(a \<mapsto> \<lparr>node_game = g, node_next = None\<rparr>)\<rparr>
      in case head_of hm of
           None \<Rightarrow> Some (hm\<lparr>head_of := Some a, tail_of := Some a\<rparr>)
         | Some first \<Rightarrow> do {
             t \<leftarrow> tail_of hm;
             hm \<leftarrow> set_next t (Some a) hm;
             Some (hm\<lparr>tail_of := Some a\<rparr>) })"

text \<open>\<open>mem\<close>: the address \<open>malloc\<close> returns, or none.\<close>

definition heap_create_game ::
  "GameHeap \<Rightarrow> addr option \<Rightarrow> socket \<Rightarrow> string \<Rightarrow> (GameHeap \<times> u32) result option" where
  "heap_create_game hm mem s owner =
     (case mem of
        None \<Rightarrow> Some (Inl Minus1)
      | Some a \<Rightarrow>
          (let i = next_id hm
           in do {
             hm \<leftarrow> append_node a (new_game i s owner) (hm\<lparr>next_id := i + 1\<rparr>);
             Some (Inr (hm, i)) }))"

text \<open>Leaving the game at \<open>a\<close>, after the node \<open>prev\<close>.\<close>

definition leave_node :: "socket \<Rightarrow> addr option \<Rightarrow> addr \<Rightarrow> GameHeap \<Rightarrow> GameHeap result option" where
  "leave_node s prev a hm = do {
     n \<leftarrow> nodes hm a;
     (case vacate (node_game n) s of
        None \<Rightarrow> Some (Inl Minus1)
      | Some g \<Rightarrow> do {
          hm \<leftarrow> write_node a g hm;
          if vacant g then do {
            hm \<leftarrow> (case prev of
                    Some p \<Rightarrow> set_next p (node_next n) hm
                  | None \<Rightarrow> Some (hm\<lparr>head_of := node_next n\<rparr>));
            let hm = (if tail_of hm = Some a then hm\<lparr>tail_of := prev\<rparr> else hm);
            hm \<leftarrow> free_node a hm;
            Some (Inr hm) }
          else Some (Inr hm) }) }"

definition heap_leave_game :: "GameHeap \<Rightarrow> u32 \<Rightarrow> socket \<Rightarrow> GameHeap result option" where
  "heap_leave_game hm i s = do {
     (prev, cur) \<leftarrow> find_node (nodes hm) i None (head_of hm);
     (case cur of None \<Rightarrow> Some (Inl Minus1) | Some a \<Rightarrow> leave_node s prev a hm) }"

definition heap_join_game :: "GameHeap \<Rightarrow> u32 \<Rightarrow> socket \<Rightarrow> string \<Rightarrow> (GameHeap \<times> unit) result option" where
  "heap_join_game hm i s name = at_game (join_body s name) i hm"

definition heap_join_decision :: "GameHeap \<Rightarrow> u32 \<Rightarrow> bool \<Rightarrow> (GameHeap \<times> Player option) result option" where
  "heap_join_decision hm i accepted = at_game (decision_body accepted) i hm"

definition heap_move ::
  "GameHeap \<Rightarrow> u32 \<Rightarrow> socket \<Rightarrow> u8 \<Rightarrow> u8 \<Rightarrow> (GameHeap \<times> bool \<times> int option) result option" where
  "heap_move hm i s row col = at_game (move_body s row col) i hm"

definition heap_post_game_decision ::
  "GameHeap \<Rightarrow> u32 \<Rightarrow> socket \<Rightarrow> bool \<Rightarrow> (GameHeap \<times> bool) result option" where
  "heap_post_game_decision hm i s wants = at_game (answer_body s wants) i hm"

definition heap_get_players :: "GameHeap \<Rightarrow> u32 \<Rightarrow> (GameHeap \<times> socket \<times> socket) result option" where
  "heap_get_players hm i = at_game (read_body (\<lambda>g. (player_x_socket g, player_o_socket g))) i hm"

definition heap_get_game_state :: "GameHeap \<Rightarrow> u32 \<Rightarrow> (GameHeap \<times> GameCommonState) result option" where
  "heap_get_game_state hm i = at_game (read_body state_data) i hm"

definition heap_get_waiting_socket :: "GameHeap \<Rightarrow> u32 \<Rightarrow> (GameHeap \<times> socket) result option" where
  "heap_get_waiting_socket hm i = at_game (read_body waiting_player_socket) i hm"

definition heap_try_leave :: "socket \<Rightarrow> u32 \<Rightarrow> GameHeap \<Rightarrow> GameHeap option" where
  "heap_try_leave s i hm = do {
     r \<leftarrow> heap_leave_game hm i s;
     Some (case r of Inl e \<Rightarrow> hm | Inr hm' \<Rightarrow> hm') }"

fun heap_leave_all :: "socket \<Rightarrow> u32 list \<Rightarrow> GameHeap \<Rightarrow> GameHeap option" where
  "heap_leave_all s [] hm = Some hm"
| "heap_leave_all s (i # ids) hm = do { hm \<leftarrow> heap_try_leave s i hm; heap_leave_all s ids hm }"

definition heap_cleanup :: "GameHeap \<Rightarrow> socket \<Rightarrow> u32 \<Rightarrow> GameHeap option" where
  "heap_cleanup hm s accepted = do {
     ids \<leftarrow> collect_nodes (nodes hm) s accepted 0 (head_of hm);
     heap_leave_all s ids hm }"

text \<open>The memory left in use after \<open>game_manager_destroy\<close>.\<close>

definition game_manager_destroy :: "GameHeap option \<Rightarrow> Memory option" where
  "game_manager_destroy gm =
     (case gm of None \<Rightarrow> Some Map.empty | Some hm \<Rightarrow> free_nodes (nodes hm) (head_of hm))"

definition heap_list_games :: "GameHeap \<Rightarrow> GameSnapshot list option" where
  "heap_list_games hm = list_nodes (nodes hm) 0 (head_of hm)"

section \<open>The nodes in memory as a list\<close>

text \<open>\<open>seg h p xs q\<close>: following the links from \<open>p\<close> passes the nodes \<open>xs\<close> and ends at \<open>q\<close>.\<close>

fun seg :: "Memory \<Rightarrow> addr option \<Rightarrow> (addr \<times> Game) list \<Rightarrow> addr option \<Rightarrow> bool" where
  "seg h p [] q \<longleftrightarrow> p = q"
| "seg h p ((a, g) # xs) q \<longleftrightarrow>
     p = Some a \<and> (\<exists>n. h a = Some \<lparr>node_game = g, node_next = n\<rparr> \<and> seg h n xs q)"

definition last_addr :: "addr option \<Rightarrow> (addr \<times> Game) list \<Rightarrow> addr option" where
  "last_addr prev xs = (if xs = [] then prev else Some (fst (last xs)))"

definition holds :: "GameHeap \<Rightarrow> (addr \<times> Game) list \<Rightarrow> bool" where
  "holds hm xs \<longleftrightarrow> seg (nodes hm) (head_of hm) xs None \<and> distinct (map fst xs) \<and>
     dom (nodes hm) = fst ` set xs \<and> tail_of hm = last_addr None xs"

definition refines :: "GameHeap \<Rightarrow> GameManager \<Rightarrow> bool" where
  "refines hm gm \<longleftrightarrow> (\<exists>xs. holds hm xs \<and> games gm = map snd xs) \<and> next_id hm = next_game_id gm"

lemma refinesI: "holds hm xs \<Longrightarrow> games gm = map snd xs \<Longrightarrow> next_id hm = next_game_id gm \<Longrightarrow> refines hm gm"
  by (auto simp: refines_def)

lemma seg_append: "seg h p (xs @ ys) q \<longleftrightarrow> (\<exists>r. seg h p xs r \<and> seg h r ys q)"
  by (induction xs arbitrary: p) (simp, force)

lemma seg_other [simp]: "a \<notin> fst ` set xs \<Longrightarrow> seg (h(a := x)) p xs q = seg h p xs q"
  by (induction xs arbitrary: p) auto

lemma last_addr_simps [simp]:
  "last_addr prev [] = prev" "last_addr prev (xs @ [x]) = Some (fst x)"
  "last_addr prev ((a, g) # xs) = last_addr (Some a) xs" "last_addr prev (xs @ x # ys) = last_addr (Some (fst x)) ys"
  by (simp_all add: last_addr_def)

text \<open>A node in the middle: the segments before and after it.\<close>

lemma holds_middle:
  assumes "holds hm (xs @ (a, g) # ys)"
  obtains n where "nodes hm a = Some \<lparr>node_game = g, node_next = n\<rparr>"
    "seg (nodes hm) (head_of hm) xs (Some a)" "seg (nodes hm) n ys None"
    "a \<notin> fst ` set xs" "a \<notin> fst ` set ys"
  using assms by (auto simp: holds_def seg_append image_iff)

lemma holds_write:
  assumes h: "holds hm (xs @ (a, g) # ys)"
  shows "\<exists>hm'. write_node a g' hm = Some hm' \<and> holds hm' (xs @ (a, g') # ys) \<and> next_id hm' = next_id hm \<and>
    nodes hm' = (nodes hm)(a \<mapsto> \<lparr>node_game = g', node_next = node_next (the (nodes hm a))\<rparr>) \<and>
    head_of hm' = head_of hm \<and> tail_of hm' = tail_of hm"
proof -
  obtain n where n: "nodes hm a = Some \<lparr>node_game = g, node_next = n\<rparr>"
    "seg (nodes hm) (head_of hm) xs (Some a)" "seg (nodes hm) n ys None"
    "a \<notin> fst ` set xs" "a \<notin> fst ` set ys" using holds_middle [OF h] .
  from h have "distinct (map fst (xs @ (a, g') # ys))" "dom (nodes hm) = insert a (fst ` (set xs \<union> set ys))"
    "tail_of hm = last_addr None (xs @ (a, g') # ys)"
    by (simp_all add: holds_def image_Un)
  with n show ?thesis
    by (auto simp: write_node_def holds_def seg_append image_Un)
qed

lemma holds_create: "heap_create True = Some hm \<Longrightarrow> holds hm [] \<and> next_id hm = 0"
  by (auto simp: heap_create_def holds_def)

lemma holds_append:
  assumes h: "holds hm xs" and fresh: "nodes hm a = None"
  shows "\<exists>hm'. append_node a g hm = Some hm' \<and> holds hm' (xs @ [(a, g)]) \<and> next_id hm' = next_id hm"
proof (cases xs rule: rev_cases)
  case Nil
  with h show ?thesis by (auto simp: append_node_def holds_def Let_def)
next
  case (snoc ys y)
  obtain b c where y: "y = (b, c)" by (cases y)
  from h have h': "holds hm (ys @ (b, c) # [])" by (simp add: snoc y)
  obtain n where n: "nodes hm b = Some \<lparr>node_game = c, node_next = n\<rparr>"
    "seg (nodes hm) (head_of hm) ys (Some b)" "seg (nodes hm) n [] None" "b \<notin> fst ` set ys"
    using holds_middle [OF h'] .
  have a: "a \<noteq> b" "a \<notin> fst ` set ys"
    using fresh n(1) h by (auto simp: holds_def snoc y)
  obtain first where first: "head_of hm = Some first"
    using n(2) by (cases ys) auto
  have t: "tail_of hm = Some b" "dom (nodes hm) = insert b (fst ` set ys)" "distinct (map fst ys)"
    using h by (simp_all add: holds_def snoc y)
  show ?thesis
    using n a t
    by (simp add: append_node_def Let_def first set_next_def holds_def snoc y seg_append)
       (auto simp: first)
qed

text \<open>Unlinking the first, a middle or the last node.\<close>

lemma last_addr_before: "xs \<noteq> [] \<Longrightarrow> \<exists>b. last_addr None xs = Some b \<and> b \<in> fst ` set xs"
  by (auto simp: last_addr_def)

lemma holds_unlink:
  assumes h: "holds hm (xs @ (a, g) # ys)" and n: "nodes hm a = Some n"
  shows "\<exists>hm1 hm2. (case last_addr None xs of
             Some p \<Rightarrow> set_next p (node_next n) hm
           | None \<Rightarrow> Some (hm\<lparr>head_of := node_next n\<rparr>)) = Some hm1 \<and>
      free_node a (if tail_of hm1 = Some a then hm1\<lparr>tail_of := last_addr None xs\<rparr> else hm1) = Some hm2 \<and>
      holds hm2 (xs @ ys) \<and> next_id hm2 = next_id hm"
proof -
  obtain m where m: "nodes hm a = Some \<lparr>node_game = g, node_next = m\<rparr>"
    "seg (nodes hm) (head_of hm) xs (Some a)" "seg (nodes hm) m ys None"
    "a \<notin> fst ` set xs" "a \<notin> fst ` set ys" using holds_middle [OF h] .
  have nm: "node_next n = m" using m(1) n by simp
  have d: "distinct (map fst xs)" "distinct (map fst ys)" "fst ` set xs \<inter> fst ` set ys = {}"
    "dom (nodes hm) = insert a (fst ` set xs \<union> fst ` set ys)" and t: "tail_of hm = last_addr (Some a) ys"
    using h by (auto simp: holds_def)
  have tail: "tail_of hm = Some a \<longleftrightarrow> ys = []" and tail': "ys \<noteq> [] \<Longrightarrow> tail_of hm = last_addr None (xs @ ys)"
    using m(5) by (auto simp: t last_addr_def dest: last_in_set)
  show ?thesis
  proof (cases xs rule: rev_cases)
    case Nil
    have "(nodes hm)(a := None) = Map.empty" if "ys = []"
      using d(4) that Nil dom_eq_empty_conv [of "(nodes hm)(a := None)"] by simp
    with Nil m d tail tail' show ?thesis
      by (auto simp: nm free_node_def holds_def n)
  next
    case (snoc zs z)
    obtain b c where z: "z = (b, c)" by (cases z)
    have b: "nodes hm b = Some \<lparr>node_game = c, node_next = Some a\<rparr>" "seg (nodes hm) (head_of hm) zs (Some b)"
      using m(2) by (auto simp: snoc z seg_append)
    have "b \<noteq> a" "b \<notin> fst ` set zs" "b \<notin> fst ` set ys" "a \<notin> fst ` set zs"
      using m(4) d by (auto simp: snoc z)
    with m b d tail tail' show ?thesis
      by (auto simp: nm set_next_def free_node_def holds_def n snoc z seg_append)
  qed
qed

text \<open>The loops return, and find what a search in the list finds.\<close>

lemma find_node_here:
  "seg h p xs (Some a) \<Longrightarrow> \<forall>x \<in> set xs. gid (snd x) \<noteq> i \<Longrightarrow> h a = Some n \<Longrightarrow> gid (node_game n) = i \<Longrightarrow>
   find_node h i prev p = Some (last_addr prev xs, Some a)"
  by (induction xs arbitrary: p prev; subst find_node.simps) auto

lemma find_node_none:
  "seg h p xs None \<Longrightarrow> \<forall>x \<in> set xs. gid (snd x) \<noteq> i \<Longrightarrow>
   find_node h i prev p = Some (last_addr prev xs, None)"
  by (induction xs arbitrary: p prev; subst find_node.simps) auto

lemma collect_nodes_seg:
  "seg h p xs None \<Longrightarrow> collect_nodes h s i k p = Some (collect_creator_games (map snd xs) s i k)"
  by (induction xs arbitrary: p k; subst collect_nodes.simps) auto

lemma list_nodes_seg: "seg h p xs None \<Longrightarrow> list_nodes h k p = Some (list_games_from (map snd xs) k)"
  by (induction xs arbitrary: p k; subst list_nodes.simps) auto

lemma free_nodes_seg:
  "seg h p xs None \<Longrightarrow> distinct (map fst xs) \<Longrightarrow> free_nodes h p = Some (h |` (- fst ` set xs))"
proof (induction xs arbitrary: h p)
  case Nil
  then show ?case by (simp add: free_nodes.simps)
next
  case (Cons x xs)
  obtain a g where x: "x = (a, g)" by (cases x)
  with Cons.prems obtain n where n: "p = Some a" "h a = Some \<lparr>node_game = g, node_next = n\<rparr>"
    "seg (h(a := None)) n xs None" by auto
  have "free_nodes h p = free_nodes (h(a := None)) n"
    by (subst free_nodes.simps) (simp add: n(1,2))
  also have "\<dots> = Some (h(a := None) |` (- fst ` set xs))"
    using Cons.IH [OF n(3)] Cons.prems(2) by (simp only: list.map distinct.simps)
  also have "h(a := None) |` (- fst ` set xs) = h |` (- fst ` set (x # xs))"
    by (auto simp: restrict_map_def x)
  finally show ?case .
qed

lemma find_game_split:
  "find_game (map snd xs) i = Some g \<Longrightarrow>
   \<exists>ys a zs. xs = ys @ (a, g) # zs \<and> gid g = i \<and> (\<forall>y \<in> set ys. gid (snd y) \<noteq> i)"
proof (induction xs)
  case (Cons x xs)
  obtain b h where x: "x = (b, h)" by (cases x)
  show ?case
  proof (cases "gid h = i")
    case True
    with Cons.prems x show ?thesis by (intro exI [of _ "[]"]) auto
  next
    case False
    with Cons.prems x obtain ys a zs where "xs = ys @ (a, g) # zs" "gid g = i" "\<forall>y \<in> set ys. gid (snd y) \<noteq> i"
      using Cons.IH by auto
    with False x show ?thesis by (intro exI [of _ "x # ys"]) auto
  qed
qed simp

lemma put_remove_split:
  assumes "\<forall>y \<in> set ys. gid (snd y) \<noteq> i" "gid g = i"
  shows "put_game (map snd (ys @ (a, g) # zs)) i g' = map snd (ys @ (a, g') # zs)"
    "remove_game (map snd (ys @ (a, g) # zs)) i = map snd (ys @ zs)"
  using assms by (induction ys) auto

section \<open>Every operation refines the one on the list\<close>

text \<open>Same answer, and after success the nodes show the new list.\<close>

definition agree :: "(GameHeap \<times> 'r) result option \<Rightarrow> (GameManager \<times> 'r) result \<Rightarrow> bool" where
  "agree c l = (case l of
     Inl e \<Rightarrow> c = Some (Inl e)
   | Inr (gm, r) \<Rightarrow> (\<exists>hm. c = Some (Inr (hm, r)) \<and> refines hm gm))"

definition at_list :: "(Game \<Rightarrow> (Game \<times> 'r) result) \<Rightarrow> u32 \<Rightarrow> GameManager \<Rightarrow> (GameManager \<times> 'r) result" where
  "at_list body i gm = (case find_game (games gm) i of
     None \<Rightarrow> Inl Minus1
   | Some g \<Rightarrow> (case body g of Inl e \<Rightarrow> Inl e | Inr (g', r) \<Rightarrow> Inr (set_game gm g', r)))"

definition keeps_gid :: "(Game \<Rightarrow> (Game \<times> 'r) result) \<Rightarrow> bool" where
  "keeps_gid body \<longleftrightarrow> (\<forall>g g' r. body g = Inr (g', r) \<longrightarrow> gid g' = gid g)"

lemma at_list_join: "game_manager_join_game gm i s name = map_sum id fst (at_list (join_body s name) i gm)"
  by (simp add: at_list_def game_manager_join_game_def join_body_def split: option.split)

lemma at_list_decision: "game_manager_join_decision gm i accepted = at_list (decision_body accepted) i gm"
  by (simp add: at_list_def game_manager_join_decision_def decision_body_def split: option.split)

lemma at_list_move: "game_manager_move gm i s row col = at_list (move_body s row col) i gm"
  by (simp add: at_list_def move_unfold move_body_def split: option.split)

lemma at_list_post_game: "game_manager_post_game_decision gm i s wants = at_list (answer_body s wants) i gm"
  by (simp add: at_list_def post_game_unfold answer_body_def split_beta split: option.split)

lemma finalize_gid [simp]: "gid (game_finalize g w) = gid g"
  by (simp add: game_finalize_def Let_def)

lemma keeps_gid_bodies:
  "keeps_gid (join_body s name)" "keeps_gid (decision_body accepted)" "keeps_gid (read_body f)"
  by (simp_all add: keeps_gid_def join_body_def decision_body_def read_body_def split: if_split)

lemma gid_after_move: "gid (after_move g p row col) = gid g"
  by (simp add: after_move_def Let_def split_beta)

lemma keeps_gidI:
  "(\<And>g. case body g of Inl e \<Rightarrow> True | Inr (g', r) \<Rightarrow> gid g' = gid g) \<Longrightarrow> keeps_gid body"
proof (unfold keeps_gid_def, intro allI impI)
  fix g g' r
  assume "\<And>g. case body g of Inl e \<Rightarrow> True | Inr (g', r) \<Rightarrow> gid g' = gid g" and b: "body g = Inr (g', r)"
  from this(1) [of g] show "gid g' = gid g" by (simp only: b sum.case prod.case)
qed

lemma keeps_gid_move: "keeps_gid (move_body s row col)"
  by (rule keeps_gidI) (simp add: move_body_def gid_after_move split: option.split)

lemma keeps_gid_answer: "keeps_gid (answer_body s wants)"
  by (rule keeps_gidI) (simp add: answer_body_def decide_post_game_def split_beta)

lemma search_found:
  assumes r: "refines hm gm" and f: "find_game (games gm) i = Some g"
  obtains xs a ys n where "holds hm (xs @ (a, g) # ys)" "games gm = map snd (xs @ (a, g) # ys)"
    "gid g = i" "\<forall>y \<in> set xs. gid (snd y) \<noteq> i" "nodes hm a = Some n" "node_game n = g"
    "find_node (nodes hm) i None (head_of hm) = Some (last_addr None xs, Some a)"
proof -
  obtain zs where zs: "holds hm zs" "games gm = map snd zs" using r by (auto simp: refines_def)
  from f have "find_game (map snd zs) i = Some g" by (simp only: zs(2))
  from find_game_split [OF this]
  obtain xs a ys where s: "zs = xs @ (a, g) # ys" "gid g = i" "\<forall>y \<in> set xs. gid (snd y) \<noteq> i"
    by blast
  obtain n where n: "nodes hm a = Some \<lparr>node_game = g, node_next = n\<rparr>"
    "seg (nodes hm) (head_of hm) xs (Some a)" using holds_middle [OF zs(1) [unfolded s(1)]] .
  from find_node_here [OF n(2) s(3) n(1)] s(2)
  have "find_node (nodes hm) i None (head_of hm) = Some (last_addr None xs, Some a)" by simp
  with that zs s n(1) show ?thesis by simp
qed

lemma search_none:
  assumes r: "refines hm gm" and f: "find_game (games gm) i = None"
  shows "\<exists>p. find_node (nodes hm) i None (head_of hm) = Some (p, None)"
proof -
  obtain zs where zs: "holds hm zs" "games gm = map snd zs" using r by (auto simp: refines_def)
  moreover from f zs(2) have "\<forall>y \<in> set zs. gid (snd y) \<noteq> i"
    by (auto simp: find_game_None)
  ultimately show ?thesis using find_node_none by (metis holds_def)
qed

lemma refines_write:
  assumes r: "refines hm gm" and h: "holds hm (xs @ (a, g) # ys)" "games gm = map snd (xs @ (a, g) # ys)"
    and i: "\<forall>y \<in> set xs. gid (snd y) \<noteq> gid g" "gid g' = gid g"
  shows "\<exists>hm'. write_node a g' hm = Some hm' \<and> refines hm' (set_game gm g')"
proof -
  obtain hm' where hm': "write_node a g' hm = Some hm'" "holds hm' (xs @ (a, g') # ys)" "next_id hm' = next_id hm"
    using holds_write [OF h(1)] by metis
  have "put_game (games gm) (gid g') g' = map snd (xs @ (a, g') # ys)"
    using put_remove_split(1) [OF i(1) refl] by (simp add: h(2) i(2))
  with hm' r show ?thesis by (auto simp: refines_def set_game_def)
qed

lemma at_game_agrees:
  assumes r: "refines hm gm" and k: "keeps_gid body"
  shows "agree (at_game body i hm) (at_list body i gm)"
proof (cases "find_game (games gm) i")
  case None
  with search_none [OF r None] show ?thesis by (auto simp: agree_def at_list_def at_game_def)
next
  case (Some g)
  obtain xs a ys n where s: "holds hm (xs @ (a, g) # ys)" "games gm = map snd (xs @ (a, g) # ys)"
    "gid g = i" "\<forall>y \<in> set xs. gid (snd y) \<noteq> i" "nodes hm a = Some n" "node_game n = g"
    "find_node (nodes hm) i None (head_of hm) = Some (last_addr None xs, Some a)"
    using search_found [OF r Some] .
  show ?thesis
  proof (cases "body g")
    case (Inl e)
    with Some s show ?thesis by (simp add: agree_def at_list_def at_game_def)
  next
    case (Inr gr)
    then obtain g' res where b: "body g = Inr (g', res)" by (cases gr) simp
    then have "gid g' = gid g" using k by (simp add: keeps_gid_def)
    then obtain hm' where "write_node a g' hm = Some hm'" "refines hm' (set_game gm g')"
      using refines_write [OF r s(1,2)] s(3,4) by metis
    with Some s b show ?thesis by (simp add: agree_def at_list_def at_game_def)
  qed
qed

lemma create_game_agrees:
  assumes r: "refines hm gm" and fresh: "nodes hm a = None"
  shows "agree (heap_create_game hm (if alloc then Some a else None) s owner)
    (game_manager_create_game gm alloc s owner)"
proof (cases alloc)
  case False
  then show ?thesis by (simp add: agree_def heap_create_game_def game_manager_create_game_def)
next
  case True
  obtain xs where xs: "holds hm xs" "games gm = map snd xs" "next_id hm = next_game_id gm"
    using r by (auto simp: refines_def)
  have "game_manager_create_game gm True s owner =
      Inr (append_game (gm\<lparr>next_game_id := next_game_id gm + 1\<rparr>) (new_game (next_game_id gm) s owner),
           next_game_id gm)"
    using create_game_cases [of gm True s owner]
    by (cases "game_manager_create_game gm True s owner") (auto simp: game_manager_create_game_def generate_game_id_def Let_def)
  moreover have "holds (hm\<lparr>next_id := next_game_id gm + 1\<rparr>) xs" using xs(1) by (simp add: holds_def)
  then obtain hm' where "append_node a (new_game (next_game_id gm) s owner) (hm\<lparr>next_id := next_game_id gm + 1\<rparr>) = Some hm'"
    and hm': "holds hm' (xs @ [(a, new_game (next_game_id gm) s owner)])" "next_id hm' = next_game_id gm + 1"
    using holds_append [of "hm\<lparr>next_id := next_game_id gm + 1\<rparr>" xs a] fresh by fastforce
  then have "heap_create_game hm (Some a) s owner = Some (Inr (hm', next_game_id gm))"
    by (simp add: heap_create_game_def Let_def xs(3))
  moreover have "refines hm' (append_game (gm\<lparr>next_game_id := next_game_id gm + 1\<rparr>) (new_game (next_game_id gm) s owner))"
    by (rule refinesI [OF hm'(1)]) (simp_all add: append_game_def xs(2) hm'(2))
  ultimately show ?thesis using True by (simp add: agree_def)
qed

text \<open>Leaving at the node: the seat is vacated in place, or the node is unlinked and freed.\<close>

lemma holds_leave:
  assumes h: "holds hm (xs @ (a, g) # ys)"
  shows "case vacate g s of
      None \<Rightarrow> leave_node s (last_addr None xs) a hm = Some (Inl Minus1)
    | Some g' \<Rightarrow> \<exists>hm'. leave_node s (last_addr None xs) a hm = Some (Inr hm') \<and> next_id hm' = next_id hm \<and>
        holds hm' (xs @ (if vacant g' then ys else (a, g') # ys))"
proof -
  obtain n where n: "nodes hm a = Some n" "node_game n = g"
    using holds_middle [OF h] by (metis Node.select_convs(1))
  show ?thesis
  proof (cases "vacate g s")
    case None
    with n show ?thesis by (simp add: leave_node_def)
  next
    case v: (Some g')
    obtain hm' where w: "write_node a g' hm = Some hm'" "holds hm' (xs @ (a, g') # ys)" "next_id hm' = next_id hm"
      "nodes hm' a = Some \<lparr>node_game = g', node_next = node_next n\<rparr>"
      using holds_write [OF h, of g'] n by auto
    obtain hm1 hm2 where u: "(case last_addr None xs of
             Some p \<Rightarrow> set_next p (node_next n) hm' | None \<Rightarrow> Some (hm'\<lparr>head_of := node_next n\<rparr>)) = Some hm1"
      "free_node a (if tail_of hm1 = Some a then hm1\<lparr>tail_of := last_addr None xs\<rparr> else hm1) = Some hm2"
      "holds hm2 (xs @ ys)" "next_id hm2 = next_id hm'"
      using holds_unlink [OF w(2,4), unfolded Node.select_convs] by metis
    with v w n show ?thesis by (simp add: leave_node_def)
  qed
qed

lemma leave_game_agrees:
  assumes r: "refines hm gm"
  shows "case game_manager_leave_game gm i s of
      Inl e \<Rightarrow> heap_leave_game hm i s = Some (Inl e)
    | Inr gm' \<Rightarrow> \<exists>hm'. heap_leave_game hm i s = Some (Inr hm') \<and> refines hm' gm'"
proof (cases "find_game (games gm) i")
  case None
  with search_none [OF r None] show ?thesis by (auto simp: leave_game_unfold heap_leave_game_def)
next
  case (Some g)
  obtain xs a ys n where f: "holds hm (xs @ (a, g) # ys)" "games gm = map snd (xs @ (a, g) # ys)"
    "gid g = i" "\<forall>y \<in> set xs. gid (snd y) \<noteq> i" "nodes hm a = Some n" "node_game n = g"
    "find_node (nodes hm) i None (head_of hm) = Some (last_addr None xs, Some a)"
    using search_found [OF r Some] .
  have leave: "heap_leave_game hm i s = leave_node s (last_addr None xs) a hm"
    by (simp add: heap_leave_game_def f(7))
  show ?thesis
  proof (cases "vacate g s")
    case None
    with Some holds_leave [OF f(1), of s] show ?thesis by (simp add: leave_game_unfold leave)
  next
    case v: (Some g')
    have g': "gid g' = i" using gid_vacate [OF v] f(3) by simp
    obtain hm' where hm': "leave_node s (last_addr None xs) a hm = Some (Inr hm')" "next_id hm' = next_id hm"
      "holds hm' (xs @ (if vacant g' then ys else (a, g') # ys))"
      using holds_leave [OF f(1), of s] v by auto
    have id: "next_id hm = next_game_id gm" using r by (simp add: refines_def)
    have "refines hm' (if vacant g' then unlink_game gm i else set_game gm g')"
      using hm'(2) put_remove_split [OF f(4,3)] g'
      by (intro refinesI [OF hm'(3)]) (simp_all add: unlink_game_def set_game_def f(2) id)
    with Some v hm'(1) show ?thesis by (simp add: leave_game_unfold leave)
  qed
qed

lemma try_leave_agrees: "refines hm gm \<Longrightarrow> \<exists>hm'. heap_try_leave s i hm = Some hm' \<and> refines hm' (try_leave s i gm)"
  using leave_game_agrees [of hm gm i s]
  by (auto simp: heap_try_leave_def try_leave_def split: sum.splits)

lemma leave_all_agrees:
  "refines hm gm \<Longrightarrow> \<exists>hm'. heap_leave_all s ids hm = Some hm' \<and> refines hm' (fold (try_leave s) ids gm)"
proof (induction ids arbitrary: hm gm)
  case (Cons i ids)
  obtain hm1 where hm1: "heap_try_leave s i hm = Some hm1" "refines hm1 (try_leave s i gm)"
    using try_leave_agrees [OF Cons.prems] by blast
  show ?case using Cons.IH [OF hm1(2)] by (simp add: hm1(1))
qed simp

lemma cleanup_agrees:
  assumes "refines hm gm"
  shows "\<exists>hm'. heap_cleanup hm s i = Some hm' \<and> refines hm' (game_manager_cleanup_creator_games gm s i)"
proof -
  obtain xs where xs: "holds hm xs" "games gm = map snd xs" using assms by (auto simp: refines_def)
  then have "collect_nodes (nodes hm) s i 0 (head_of hm) = Some (collect_creator_games (games gm) s i 0)"
    by (simp add: holds_def collect_nodes_seg)
  with leave_all_agrees [OF assms] show ?thesis
    by (simp add: heap_cleanup_def game_manager_cleanup_creator_games_def)
qed

lemma list_games_agrees: "refines hm gm \<Longrightarrow> heap_list_games hm = Some (game_manager_list_games gm)"
  by (auto simp: refines_def holds_def heap_list_games_def game_manager_list_games_def list_nodes_seg)

lemma destroy_frees_all: "refines hm gm \<Longrightarrow> game_manager_destroy (Some hm) = Some Map.empty"
proof -
  assume "refines hm gm"
  then obtain xs where "holds hm xs" by (auto simp: refines_def)
  then have xs: "seg (nodes hm) (head_of hm) xs None" "distinct (map fst xs)" "dom (nodes hm) = fst ` set xs"
    by (auto simp: holds_def)
  have "nodes hm |` (- dom (nodes hm)) = Map.empty" by (auto simp: restrict_map_def domIff)
  with free_nodes_seg [OF xs(1,2)] xs(3) show ?thesis by (simp add: game_manager_destroy_def)
qed

section \<open>Runs\<close>

definition keep_heap :: "GameHeap \<Rightarrow> ('a \<Rightarrow> GameHeap) \<Rightarrow> 'a result option \<Rightarrow> GameHeap option" where
  "keep_heap hm f r = map_option (case_sum (\<lambda>e. hm) f) r"

text \<open>The address is the one \<open>malloc\<close> returns if the operation asks for memory and gets it.\<close>

fun heap_apply :: "gm_op \<Rightarrow> addr \<Rightarrow> GameHeap \<Rightarrow> GameHeap option" where
  "heap_apply (Create alloc s owner) a hm =
     keep_heap hm fst (heap_create_game hm (if alloc then Some a else None) s owner)"
| "heap_apply (Join i s name) a hm = keep_heap hm fst (heap_join_game hm i s name)"
| "heap_apply (Decide i accepted) a hm = keep_heap hm fst (heap_join_decision hm i accepted)"
| "heap_apply (Play i s row col) a hm = keep_heap hm fst (heap_move hm i s row col)"
| "heap_apply (Leave i s) a hm = keep_heap hm id (heap_leave_game hm i s)"
| "heap_apply (Cleanup s i) a hm = heap_cleanup hm s i"
| "heap_apply (Answer i s wants) a hm = keep_heap hm fst (heap_post_game_decision hm i s wants)"

fun heap_run :: "(gm_op \<times> addr) list \<Rightarrow> GameHeap \<Rightarrow> GameHeap option" where
  "heap_run [] hm = Some hm"
| "heap_run ((ev, a) # evs) hm = do { hm \<leftarrow> heap_apply ev a hm; heap_run evs hm }"

text \<open>What \<open>malloc\<close> promises: memory that is not in use. It may be memory released before.\<close>

fun malloc_fresh :: "(gm_op \<times> addr) list \<Rightarrow> GameHeap \<Rightarrow> bool" where
  "malloc_fresh [] hm \<longleftrightarrow> True"
| "malloc_fresh ((ev, a) # evs) hm \<longleftrightarrow> nodes hm a = None \<and>
     (case heap_apply ev a hm of None \<Rightarrow> True | Some hm' \<Rightarrow> malloc_fresh evs hm')"

lemma keep_agrees:
  assumes "refines hm gm" "agree c l"
  shows "\<exists>hm'. keep_heap hm fst c = Some hm' \<and> refines hm' (keep gm fst l)"
  using assms by (auto simp: agree_def keep_heap_def keep_def split: sum.splits)

lemma heap_apply_refines:
  assumes r: "refines hm gm" and fresh: "nodes hm a = None"
  shows "\<exists>hm'. heap_apply ev a hm = Some hm' \<and> refines hm' (gm_apply ev gm)"
proof (cases ev)
  case (Create alloc s owner)
  then show ?thesis using keep_agrees [OF r create_game_agrees [OF r fresh]] by simp
next
  case (Join i s name)
  have "keep gm id (map_sum id fst l) = keep gm fst l" for l :: "(GameManager \<times> unit) result"
    by (simp add: keep_def split: sum.split)
  with Join show ?thesis
    using keep_agrees [OF r at_game_agrees [OF r keeps_gid_bodies(1)]]
    by (simp add: at_list_join heap_join_game_def)
next
  case (Decide i accepted)
  then show ?thesis using keep_agrees [OF r at_game_agrees [OF r keeps_gid_bodies(2)]]
    by (simp add: at_list_decision heap_join_decision_def)
next
  case (Play i s row col)
  then show ?thesis using keep_agrees [OF r at_game_agrees [OF r keeps_gid_move]]
    by (simp add: at_list_move heap_move_def)
next
  case (Leave i s)
  then show ?thesis using leave_game_agrees [OF r, of i s] r
    by (auto simp: keep_heap_def keep_def split: sum.splits)
next
  case (Cleanup s i)
  then show ?thesis using cleanup_agrees [OF r] by simp
next
  case (Answer i s wants)
  then show ?thesis using keep_agrees [OF r at_game_agrees [OF r keeps_gid_answer]]
    by (simp add: at_list_post_game heap_post_game_decision_def)
qed

lemma heap_run_refines:
  "refines hm gm \<Longrightarrow> malloc_fresh evs hm \<Longrightarrow>
   \<exists>hm'. heap_run evs hm = Some hm' \<and> refines hm' (fold gm_apply (map fst evs) gm)"
proof (induction evs arbitrary: hm gm)
  case (Cons x evs)
  obtain ev a where x: "x = (ev, a)" by (cases x)
  with Cons.prems(2) have "nodes hm a = None" by simp
  then obtain hm1 where hm1: "heap_apply ev a hm = Some hm1" "refines hm1 (gm_apply ev gm)"
    using heap_apply_refines [OF Cons.prems(1)] by blast
  with Cons x show ?case by simp
qed simp

section \<open>The property\<close>

text \<open>C6. The linked list of \<open>game.c\<close> implements the list of games. Start from a new manager and run
  any operations, with \<open>malloc\<close> returning any memory that is not in use. Then every loop
  ends and no pointer that is followed is dangling, the list lists the games that the atomic
  operations on lists give, in the same order, the open games reported are the same, and the
  final release frees every node exactly once and leaves none behind.\<close>

theorem linked_list_refines:
  assumes "heap_create True = Some hm0" and "game_manager_create True = Some gm0"
    and "malloc_fresh evs hm0"
  shows "\<exists>hm. heap_run evs hm0 = Some hm \<and> refines hm (fold gm_apply (map fst evs) gm0) \<and>
    heap_list_games hm = Some (game_manager_list_games (fold gm_apply (map fst evs) gm0)) \<and>
    game_manager_destroy (Some hm) = Some Map.empty"
proof -
  have "refines hm0 gm0"
    using assms(1,2) by (auto simp: heap_create_def game_manager_create_def refines_def holds_def)
  from heap_run_refines [OF this assms(3)] show ?thesis
    using list_games_agrees destroy_frees_all by blast
qed

text \<open>Two games; the first is left, and its memory is used again for the third.\<close>

definition reuse_run :: "(gm_op \<times> addr) list" where
  "reuse_run = [(Create True 5 ''ann'', 1), (Create True 6 ''bob'', 2), (Leave 0 5, 3), (Create True 7 ''cid'', 1)]"

theorem linked_list_refines_witness:
  "\<exists>hm hm0. heap_create True = Some hm0 \<and> heap_run reuse_run hm0 = Some hm \<and>
     head_of hm = Some 2 \<and> tail_of hm = Some 1 \<and> game_manager_destroy (Some hm) = Some Map.empty"
proof -
  obtain hm0 where hm0: "heap_create True = Some hm0" by (simp add: heap_create_def)
  obtain gm0 where gm0: "game_manager_create True = Some gm0" by (simp add: game_manager_create_def)
  note eval = reuse_run_def heap_create_game_def append_node_def heap_leave_game_def leave_node_def find_node.simps new_game_def
    keep_heap_def vacate_def vacant_def write_node_def set_next_def free_node_def Let_def
  have h: "hm0 = \<lparr>nodes = Map.empty, head_of = None, tail_of = None, next_id = 0\<rparr>"
    using hm0 by (simp add: heap_create_def)
  have "malloc_fresh reuse_run hm0" by (simp add: h eval)
  from linked_list_refines [OF hm0 gm0 this] obtain hm where hm:
    "heap_run reuse_run hm0 = Some hm" "game_manager_destroy (Some hm) = Some Map.empty" by blast
  moreover from hm(1) have "head_of hm = Some 2 \<and> tail_of hm = Some 1" by (auto simp: h eval)
  ultimately show ?thesis using hm0 by blast
qed

end
