(* ===== verification/Game_Locks.thy ===== *)
theory Game_Locks
  imports Game_Heap
begin

text \<open>
  The locks of the game manager: any number of threads run the operations of
  \<open>server/src/game.c\<close> on the linked list, one access to memory or one lock at a time.

  \<^item> \<open>Sys\<close>: the nodes, the holder of \<open>gm->lock\<close>, the holder of the \<open>lock\<close> of every node, and where
    each thread is. \<open>history\<close> records when an operation took effect, with what it saw.
  \<^item> \<open>sys_step\<close>: one step of one thread. A search runs under \<open>gm->lock\<close>; at the node found the
    thread takes the node's lock and only then gives \<open>gm->lock\<close> back; \<open>leave\<close> keeps both until it
    has freed the node; the lobby listing locks each node in turn; the first loop of the clean-up
    reads the nodes under \<open>gm->lock\<close> alone. The identifier of a new game is taken before the lock.
  \<^item> The invariant says who holds which lock and where each thread stands in the list. From it: the
    log is a run of atomic operations whose answers are those the threads got, no thread touches
    memory that was released, and there is no deadlock.
\<close>

section \<open>Operations\<close>

text \<open>The operations that search a game and work on it; \<open>Read\<close> is any of the three getters.\<close>

datatype call = Modify gm_op | Read u32

fun target :: "call \<Rightarrow> u32" where
  "target (Modify (Join i s name)) = i"
| "target (Modify (Decide i accepted)) = i"
| "target (Modify (Play i s row col)) = i"
| "target (Modify (Leave i s)) = i"
| "target (Modify (Answer i s wants)) = i"
| "target (Modify _) = 0"
| "target (Read i) = i"

fun is_leave :: "call \<Rightarrow> bool" where
  "is_leave (Modify (Leave i s)) \<longleftrightarrow> True"
| "is_leave _ \<longleftrightarrow> False"

fun on_node :: "call \<Rightarrow> bool" where
  "on_node (Modify (Create alloc s owner)) \<longleftrightarrow> False"
| "on_node (Modify (Cleanup s i)) \<longleftrightarrow> False"
| "on_node _ \<longleftrightarrow> True"

definition changed :: "Game \<Rightarrow> (Game \<times> 'r) result \<Rightarrow> Game" where
  "changed g r = (case r of Inl e \<Rightarrow> g | Inr (g', x) \<Rightarrow> g')"

fun effect :: "call \<Rightarrow> Game \<Rightarrow> Game" where
  "effect (Modify (Join i s name)) g = changed g (join_body s name g)"
| "effect (Modify (Decide i accepted)) g = changed g (decision_body accepted g)"
| "effect (Modify (Play i s row col)) g = changed g (move_body s row col g)"
| "effect (Modify (Answer i s wants)) g = changed g (answer_body s wants g)"
| "effect _ g = g"

section \<open>Threads and locks\<close>

type_synonym thread = nat

datatype Pc =
    Idle
  | Link Game
  | Linking Game
  | Call call
  | Search call "addr option" "addr option"
  | Found call "addr option" addr
  | Locked call "addr option" addr
  | Inside call addr
  | Unlocking addr
  | List_call
  | List_at "GameSnapshot list" "addr option"
  | List_found "GameSnapshot list" addr
  | List_locked "GameSnapshot list" addr
  | Collect_call socket u32
  | Collect_at socket u32 "u32 list" "addr option"
  | Release

text \<open>What took effect, and what it saw.\<close>

datatype entry =
    Took_id
  | Appended Game
  | Did call "Game option"
  | Listed "GameSnapshot list"

record Sys =
  memory :: GameHeap
  gm_lock :: "thread option"
  game_lock :: "addr \<Rightarrow> thread option"
  pcs :: "thread \<Rightarrow> Pc"
  history :: "entry list"

definition goto :: "thread \<Rightarrow> Pc \<Rightarrow> Sys \<Rightarrow> Sys" where
  "goto t p s = s\<lparr>pcs := (pcs s)(t := p)\<rparr>"

text \<open>Behind \<open>pthread_mutex_lock(&gm->lock)\<close>; the argument is \<open>gm->head\<close>.\<close>

fun enter :: "addr option \<Rightarrow> Pc \<Rightarrow> Pc option" where
  "enter first (Link g) = Some (Linking g)"
| "enter first (Call c) = Some (Search c None first)"
| "enter first List_call = Some (List_at [] first)"
| "enter first (Collect_call s i) = Some (Collect_at s i [] first)"
| "enter first _ = None"

inductive sys_step :: "thread \<Rightarrow> Sys \<Rightarrow> Sys \<Rightarrow> bool" for t where
  take_id: "pcs s t = Idle \<Longrightarrow>
    sys_step t s (goto t (Link (new_game (next_id (memory s)) sock owner))
      (s\<lparr>memory := (memory s)\<lparr>next_id := next_id (memory s) + 1\<rparr>, history := history s @ [Took_id]\<rparr>))"
| call: "pcs s t = Idle \<Longrightarrow> on_node c \<Longrightarrow> sys_step t s (goto t (Call c) s)"
| list_call: "pcs s t = Idle \<Longrightarrow> sys_step t s (goto t List_call s)"
| collect_call: "pcs s t = Idle \<Longrightarrow> sys_step t s (goto t (Collect_call sock i) s)"
| lock_gm: "enter (head_of (memory s)) (pcs s t) = Some p \<Longrightarrow> gm_lock s = None \<Longrightarrow>
    sys_step t s (goto t p (s\<lparr>gm_lock := Some t\<rparr>))"
| link: "pcs s t = Linking g \<Longrightarrow> nodes (memory s) a = None \<Longrightarrow> append_node a g (memory s) = Some hm \<Longrightarrow>
    sys_step t s (goto t Release (s\<lparr>memory := hm, history := history s @ [Appended g]\<rparr>))"
| search_end: "pcs s t = Search c prev None \<Longrightarrow>
    sys_step t s (goto t Release (s\<lparr>history := history s @ [Did c None]\<rparr>))"
| search_next: "pcs s t = Search c prev (Some a) \<Longrightarrow> nodes (memory s) a = Some n \<Longrightarrow>
    sys_step t s (goto t (if gid (node_game n) \<noteq> target c then Search c (Some a) (node_next n)
                          else Found c prev a) s)"
| lock_game: "pcs s t = Found c prev a \<Longrightarrow> game_lock s a = None \<Longrightarrow>
    sys_step t s (goto t (Locked c prev a) (s\<lparr>game_lock := (game_lock s)(a := Some t)\<rparr>))"
| hand_over: "pcs s t = Locked c prev a \<Longrightarrow> \<not> is_leave c \<Longrightarrow>
    sys_step t s (goto t (Inside c a) (s\<lparr>gm_lock := None\<rparr>))"
| work: "pcs s t = Inside c a \<Longrightarrow> nodes (memory s) a = Some n \<Longrightarrow>
    write_node a (effect c (node_game n)) (memory s) = Some hm \<Longrightarrow>
    sys_step t s (goto t (Unlocking a) (s\<lparr>memory := hm, history := history s @ [Did c (Some (node_game n))]\<rparr>))"
| unlock: "pcs s t = Unlocking a \<Longrightarrow>
    sys_step t s (goto t Idle (s\<lparr>game_lock := (game_lock s)(a := None)\<rparr>))"
| leave: "pcs s t = Locked (Modify (Leave i sock)) prev a \<Longrightarrow> nodes (memory s) a = Some n \<Longrightarrow>
    leave_node sock prev a (memory s) = Some r \<Longrightarrow>
    sys_step t s (goto t Release (s\<lparr>memory := case_sum (\<lambda>e. memory s) id r,
      history := history s @ [Did (Modify (Leave i sock)) (Some (node_game n))], game_lock := (game_lock s)(a := None)\<rparr>))"
| list_end: "pcs s t = List_at acc cur \<Longrightarrow> cur = None \<or> \<not> length acc < 10 \<Longrightarrow>
    sys_step t s (goto t Release (s\<lparr>history := history s @ [Listed acc]\<rparr>))"
| list_next: "pcs s t = List_at acc (Some a) \<Longrightarrow> length acc < 10 \<Longrightarrow>
    sys_step t s (goto t (List_found acc a) s)"
| list_lock: "pcs s t = List_found acc a \<Longrightarrow> game_lock s a = None \<Longrightarrow>
    sys_step t s (goto t (List_locked acc a) (s\<lparr>game_lock := (game_lock s)(a := Some t)\<rparr>))"
| list_read: "pcs s t = List_locked acc a \<Longrightarrow> nodes (memory s) a = Some n \<Longrightarrow>
    sys_step t s (goto t (List_at (if joinable (node_game n) then acc @ [snapshot (node_game n)] else acc)
      (node_next n)) (s\<lparr>game_lock := (game_lock s)(a := None)\<rparr>))"
| collect_end: "pcs s t = Collect_at sock i ids cur \<Longrightarrow> cur = None \<or> \<not> length ids < 128 \<Longrightarrow>
    sys_step t s (goto t Release s)"
| collect_next: "pcs s t = Collect_at sock i ids (Some a) \<Longrightarrow> length ids < 128 \<Longrightarrow>
    nodes (memory s) a = Some n \<Longrightarrow>
    sys_step t s (goto t (Collect_at sock i
      (if player_x_socket (node_game n) = sock \<and> gid (node_game n) \<noteq> i then ids @ [gid (node_game n)] else ids)
      (node_next n)) s)"
| release: "pcs s t = Release \<Longrightarrow> sys_step t s (goto t Idle (s\<lparr>gm_lock := None\<rparr>))"

inductive sys_reach :: "GameHeap \<Rightarrow> Sys \<Rightarrow> bool" for hm where
  start: "sys_reach hm \<lparr>memory = hm, gm_lock = None, game_lock = (\<lambda>a. None), pcs = (\<lambda>t. Idle), history = []\<rparr>"
| step: "sys_reach hm s \<Longrightarrow> sys_step t s s' \<Longrightarrow> sys_reach hm s'"

section \<open>Who holds which lock\<close>

fun has_gm :: "Pc \<Rightarrow> bool" where
  "has_gm (Linking g) \<longleftrightarrow> True"
| "has_gm (Search c prev cur) \<longleftrightarrow> True"
| "has_gm (Found c prev a) \<longleftrightarrow> True"
| "has_gm (Locked c prev a) \<longleftrightarrow> True"
| "has_gm (List_at acc cur) \<longleftrightarrow> True"
| "has_gm (List_found acc a) \<longleftrightarrow> True"
| "has_gm (List_locked acc a) \<longleftrightarrow> True"
| "has_gm (Collect_at s i ids cur) \<longleftrightarrow> True"
| "has_gm Release \<longleftrightarrow> True"
| "has_gm _ \<longleftrightarrow> False"

fun has_game :: "Pc \<Rightarrow> addr option" where
  "has_game (Locked c prev a) = Some a"
| "has_game (Inside c a) = Some a"
| "has_game (Unlocking a) = Some a"
| "has_game (List_locked acc a) = Some a"
| "has_game _ = None"

definition locks_ok :: "Sys \<Rightarrow> bool" where
  "locks_ok s \<longleftrightarrow> (\<forall>t. gm_lock s = Some t \<longleftrightarrow> has_gm (pcs s t)) \<and>
     (\<forall>t a. game_lock s a = Some t \<longleftrightarrow> has_game (pcs s t) = Some a)"

lemma goto_simps [simp]:
  "pcs (goto t p s) u = (if u = t then p else pcs s u)" "memory (goto t p s) = memory s"
  "gm_lock (goto t p s) = gm_lock s" "game_lock (goto t p s) = game_lock s" "history (goto t p s) = history s"
  by (simp_all add: goto_def)

lemma enter_has:
  "enter h p = Some q \<Longrightarrow> has_gm q \<and> \<not> has_gm p \<and> has_game p = None \<and> has_game q = None"
  by (induction h p rule: enter.induct) auto

lemma gm_holder_unique: "locks_ok s \<Longrightarrow> has_gm (pcs s t) \<Longrightarrow> has_gm (pcs s u) \<Longrightarrow> t = u"
  by (metis locks_ok_def option.inject)

lemma game_holder_unique: "locks_ok s \<Longrightarrow> has_game (pcs s t) = Some a \<Longrightarrow> has_game (pcs s u) = Some a \<Longrightarrow> t = u"
  by (metis locks_ok_def option.inject)

lemma game_lock_held: "locks_ok s \<Longrightarrow> has_game (pcs s t) = Some a \<Longrightarrow> game_lock s a = Some t"
  by (simp add: locks_ok_def)

lemma locks_ok_parts [simp]: "locks_ok (s\<lparr>memory := m\<rparr>) = locks_ok s" "locks_ok (s\<lparr>history := l\<rparr>) = locks_ok s"
  by (simp_all add: locks_ok_def)

lemma locks_goto:
  "locks_ok s \<Longrightarrow> has_gm p = has_gm (pcs s t) \<Longrightarrow> has_game p = has_game (pcs s t) \<Longrightarrow> locks_ok (goto t p s)"
  by (simp add: locks_ok_def)

lemma locks_gm_lock:
  "locks_ok s \<Longrightarrow> gm_lock s = None \<Longrightarrow> has_gm p \<Longrightarrow> has_game p = has_game (pcs s t) \<Longrightarrow>
   locks_ok (goto t p (s\<lparr>gm_lock := Some t\<rparr>))"
  by (simp add: locks_ok_def)

lemma locks_gm_unlock:
  assumes "locks_ok s" "has_gm (pcs s t)" "\<not> has_gm p" "has_game p = has_game (pcs s t)"
  shows "locks_ok (goto t p (s\<lparr>gm_lock := None\<rparr>))"
proof -
  have "has_gm (pcs s u) \<longleftrightarrow> u = t" for u
    using assms(1,2) gm_holder_unique by blast
  with assms show ?thesis by (simp add: locks_ok_def)
qed

lemma locks_game_lock:
  assumes "locks_ok s" "game_lock s a = None" "has_game p = Some a" "has_game (pcs s t) = None"
    "has_gm p = has_gm (pcs s t)"
  shows "locks_ok (goto t p (s\<lparr>game_lock := (game_lock s)(a := Some t)\<rparr>))"
proof -
  have "has_game (pcs s u) \<noteq> Some a" for u
    using assms(1,2) by (metis locks_ok_def option.distinct(1))
  with assms show ?thesis by (auto simp: locks_ok_def)
qed

lemma locks_game_unlock:
  assumes "locks_ok s" "has_game (pcs s t) = Some a" "has_game p = None" "has_gm p = has_gm (pcs s t)"
  shows "locks_ok (goto t p (s\<lparr>game_lock := (game_lock s)(a := None)\<rparr>))"
proof -
  have "has_game (pcs s u) \<noteq> Some a" if "u \<noteq> t" for u
    using assms(1,2) game_holder_unique that by blast
  with assms show ?thesis by (auto simp: locks_ok_def)
qed

lemmas locks_rules = locks_goto locks_gm_lock locks_gm_unlock locks_game_lock locks_game_unlock

lemma locks_step: "sys_step t s s' \<Longrightarrow> locks_ok s \<Longrightarrow> locks_ok s'"
proof (induction rule: sys_step.induct)
  case (lock_gm s p)
  then show ?case using enter_has [OF lock_gm(1)] by (simp add: locks_gm_lock)
next
  case (leave s i sock prev a n r)
  then show ?case
    using locks_game_unlock [of "s\<lparr>memory := case_sum (\<lambda>e. memory s) id r,
      history := history s @ [Did (Modify (Leave i sock)) (Some (node_game n))]\<rparr>" t a Release] by simp
qed (simp_all add: locks_rules)

section \<open>Where each thread stands in the list\<close>

text \<open>The nodes before a pointer into the list, all of them before \<open>NULL\<close>.\<close>

definition before :: "addr option \<Rightarrow> (addr \<times> Game) list \<Rightarrow> (addr \<times> Game) list" where
  "before cur xs = (case cur of None \<Rightarrow> xs | Some a \<Rightarrow> takeWhile (\<lambda>x. fst x \<noteq> a) xs)"

definition points_to :: "addr option \<Rightarrow> (addr \<times> Game) list \<Rightarrow> bool" where
  "points_to cur xs \<longleftrightarrow> (case cur of None \<Rightarrow> True | Some a \<Rightarrow> a \<in> fst ` set xs)"

definition passed :: "u32 \<Rightarrow> (addr \<times> Game) list \<Rightarrow> bool" where
  "passed i ys \<longleftrightarrow> (\<forall>y \<in> set ys. gid (snd y) \<noteq> i)"

definition has_id :: "u32 \<Rightarrow> addr \<Rightarrow> (addr \<times> Game) list \<Rightarrow> bool" where
  "has_id i a xs \<longleftrightarrow> (\<forall>x \<in> set xs. fst x = a \<longrightarrow> gid (snd x) = i)"

text \<open>The games listed so far are as they were read: nobody is in one of them.\<close>

definition listed :: "(addr \<Rightarrow> thread option) \<Rightarrow> GameSnapshot list \<Rightarrow> (addr \<times> Game) list \<Rightarrow> bool" where
  "listed L acc ys \<longleftrightarrow> acc = list_games_from (map snd ys) 0 \<and> (\<forall>y \<in> set ys. L (fst y) = None)"

definition searched :: "call \<Rightarrow> addr \<Rightarrow> (addr \<times> Game) list \<Rightarrow> bool" where
  "searched c a xs \<longleftrightarrow> on_node c \<and> points_to (Some a) xs \<and> passed (target c) (before (Some a) xs) \<and>
     has_id (target c) a xs"

fun pc_ok :: "(addr \<Rightarrow> thread option) \<Rightarrow> (addr \<times> Game) list \<Rightarrow> Pc \<Rightarrow> bool" where
  "pc_ok L xs (Call c) \<longleftrightarrow> on_node c"
| "pc_ok L xs (Search c prev cur) \<longleftrightarrow> on_node c \<and> points_to cur xs \<and> passed (target c) (before cur xs) \<and>
     prev = last_addr None (before cur xs)"
| "pc_ok L xs (Found c prev a) \<longleftrightarrow> searched c a xs \<and> prev = last_addr None (before (Some a) xs)"
| "pc_ok L xs (Locked c prev a) \<longleftrightarrow> searched c a xs \<and> prev = last_addr None (before (Some a) xs)"
| "pc_ok L xs (Inside c a) \<longleftrightarrow> searched c a xs \<and> \<not> is_leave c"
| "pc_ok L xs (Unlocking a) \<longleftrightarrow> points_to (Some a) xs"
| "pc_ok L xs (List_at acc cur) \<longleftrightarrow> points_to cur xs \<and> listed L acc (before cur xs)"
| "pc_ok L xs (List_found acc a) \<longleftrightarrow> points_to (Some a) xs \<and> listed L acc (before (Some a) xs) \<and> length acc < 10"
| "pc_ok L xs (List_locked acc a) \<longleftrightarrow> points_to (Some a) xs \<and> listed L acc (before (Some a) xs) \<and> length acc < 10"
| "pc_ok L xs (Collect_at s i ids cur) \<longleftrightarrow> points_to cur xs"
| "pc_ok L xs _ \<longleftrightarrow> True"

text \<open>Changing the game at an address, and removing an address.\<close>

definition change :: "addr \<Rightarrow> Game \<Rightarrow> (addr \<times> Game) list \<Rightarrow> (addr \<times> Game) list" where
  "change a g xs = map (\<lambda>x. if fst x = a then (a, g) else x) xs"

definition drop_addr :: "addr \<Rightarrow> (addr \<times> Game) list \<Rightarrow> (addr \<times> Game) list" where
  "drop_addr a xs = filter (\<lambda>x. fst x \<noteq> a) xs"

lemma map_fst_change [simp]: "map fst (change a g xs) = map fst xs"
  by (simp add: change_def)

lemma change_absent: "a \<notin> fst ` set xs \<Longrightarrow> change a g xs = xs"
  unfolding change_def by (rule map_idI) (auto simp: image_iff)

lemma drop_absent: "a \<notin> fst ` set xs \<Longrightarrow> drop_addr a xs = xs"
  unfolding drop_addr_def by (rule filter_True) (auto simp: image_iff)

lemma change_split:
  "distinct (map fst (ys @ (a, h) # zs)) \<Longrightarrow> change a g (ys @ (a, h) # zs) = ys @ (a, g) # zs"
  using change_absent [of a ys] change_absent [of a zs] by (simp add: change_def)

lemma drop_split:
  "distinct (map fst (ys @ (a, h) # zs)) \<Longrightarrow> drop_addr a (ys @ (a, h) # zs) = ys @ zs"
  using drop_absent [of a ys] drop_absent [of a zs] by (simp add: drop_addr_def)

lemma last_addr_change [simp]: "last_addr p (change a g xs) = last_addr p xs"
  by (auto simp: last_addr_def change_def last_map)

lemma before_change: "before cur (change a g xs) = change a g (before cur xs)"
proof (cases cur)
  case (Some b)
  then show ?thesis by (induction xs) (auto simp: before_def change_def)
qed (simp add: before_def)

lemma points_to_keys: "map fst xs = map fst ys \<Longrightarrow> points_to cur xs = points_to cur ys"
  by (simp add: points_to_def split: option.split) (metis list.set_map)

lemma points_to_change [simp]: "points_to cur (change a g xs) = points_to cur xs"
  by (rule points_to_keys) simp

lemma passed_change: "has_id (gid g) a xs \<Longrightarrow> passed i ys \<Longrightarrow> set ys \<subseteq> set xs \<Longrightarrow> passed i (change a g ys)"
  by (force simp: passed_def has_id_def change_def)

lemma before_subset: "set (before cur xs) \<subseteq> set xs"
  by (auto simp: before_def dest: set_takeWhileD split: option.splits)

lemma has_id_change: "has_id (gid g) a xs \<Longrightarrow> has_id i b xs \<Longrightarrow> has_id i b (change a g xs)"
  by (force simp: has_id_def change_def)

lemma listed_change: "listed L acc ys \<Longrightarrow> L a \<noteq> None \<Longrightarrow> listed L acc (change a g ys)"
  using change_absent [of a ys] by (force simp: listed_def)

lemma searched_change: "has_id (gid g) a xs \<Longrightarrow> searched c b xs \<Longrightarrow> searched c b (change a g xs)"
  by (simp add: searched_def before_change has_id_change passed_change [OF _ _ before_subset])

text \<open>What the steps of one thread leave of the position of another.\<close>

lemma pc_ok_change: "pc_ok L xs p \<Longrightarrow> L a \<noteq> None \<Longrightarrow> has_id (gid g) a xs \<Longrightarrow> pc_ok L (change a g xs) p"
  by (cases p) (simp_all add: before_change listed_change searched_change passed_change [OF _ _ before_subset])

lemma before_append: "points_to (Some a) xs \<Longrightarrow> before (Some a) (xs @ ys) = before (Some a) xs"
  by (auto simp: before_def points_to_def takeWhile_append1)

lemma before_drop: "a \<noteq> b \<Longrightarrow> before (Some a) (drop_addr b xs) = drop_addr b (before (Some a) xs)"
  by (induction xs) (auto simp: before_def drop_addr_def)

lemma points_to_more: "points_to (Some a) xs \<Longrightarrow> points_to (Some a) (xs @ ys)"
  "points_to (Some a) xs \<Longrightarrow> a \<noteq> b \<Longrightarrow> points_to (Some a) (drop_addr b xs)"
  by (auto simp: points_to_def drop_addr_def)

lemma searched_append: "searched c a xs \<Longrightarrow> a \<noteq> fst x \<Longrightarrow> searched c a (xs @ [x])"
  by (auto simp: searched_def before_append points_to_more has_id_def)

lemma searched_drop: "searched c a xs \<Longrightarrow> a \<noteq> b \<Longrightarrow> searched c a (drop_addr b xs)"
  by (simp add: searched_def before_drop points_to_more) (simp add: has_id_def passed_def drop_addr_def)

lemma pc_ok_append:
  assumes "pc_ok L xs p" "\<not> has_gm p" "fst x \<notin> fst ` set xs"
  shows "pc_ok L (xs @ [x]) p"
proof -
  have "a \<noteq> fst x" if "points_to (Some a) xs" for a using that assms(3) unfolding points_to_def option.case by metis
  then have "searched c a (xs @ [x])" if "searched c a xs" for c a
    using that searched_append unfolding searched_def by metis
  with assms show ?thesis by (cases p) (simp_all add: points_to_more)
qed

lemma pc_ok_drop: "pc_ok L xs p \<Longrightarrow> \<not> has_gm p \<Longrightarrow> has_game p \<noteq> Some b \<Longrightarrow> pc_ok L (drop_addr b xs) p"
  by (cases p) (simp_all add: searched_drop points_to_more)

lemma pc_ok_locks: "pc_ok L xs p \<Longrightarrow> \<not> has_gm p \<Longrightarrow> pc_ok L' xs p"
  by (cases p) simp_all

lemma pc_ok_unlock: "pc_ok L xs p \<Longrightarrow> pc_ok (L(a := None)) xs p"
  by (cases p) (simp_all add: listed_def)

section \<open>Effects of the operations\<close>

fun call_apply :: "call \<Rightarrow> GameManager \<Rightarrow> GameManager" where
  "call_apply (Modify ev) gm = gm_apply ev gm"
| "call_apply (Read i) gm = gm"

text \<open>An entry of the log is one atomic operation on the list, with the answer it gave.\<close>

fun lin_apply :: "entry \<Rightarrow> GameManager \<Rightarrow> GameManager option" where
  "lin_apply Took_id gm = Some (gm\<lparr>next_game_id := next_game_id gm + 1\<rparr>)"
| "lin_apply (Appended g) gm = Some (append_game gm g)"
| "lin_apply (Did c found) gm =
     (if found = find_game (games gm) (target c) then Some (call_apply c gm) else None)"
| "lin_apply (Listed snaps) gm = (if snaps = game_manager_list_games gm then Some gm else None)"

fun lin_run :: "entry list \<Rightarrow> GameManager \<Rightarrow> GameManager option" where
  "lin_run [] gm = Some gm"
| "lin_run (e # es) gm = do { gm \<leftarrow> lin_apply e gm; lin_run es gm }"

lemma lin_run_snoc: "lin_run (es @ [e]) gm = do { gm \<leftarrow> lin_run es gm; lin_apply e gm }"
  by (induction es arbitrary: gm) (auto split: Option.bind_split)

lemma put_game_same: "find_game gs i = Some g \<Longrightarrow> put_game gs i g = gs"
  by (induction gs i rule: find_game.induct) (auto split: if_splits)

lemma set_game_same: "find_game (games gm) i = Some g \<Longrightarrow> set_game gm g = gm"
  using put_game_same find_game_gid by (fastforce simp: set_game_def)

lemma keep_at_list:
  "keep gm fst (at_list body i gm) =
   (case find_game (games gm) i of None \<Rightarrow> gm | Some g \<Rightarrow> set_game gm (changed g (body g)))"
  by (auto simp: keep_def at_list_def changed_def set_game_same split: option.split sum.split)

lemma call_apply_found:
  assumes "on_node c" "\<not> is_leave c"
  shows "call_apply c gm =
    (case find_game (games gm) (target c) of None \<Rightarrow> gm | Some g \<Rightarrow> set_game gm (effect c g))"
proof (cases c)
  case (Read i)
  then show ?thesis by (simp add: set_game_same split: option.split)
next
  case (Modify ev)
  show ?thesis
  proof (cases ev)
    case (Join i s name)
    have "keep gm id (map_sum id fst l) = keep gm fst l" for l :: "(GameManager \<times> unit) result"
      by (simp add: keep_def split: sum.split)
    then show ?thesis unfolding Modify Join by (simp add: at_list_join keep_at_list split: option.split)
  qed (use assms in \<open>unfold Modify, simp_all add: at_list_decision at_list_move at_list_post_game keep_at_list split: option.split\<close>)
qed

lemma call_apply_missing: "on_node c \<Longrightarrow> find_game (games gm) (target c) = None \<Longrightarrow> call_apply c gm = gm"
proof (cases "is_leave c")
  case True
  then obtain i s where "c = Modify (Leave i s)" by (cases c rule: is_leave.cases) auto
  moreover assume "find_game (games gm) (target c) = None"
  ultimately show ?thesis by (simp add: keep_def leave_game_unfold)
qed (simp add: call_apply_found)

lemma gid_changed: "keeps_gid body \<Longrightarrow> gid (changed g (body g)) = gid g"
  by (auto simp: keeps_gid_def changed_def split: sum.split)

lemma gid_effect: "gid (effect c g) = gid g"
  by (induction c g rule: effect.induct)
    (simp_all add: gid_changed keeps_gid_bodies keeps_gid_move keeps_gid_answer)

section \<open>Cursors\<close>

lemma cursor_node: "holds hm xs \<Longrightarrow> points_to (Some a) xs \<Longrightarrow> \<exists>n. nodes hm a = Some n"
  by (auto simp: holds_def points_to_def)

lemma cursor_next:
  assumes h: "holds hm xs" and p: "points_to (Some a) xs" and n: "nodes hm a = Some n"
  shows "\<exists>zs. xs = before (Some a) xs @ (a, node_game n) # zs" "points_to (node_next n) xs"
    "before (node_next n) xs = before (Some a) xs @ [(a, node_game n)]"
proof -
  obtain ys g zs where x: "xs = ys @ (a, g) # zs"
    using p by (auto simp: points_to_def dest: split_list)
  obtain m where m: "nodes hm a = Some \<lparr>node_game = g, node_next = m\<rparr>" "seg (nodes hm) m zs None"
    "a \<notin> fst ` set ys" using holds_middle [OF h [unfolded x]] .
  have b: "before (Some a) xs = ys" using m(3) by (auto simp: before_def x takeWhile_tail image_iff)
  have d: "distinct (map fst xs)" using h by (simp add: holds_def)
  show "\<exists>zs. xs = before (Some a) xs @ (a, node_game n) # zs" using x b m(1) n by simp
  show "points_to (node_next n) xs" "before (node_next n) xs = before (Some a) xs @ [(a, node_game n)]"
  proof -
    show "points_to (node_next n) xs"
      using m n x by (cases zs) (auto simp: points_to_def)
    show "before (node_next n) xs = before (Some a) xs @ [(a, node_game n)]"
    proof (cases zs)
      case Nil
      with m n x b show ?thesis by (auto simp: before_def)
    next
      case (Cons z zs')
      obtain c k where z: "z = (c, k)" by (cases z)
      have "node_next n = Some c" using m n Cons z by simp
      moreover have "\<forall>y \<in> set (ys @ [(a, g)]). fst y \<noteq> c" using d by (auto simp: x Cons z)
      then have "takeWhile (\<lambda>y. fst y \<noteq> c) ((ys @ [(a, g)]) @ z # zs') = ys @ [(a, g)]"
        by (subst takeWhile_append2) (auto simp: z)
      ultimately show ?thesis using m(1) n by (simp add: before_def [of "Some c"] b) (simp add: x Cons z)
    qed
  qed
qed

lemma cursor_start: "holds hm xs \<Longrightarrow> points_to (head_of hm) xs \<and> before (head_of hm) xs = []"
  by (cases xs) (auto simp: holds_def points_to_def before_def)

section \<open>The invariant\<close>

definition data_ok :: "GameManager \<Rightarrow> Sys \<Rightarrow> (addr \<times> Game) list \<Rightarrow> bool" where
  "data_ok gm0 s xs \<longleftrightarrow> (\<exists>gm. lin_run (history s) gm0 = Some gm \<and> holds (memory s) xs \<and>
     games gm = map snd xs \<and> next_id (memory s) = next_game_id gm)"

definition pcs_ok :: "Sys \<Rightarrow> (addr \<times> Game) list \<Rightarrow> bool" where
  "pcs_ok s xs \<longleftrightarrow> (\<forall>u. pc_ok (game_lock s) xs (pcs s u))"

definition sys_inv :: "GameManager \<Rightarrow> Sys \<Rightarrow> bool" where
  "sys_inv gm0 s \<longleftrightarrow> locks_ok s \<and> (\<exists>xs. data_ok gm0 s xs \<and> pcs_ok s xs)"

lemma data_okI:
  "lin_run (history s) gm0 = Some gm \<Longrightarrow> holds (memory s) xs \<Longrightarrow> games gm = map snd xs \<Longrightarrow>
   next_id (memory s) = next_game_id gm \<Longrightarrow> data_ok gm0 s xs"
  by (auto simp: data_ok_def)

lemma data_ok_cong: "memory s' = memory s \<Longrightarrow> history s' = history s \<Longrightarrow> data_ok gm0 s' xs = data_ok gm0 s xs"
  by (simp add: data_ok_def)

lemma data_ok_goto [simp]: "data_ok gm0 (goto t p s) xs = data_ok gm0 s xs"
  by (rule data_ok_cong) simp_all

lemma holds_next_id [simp]: "holds (hm\<lparr>next_id := i\<rparr>) xs = holds hm xs"
  by (simp add: holds_def)

lemma pcs_gotoI:
  "(\<And>u. u \<noteq> t \<Longrightarrow> pc_ok (game_lock s) xs (pcs s u)) \<Longrightarrow> pc_ok (game_lock s) xs p \<Longrightarrow> pcs_ok (goto t p s) xs"
  by (simp add: pcs_ok_def)

lemma pcs_okD: "pcs_ok s xs \<Longrightarrow> pc_ok (game_lock s) xs (pcs s u)"
  by (simp add: pcs_ok_def)

text \<open>A thread that moves on without touching locks or memory.\<close>

lemma pcs_move: "pcs_ok s xs \<Longrightarrow> pc_ok (game_lock s) xs p \<Longrightarrow> pcs_ok (goto t p s) xs"
  by (simp add: pcs_ok_def)

lemma pcs_ok_parts [simp]: "pcs_ok (s\<lparr>memory := m\<rparr>) xs = pcs_ok s xs" "pcs_ok (s\<lparr>history := l\<rparr>) xs = pcs_ok s xs"
  "pcs_ok (s\<lparr>gm_lock := k\<rparr>) xs = pcs_ok s xs"
  by (simp_all add: pcs_ok_def)

lemma data_ok_parts [simp]: "data_ok gm0 (s\<lparr>game_lock := L\<rparr>) xs = data_ok gm0 s xs"
  "data_ok gm0 (s\<lparr>gm_lock := k\<rparr>) xs = data_ok gm0 s xs"
  by (simp_all add: data_ok_def)

lemma find_passed:
  "passed i ys \<Longrightarrow> gid g = i \<Longrightarrow> find_game (map snd (ys @ (a, g) # zs)) i = Some g"
  "passed i ys \<Longrightarrow> find_game (map snd ys) i = None"
  by (induction ys) (auto simp: passed_def)

text \<open>The node a thread has found.\<close>

lemma searched_node:
  assumes h: "holds hm xs" and s: "searched c a xs" and n: "nodes hm a = Some n"
  shows "find_game (map snd xs) (target c) = Some (node_game n)" "gid (node_game n) = target c"
    "\<exists>ys zs. xs = ys @ (a, node_game n) # zs \<and> ys = before (Some a) xs \<and> passed (target c) ys"
proof -
  obtain zs where x: "xs = before (Some a) xs @ (a, node_game n) # zs"
    using cursor_next(1) [OF h _ n] s by (auto simp: searched_def)
  from x have "(a, node_game n) \<in> set xs" by (metis in_set_conv_decomp)
  then show i: "gid (node_game n) = target c" using s by (auto simp: searched_def has_id_def)
  show "\<exists>ys zs. xs = ys @ (a, node_game n) # zs \<and> ys = before (Some a) xs \<and> passed (target c) ys"
    using x s by (auto simp: searched_def)
  show "find_game (map snd xs) (target c) = Some (node_game n)"
    using x s i find_passed(1) by (metis searched_def)
qed

lemma has_idI: "holds hm xs \<Longrightarrow> nodes hm a = Some n \<Longrightarrow> points_to (Some a) xs \<Longrightarrow> has_id (gid (node_game n)) a xs"
proof -
  assume h: "holds hm xs" and n: "nodes hm a = Some n" and p: "points_to (Some a) xs"
  obtain zs where "xs = before (Some a) xs @ (a, node_game n) # zs" using cursor_next(1) [OF h p n] by blast
  then obtain ys where x: "xs = ys @ (a, node_game n) # zs" by blast
  have "distinct (map fst xs)" using h by (simp add: holds_def)
  then show ?thesis unfolding x has_id_def by (auto simp: image_iff)
qed

lemma not_before: "x \<in> set (before (Some a) xs) \<Longrightarrow> fst x \<noteq> a"
  by (auto simp: before_def dest: set_takeWhileD)

lemma before_prefix: "\<exists>zs. xs = before cur xs @ zs"
  by (cases cur) (auto simp: before_def intro: exI [of _ "dropWhile (\<lambda>x. fst x \<noteq> the cur) xs"])

section \<open>Every step keeps the invariant\<close>

lemma step_link:
  assumes d: "data_ok gm0 s xs" and p: "pcs_ok s xs" and l: "locks_ok s"
    and t: "pcs s t = Linking g" "nodes (memory s) a = None" "append_node a g (memory s) = Some hm"
  shows "\<exists>xs. data_ok gm0 (goto t Release (s\<lparr>memory := hm, history := history s @ [Appended g]\<rparr>)) xs \<and>
    pcs_ok (goto t Release (s\<lparr>memory := hm, history := history s @ [Appended g]\<rparr>)) xs"
proof -
  obtain gm where gm: "lin_run (history s) gm0 = Some gm" "holds (memory s) xs" "games gm = map snd xs"
    "next_id (memory s) = next_game_id gm" using d by (auto simp: data_ok_def)
  have hm: "holds hm (xs @ [(a, g)])" "next_id hm = next_id (memory s)"
    using holds_append [OF gm(2) t(2), of g] t(3) by auto
  have "a \<notin> fst ` set xs" using gm(2) t(2) by (auto simp: holds_def)
  moreover have "\<not> has_gm (pcs s u)" if "u \<noteq> t" for u
    using gm_holder_unique [OF l, of t u] t(1) that by auto
  ultimately have "pc_ok (game_lock s) (xs @ [(a, g)]) (pcs s u)" if "u \<noteq> t" for u
    using pc_ok_append [OF pcs_okD [OF p]] that by simp
  then have "pcs_ok (goto t Release (s\<lparr>memory := hm, history := history s @ [Appended g]\<rparr>)) (xs @ [(a, g)])"
    by (intro pcs_gotoI) simp_all
  moreover have "data_ok gm0 (goto t Release (s\<lparr>memory := hm, history := history s @ [Appended g]\<rparr>)) (xs @ [(a, g)])"
    using gm hm by (intro data_okI [where gm = "append_game gm g"]) (simp_all add: lin_run_snoc append_game_def)
  ultimately show ?thesis by blast
qed

lemma step_work:
  assumes d: "data_ok gm0 s xs" and p: "pcs_ok s xs" and l: "locks_ok s"
    and t: "pcs s t = Inside c a" "nodes (memory s) a = Some n"
      "write_node a (effect c (node_game n)) (memory s) = Some hm"
  defines "s' \<equiv> goto t (Unlocking a) (s\<lparr>memory := hm, history := history s @ [Did c (Some (node_game n))]\<rparr>)"
  shows "\<exists>xs. data_ok gm0 s' xs \<and> pcs_ok s' xs"
proof -
  let ?g = "effect c (node_game n)" let ?xs = "change a (effect c (node_game n)) xs"
  obtain gm where gm: "lin_run (history s) gm0 = Some gm" "holds (memory s) xs" "games gm = map snd xs"
    "next_id (memory s) = next_game_id gm" using d by (auto simp: data_ok_def)
  have c: "searched c a xs" "on_node c" "\<not> is_leave c"
    using pcs_okD [OF p, of t] t(1) by (auto simp: searched_def)
  note f = searched_node [OF gm(2) c(1) t(2)]
  obtain ys zs where x: "xs = ys @ (a, node_game n) # zs" "passed (target c) ys" using f(3) by blast
  have "distinct (map fst xs)" using gm(2) by (simp add: holds_def)
  then have x': "?xs = ys @ (a, ?g) # zs" using change_split x(1) by simp
  have hm: "holds hm ?xs" "next_id hm = next_id (memory s)"
    using holds_write [OF gm(2) [unfolded x(1)], of ?g] t(3) by (auto simp: x')
  have gid: "gid ?g = target c" using f(2) by (simp add: gid_effect)
  have "call_apply c gm = set_game gm ?g" using call_apply_found [OF c(2,3), of gm] f(1) gm(3) by simp
  moreover have "games (set_game gm ?g) = map snd ?xs"
    unfolding x' using put_remove_split(1) [of ys "target c" "node_game n" a zs ?g] x f(2)
    by (simp add: set_game_def gid gm(3) passed_def)
  ultimately have "data_ok gm0 s' ?xs"
    unfolding s'_def using gm hm f(1)
    by (intro data_okI [where gm = "set_game gm ?g"]) (simp_all add: lin_run_snoc set_game_def)
  moreover have "game_lock s a \<noteq> None" using game_lock_held [OF l, of t a] t(1) by simp
  moreover have "has_id (gid ?g) a xs"
    using has_idI [OF gm(2) t(2)] c(1) by (simp add: gid_effect searched_def)
  ultimately have "pc_ok (game_lock s) ?xs (pcs s u)" for u
    using pc_ok_change [OF pcs_okD [OF p]] by blast
  moreover have "points_to (Some a) xs" using c(1) by (simp add: searched_def)
  ultimately have "pcs_ok s' ?xs" unfolding s'_def by (intro pcs_gotoI) simp_all
  with \<open>data_ok gm0 s' ?xs\<close> show ?thesis by blast
qed

text \<open>Leaving: the list it leaves, and how the list has changed.\<close>

lemma leave_outcome:
  assumes h: "holds hm xs" and c: "searched (Modify (Leave i sock)) a xs" and n: "nodes hm a = Some n"
    and r: "leave_node sock (last_addr None (before (Some a) xs)) a hm = Some r" and gm: "games gm = map snd xs"
  shows "\<exists>xs'. holds (case_sum (\<lambda>e. hm) id r) xs' \<and> next_id (case_sum (\<lambda>e. hm) id r) = next_id hm \<and>
    games (gm_apply (Leave i sock) gm) = map snd xs' \<and>
    next_game_id (gm_apply (Leave i sock) gm) = next_game_id gm \<and>
    (xs' = xs \<or> xs' = drop_addr a xs \<or> (\<exists>g. xs' = change a g xs \<and> gid g = i))"
proof -
  let ?g = "node_game n"
  note f = searched_node [OF h c n, unfolded target.simps]
  obtain ys zs where x: "xs = ys @ (a, ?g) # zs" "passed i ys" "ys = before (Some a) xs" using f(3) by auto
  have dist: "distinct (map fst (ys @ (a, ?g) # zs))" using h by (simp add: holds_def x(1))
  have find: "find_game (games gm) i = Some ?g" using f(1) gm by simp
  have pr: "\<forall>y \<in> set ys. gid (snd y) \<noteq> i" "gid ?g = i" using x(2) f(2) by (simp_all add: passed_def)
  note leave = r [folded x(3)]
  note outcome = holds_leave [OF h [unfolded x(1)], of sock]
  show ?thesis
  proof (cases "vacate ?g sock")
    case None
    then have "r = Inl Minus1" using outcome leave by simp
    moreover have "gm_apply (Leave i sock) gm = gm" using find None by (simp add: leave_game_unfold keep_def)
    ultimately show ?thesis using h gm by (intro exI [of _ xs]) simp
  next
    case (Some g')
    let ?xs = "ys @ (if vacant g' then zs else (a, g') # zs)"
    have gid: "gid g' = i" using gid_vacate [OF Some] pr(2) by simp
    obtain hm' where hm': "r = Inr hm'" "next_id hm' = next_id hm" "holds hm' ?xs"
      using outcome leave Some by auto
    have g1: "gm_apply (Leave i sock) gm = (if vacant g' then unlink_game gm i else set_game gm g')"
      using find Some by (simp add: leave_game_unfold keep_def)
    have "games (gm_apply (Leave i sock) gm) = map snd ?xs"
      using put_remove_split(1) [OF pr, of a zs g'] put_remove_split(2) [OF pr, of a zs] unfolding g1
      by (simp add: unlink_game_def set_game_def gid gm x(1))
    moreover have "next_game_id (gm_apply (Leave i sock) gm) = next_game_id gm"
      unfolding g1 by (simp add: unlink_game_def set_game_def)
    moreover have "?xs = drop_addr a xs \<or> (\<exists>g. ?xs = change a g xs \<and> gid g = i)"
      using drop_split [OF dist] change_split [OF dist] gid by (auto simp: x(1))
    ultimately show ?thesis using hm' by (intro exI [of _ ?xs]) auto
  qed
qed

lemma step_leave:
  assumes d: "data_ok gm0 s xs" and p: "pcs_ok s xs" and l: "locks_ok s"
    and t: "pcs s t = Locked (Modify (Leave i sock)) prev a" "nodes (memory s) a = Some n"
      "leave_node sock prev a (memory s) = Some r"
  defines "s' \<equiv> goto t Release (s\<lparr>memory := case_sum (\<lambda>e. memory s) id r,
      history := history s @ [Did (Modify (Leave i sock)) (Some (node_game n))], game_lock := (game_lock s)(a := None)\<rparr>)"
  shows "\<exists>xs. data_ok gm0 s' xs \<and> pcs_ok s' xs"
proof -
  obtain gm where gm: "lin_run (history s) gm0 = Some gm" "holds (memory s) xs" "games gm = map snd xs"
    "next_id (memory s) = next_game_id gm" using d by (auto simp: data_ok_def)
  have c: "searched (Modify (Leave i sock)) a xs" "prev = last_addr None (before (Some a) xs)"
    using pcs_okD [OF p, of t] t(1) by simp_all
  have find: "find_game (games gm) i = Some (node_game n)"
    using searched_node(1) [OF gm(2) c(1) t(2)] gm(3) by simp
  obtain xs' where xs': "holds (case_sum (\<lambda>e. memory s) id r) xs'"
    "next_id (case_sum (\<lambda>e. memory s) id r) = next_id (memory s)"
    "games (gm_apply (Leave i sock) gm) = map snd xs'"
    "next_game_id (gm_apply (Leave i sock) gm) = next_game_id gm"
    "xs' = xs \<or> xs' = drop_addr a xs \<or> (\<exists>g. xs' = change a g xs \<and> gid g = i)"
    using leave_outcome [OF gm(2) c(1) t(2) t(3) [unfolded c(2)] gm(3)] by blast
  have "data_ok gm0 s' xs'"
    unfolding s'_def using gm find xs'(1-4)
    by (intro data_okI [where gm = "gm_apply (Leave i sock) gm"]) (simp_all add: lin_run_snoc)
  moreover have "game_lock s a \<noteq> None" using game_lock_held [OF l, of t a] t(1) by simp
  then have "pc_ok (game_lock s) xs' (pcs s u)" if "u \<noteq> t" for u
    using xs'(5) pcs_okD [OF p, of u] pc_ok_drop pc_ok_change c(1) that
      gm_holder_unique [OF l, of t u] game_holder_unique [OF l, of t a u] t(1)
    by (auto simp: searched_def)
  then have "pcs_ok s' xs'"
    unfolding s'_def using pc_ok_unlock by (intro pcs_gotoI) simp_all
  ultimately show ?thesis by blast
qed

text \<open>The listing: what was read is what the list shows now.\<close>

lemma listed_more:
  assumes "listed L acc ys" "length acc < 10" "L a = None"
  shows "listed L (if joinable g then acc @ [snapshot g] else acc) (ys @ [(a, g)])"
proof -
  have acc: "acc = map snapshot (take 10 (filter joinable (map snd ys)))"
    using assms(1) by (simp add: listed_def list_games_from_eq)
  with assms(2) have "length (filter joinable (map snd ys)) < 10" by simp
  with acc assms(1,3) show ?thesis by (auto simp: listed_def list_games_from_eq)
qed

lemma listed_all:
  assumes "listed L acc (before cur xs)" "cur = None \<or> \<not> length acc < 10"
  shows "acc = list_games_from (map snd xs) 0"
proof -
  obtain zs where zs: "xs = before cur xs @ zs" using before_prefix by blast
  let ?f = "filter joinable (map snd (before cur xs))"
  have acc: "acc = map snapshot (take 10 ?f)"
    using assms(1) by (simp add: listed_def list_games_from_eq)
  show ?thesis
  proof (cases cur)
    case None
    with assms(1) show ?thesis by (simp add: listed_def before_def)
  next
    case (Some a)
    with assms(2) acc have "\<not> length ?f < 10" by auto
    then have "take 10 (filter joinable (map snd (before cur xs @ zs))) = take 10 ?f" by simp
    with acc show ?thesis by (metis list_games_from_eq diff_zero zs)
  qed
qed

text \<open>Steps that change neither the nodes nor the locks of games.\<close>

lemma stays:
  "data_ok gm0 s xs \<Longrightarrow> pcs_ok s xs \<Longrightarrow> pc_ok (game_lock s) xs p \<Longrightarrow>
   \<exists>xs. data_ok gm0 (goto t p s) xs \<and> pcs_ok (goto t p s) xs"
  using pcs_move by auto

lemma stays_gm_lock:
  "data_ok gm0 s xs \<Longrightarrow> pcs_ok s xs \<Longrightarrow> pc_ok (game_lock s) xs p \<Longrightarrow>
   \<exists>xs. data_ok gm0 (goto t p (s\<lparr>gm_lock := k\<rparr>)) xs \<and> pcs_ok (goto t p (s\<lparr>gm_lock := k\<rparr>)) xs"
  by (rule stays [of _ _ xs]) simp_all

lemma step_take_id:
  assumes "data_ok gm0 s xs" "pcs_ok s xs"
  defines "s' \<equiv> s\<lparr>memory := (memory s)\<lparr>next_id := next_id (memory s) + 1\<rparr>, history := history s @ [Took_id]\<rparr>"
  shows "\<exists>xs. data_ok gm0 (goto t (Link g) s') xs \<and> pcs_ok (goto t (Link g) s') xs"
proof (rule stays [of _ _ xs])
  obtain gm where gm: "lin_run (history s) gm0 = Some gm" "holds (memory s) xs" "games gm = map snd xs"
    "next_id (memory s) = next_game_id gm" using assms(1) by (auto simp: data_ok_def)
  then show "data_ok gm0 s' xs"
    by (intro data_okI [where gm = "gm\<lparr>next_game_id := next_game_id gm + 1\<rparr>"]) (simp_all add: s'_def lin_run_snoc)
qed (use assms in \<open>simp_all add: s'_def\<close>)

text \<open>Steps that take effect without changing the list.\<close>

lemma step_logged:
  assumes d: "data_ok gm0 s xs" "pcs_ok s xs"
    and e: "\<And>gm. games gm = map snd xs \<Longrightarrow> lin_apply e gm = Some gm"
  shows "\<exists>xs. data_ok gm0 (goto t Release (s\<lparr>history := history s @ [e]\<rparr>)) xs \<and>
    pcs_ok (goto t Release (s\<lparr>history := history s @ [e]\<rparr>)) xs"
proof (rule stays [of _ _ xs])
  obtain gm where gm: "lin_run (history s) gm0 = Some gm" "holds (memory s) xs" "games gm = map snd xs"
    "next_id (memory s) = next_game_id gm" using d(1) by (auto simp: data_ok_def)
  then show "data_ok gm0 (s\<lparr>history := history s @ [e]\<rparr>) xs"
    using e by (intro data_okI [where gm = gm]) (simp_all add: lin_run_snoc)
qed (use d in simp_all)

lemma search_next_ok:
  assumes h: "holds hm xs" and p: "pc_ok L xs (Search c prev (Some a))" and n: "nodes hm a = Some n"
  shows "pc_ok L xs (if gid (node_game n) \<noteq> target c then Search c (Some a) (node_next n) else Found c prev a)"
proof -
  have o: "on_node c" "points_to (Some a) xs" "passed (target c) (before (Some a) xs)"
    "prev = last_addr None (before (Some a) xs)" using p by simp_all
  show ?thesis
  proof (cases "gid (node_game n) = target c")
    case True
    with o has_idI [OF h n o(2)] show ?thesis by (simp add: searched_def)
  next
    case False
    with o cursor_next(2,3) [OF h o(2) n] show ?thesis by (simp add: passed_def)
  qed
qed

text \<open>Steps that change the lock of a game, taken by the holder of \<open>gm->lock\<close>.\<close>

lemma step_game_lock:
  assumes d: "data_ok gm0 s xs" "pcs_ok s xs" and l: "locks_ok s" "has_gm (pcs s t)" and p: "pc_ok L xs p"
  shows "\<exists>xs. data_ok gm0 (goto t p (s\<lparr>game_lock := L\<rparr>)) xs \<and> pcs_ok (goto t p (s\<lparr>game_lock := L\<rparr>)) xs"
proof -
  have "pc_ok L xs (pcs s u)" if "u \<noteq> t" for u
    using gm_holder_unique [OF l(1), of t u] l(2) that pc_ok_locks [OF pcs_okD [OF d(2)]] by blast
  then have "pcs_ok (goto t p (s\<lparr>game_lock := L\<rparr>)) xs" using p by (intro pcs_gotoI) simp_all
  with d(1) show ?thesis by auto
qed

lemma list_lock_ok: "pc_ok L xs (List_found acc a) \<Longrightarrow> pc_ok (L(a := Some t)) xs (List_locked acc a)"
  using not_before by (fastforce simp: listed_def)

lemma list_read_ok:
  assumes h: "holds hm xs" and p: "pc_ok L xs (List_locked acc a)" and n: "nodes hm a = Some n"
  shows "pc_ok (L(a := None)) xs
    (List_at (if joinable (node_game n) then acc @ [snapshot (node_game n)] else acc) (node_next n))"
proof -
  have o: "points_to (Some a) xs" "listed L acc (before (Some a) xs)" "length acc < 10" using p by simp_all
  then have "listed (L(a := None)) acc (before (Some a) xs)" by (simp add: listed_def)
  from listed_more [OF this o(3), of a "node_game n"] cursor_next(2,3) [OF h o(1) n] show ?thesis by simp
qed

lemma enter_ok: "enter (head_of hm) p = Some q \<Longrightarrow> holds hm xs \<Longrightarrow> pc_ok L xs p \<Longrightarrow> pc_ok L xs q"
  using cursor_start [of hm xs] by (cases p) (auto simp: passed_def listed_def)

lemma inv_step:
  assumes step: "sys_step t s s'" and inv: "sys_inv gm0 s"
  shows "sys_inv gm0 s'"
proof -
  obtain xs where l: "locks_ok s" and d: "data_ok gm0 s xs" and p: "pcs_ok s xs"
    using inv by (auto simp: sys_inv_def)
  have h: "holds (memory s) xs" using d by (auto simp: data_ok_def)
  note pt = pcs_okD [OF p, of t] and rules = stays [OF d p] stays_gm_lock [OF d p]
  from step have "\<exists>xs. data_ok gm0 s' xs \<and> pcs_ok s' xs"
  proof cases
    case take_id
    then show ?thesis using step_take_id [OF d p] by simp
  next
    case lock_gm
    then show ?thesis using enter_ok [OF _ h pt] rules by blast
  next
    case link
    then show ?thesis using step_link [OF d p l] by blast
  next
    case (search_end c prev)
    have "lin_apply (Did c None) gm = Some gm" if "games gm = map snd xs" for gm
      using pt search_end(2) find_passed(2) [of "target c" xs] that by (simp add: before_def call_apply_missing)
    from step_logged [OF d p this] show ?thesis unfolding search_end(1) .
  next
    case search_next
    then show ?thesis using search_next_ok [OF h] pt rules by metis
  next
    case lock_game
    then show ?thesis using step_game_lock [OF d p l] pt by simp
  next
    case hand_over
    then show ?thesis using pt rules by simp
  next
    case work
    then show ?thesis using step_work [OF d p l] by blast
  next
    case (unlock a)
    show ?thesis unfolding unlock(1) using d pc_ok_unlock [OF pcs_okD [OF p]]
      by (intro exI [of _ xs] conjI pcs_gotoI) simp_all
  next
    case leave
    then show ?thesis using step_leave [OF d p l] by blast
  next
    case (list_end acc cur)
    have "lin_apply (Listed acc) gm = Some gm" if "games gm = map snd xs" for gm
      using listed_all [of "game_lock s" acc cur xs] pt list_end(2,3) that by (simp add: game_manager_list_games_def)
    from step_logged [OF d p this] show ?thesis unfolding list_end(1) .
  next
    case list_next
    then show ?thesis using pt rules by simp
  next
    case list_lock
    then show ?thesis using step_game_lock [OF d p l] list_lock_ok pt by simp
  next
    case list_read
    then show ?thesis using step_game_lock [OF d p l] list_read_ok [OF h] pt by (metis has_gm.simps(7))
  next
    case collect_next
    then show ?thesis using pt cursor_next(2) [OF h] rules by simp
  qed (use rules in simp_all)
  with locks_step [OF step l] show ?thesis by (simp add: sys_inv_def)
qed

lemma inv_start:
  "refines hm gm0 \<Longrightarrow>
   sys_inv gm0 \<lparr>memory = hm, gm_lock = None, game_lock = (\<lambda>a. None), pcs = (\<lambda>t. Idle), history = []\<rparr>"
  by (auto simp: sys_inv_def locks_ok_def pcs_ok_def data_ok_def refines_def)

lemma reach_inv: "sys_reach hm s \<Longrightarrow> refines hm gm0 \<Longrightarrow> sys_inv gm0 s"
  by (induction rule: sys_reach.induct) (auto intro: inv_start inv_step)

section \<open>Progress\<close>

text \<open>What a thread waits for.\<close>

fun waits_gm :: "Pc \<Rightarrow> bool" where
  "waits_gm (Link g) \<longleftrightarrow> True"
| "waits_gm (Call c) \<longleftrightarrow> True"
| "waits_gm List_call \<longleftrightarrow> True"
| "waits_gm (Collect_call s i) \<longleftrightarrow> True"
| "waits_gm _ \<longleftrightarrow> False"

fun waits_game :: "Pc \<Rightarrow> addr option" where
  "waits_game (Found c prev a) = Some a"
| "waits_game (List_found acc a) = Some a"
| "waits_game _ = None"

lemma enter_waits: "waits_gm p \<Longrightarrow> \<exists>q. enter h p = Some q"
  by (cases p) auto

lemma cursor_moves:
  assumes "holds (memory s) xs" "points_to cur xs"
  shows "cur = None \<or> (\<exists>a n. cur = Some a \<and> nodes (memory s) a = Some n)"
  using cursor_node assms by (cases cur) auto

lemma fresh_node: "holds hm xs \<Longrightarrow> \<exists>a. nodes hm a = None"
proof -
  assume "holds hm xs"
  then have "finite (dom (nodes hm))" by (simp add: holds_def)
  from ex_new_if_finite [OF _ this] show ?thesis by (auto simp: infinite_UNIV_nat)
qed

lemma leave_enabled:
  assumes h: "holds hm xs" and s: "searched c a xs" and n: "nodes hm a = Some n"
  shows "\<exists>r. leave_node sock (last_addr None (before (Some a) xs)) a hm = Some r"
proof -
  obtain ys zs where x: "xs = ys @ (a, node_game n) # zs" "ys = before (Some a) xs"
    using searched_node(3) [OF h s n] by blast
  show ?thesis
    using holds_leave [OF h [unfolded x(1)], of sock] unfolding x(2) [symmetric]
    by (auto split: option.splits)
qed

text \<open>A thread in an operation can go on unless the lock it waits for is held.\<close>

lemma enabled:
  assumes i: "sys_inv gm0 s" and t: "pcs s t \<noteq> Idle"
    and gm: "waits_gm (pcs s t) \<Longrightarrow> gm_lock s = None"
    and g: "\<And>a. waits_game (pcs s t) = Some a \<Longrightarrow> game_lock s a = None"
  shows "\<exists>s'. sys_step t s s'"
proof -
  obtain xs where h: "holds (memory s) xs" and p: "pcs_ok s xs"
    using i by (auto simp: sys_inv_def data_ok_def)
  note pt = pcs_okD [OF p, of t]
  have waits: "\<exists>s'. sys_step t s s'" if "waits_gm (pcs s t)"
    using enter_waits [OF that, of "head_of (memory s)"] gm [OF that] by (blast intro: sys_step.lock_gm)
  show ?thesis
  proof (cases "pcs s t")
    case (Linking g)
    obtain a where "nodes (memory s) a = None" using fresh_node [OF h] by blast
    with Linking holds_append [OF h, of a g] show ?thesis by (blast intro: sys_step.link)
  next
    case (Search c prev cur)
    then show ?thesis using pt cursor_moves [OF h, of cur] by (auto intro: sys_step.intros)
  next
    case (Found c prev a)
    then show ?thesis using g by (auto intro: sys_step.intros)
  next
    case (Locked c prev a)
    with pt obtain n where n: "searched c a xs" "prev = last_addr None (before (Some a) xs)"
      "nodes (memory s) a = Some n" using cursor_node [OF h] by (auto simp: searched_def)
    show ?thesis
    proof (cases "is_leave c")
      case True
      then obtain i sock where "c = Modify (Leave i sock)" by (cases c rule: is_leave.cases) auto
      with Locked n show ?thesis using leave_enabled [OF h n(1,3)] by (blast intro: sys_step.leave)
    qed (use Locked in \<open>blast intro: sys_step.hand_over\<close>)
  next
    case (Inside c a)
    with pt obtain n where "nodes (memory s) a = Some n" using cursor_node [OF h] by (auto simp: searched_def)
    moreover from this have "\<exists>hm. write_node a (effect c (node_game n)) (memory s) = Some hm"
      by (simp add: write_node_def)
    ultimately show ?thesis using Inside by (blast intro: sys_step.work)
  next
    case (List_at acc cur)
    then show ?thesis using pt cursor_moves [OF h, of cur]
      by (cases "length acc < 10") (auto intro: sys_step.intros)
  next
    case (List_found acc a)
    then show ?thesis using g by (auto intro: sys_step.intros)
  next
    case (List_locked acc a)
    then show ?thesis using pt cursor_node [OF h, of a] by (auto intro: sys_step.intros)
  next
    case (Collect_at sock i ids cur)
    then show ?thesis using pt cursor_moves [OF h, of cur]
      by (cases "length ids < 128") (auto intro: sys_step.intros)
  qed (use t waits in \<open>auto intro: sys_step.unlock sys_step.release\<close>)
qed

text \<open>The holder of a node's lock waits for nothing; the holder of \<open>gm->lock\<close> at most for a node.\<close>

lemma holders_wait:
  "has_game p = Some a \<Longrightarrow> \<not> waits_gm p \<and> waits_game p = None \<and> p \<noteq> Idle"
  "has_gm p \<Longrightarrow> \<not> waits_gm p \<and> p \<noteq> Idle"
  by (cases p; simp)+

lemma somebody_moves:
  assumes i: "sys_inv gm0 s" and t: "pcs s t \<noteq> Idle"
  shows "\<exists>u s'. pcs s u \<noteq> Idle \<and> sys_step u s s'"
proof -
  have l: "locks_ok s" using i by (simp add: sys_inv_def)
  have game: "\<exists>u s'. pcs s u \<noteq> Idle \<and> sys_step u s s'" if "game_lock s a = Some v" for a v
  proof -
    have v: "has_game (pcs s v) = Some a" using l that by (simp add: locks_ok_def)
    from holders_wait(1) [OF v] enabled [OF i, of v] show ?thesis by auto
  qed
  have node: "\<exists>u s'. pcs s u \<noteq> Idle \<and> sys_step u s s'" if "\<not> waits_gm (pcs s v)" "pcs s v \<noteq> Idle" for v
  proof (cases "\<exists>a. waits_game (pcs s v) = Some a \<and> game_lock s a \<noteq> None")
    case True
    then show ?thesis using game by blast
  next
    case False
    with enabled [OF i that(2)] that show ?thesis by blast
  qed
  show ?thesis
  proof (cases "gm_lock s")
    case None
    with enabled [OF i t] node [of t] t show ?thesis
      by (cases "waits_gm (pcs s t)") (fastforce elim: waits_gm.elims)+
  next
    case (Some v)
    with l have "has_gm (pcs s v)" unfolding locks_ok_def by blast
    from holders_wait(2) [OF this] node show ?thesis by blast
  qed
qed

section \<open>The properties\<close>

text \<open>C7. The operations of the game manager are atomic although threads interleave between any two
  steps. Let any number of threads run the operations on a linked list under the locks as the
  code takes them. Then at every moment the nodes show the list that the operations
  logged so far give when they run one after another on lists, and each of them saw the game, or
  listed the open games, that this list held at its turn.\<close>

theorem operations_are_atomic:
  assumes "refines hm gm0" and "sys_reach hm s"
  shows "\<exists>gm. lin_run (history s) gm0 = Some gm \<and> refines (memory s) gm"
  using reach_inv [OF assms(2,1)] by (auto simp: sys_inv_def data_ok_def intro: refinesI)

text \<open>The pointers a thread holds.\<close>

fun pointers :: "Pc \<Rightarrow> addr set" where
  "pointers (Search c prev cur) = set_option prev \<union> set_option cur"
| "pointers (Found c prev a) = insert a (set_option prev)"
| "pointers (Locked c prev a) = insert a (set_option prev)"
| "pointers (Inside c a) = {a}"
| "pointers (Unlocking a) = {a}"
| "pointers (List_at acc cur) = set_option cur"
| "pointers (List_found acc a) = {a}"
| "pointers (List_locked acc a) = {a}"
| "pointers (Collect_at s i ids cur) = set_option cur"
| "pointers _ = {}"

lemma last_addr_in: "set_option (last_addr None ys) \<subseteq> fst ` set ys"
  by (auto simp: last_addr_def)

lemma pointers_live:
  assumes "holds hm xs" "pc_ok L xs p"
  shows "pointers p \<subseteq> dom (nodes hm)"
proof -
  have prev: "set_option (last_addr None (before cur xs)) \<subseteq> fst ` set xs" for cur
    using last_addr_in [of "before cur xs"] before_subset [of cur xs] by blast
  have cur: "set_option cur \<subseteq> fst ` set xs" if "points_to cur xs" for cur
    using that by (cases cur) (simp_all add: points_to_def)
  have "pointers p \<subseteq> fst ` set xs"
    using assms(2) prev cur cur [of "Some a" for a] by (cases p) (auto simp: searched_def)
  then show ?thesis using assms(1) by (simp add: holds_def)
qed

text \<open>C8. The locks are safe and live. No thread ever holds a pointer to a node that was freed, no
  two threads are at once in the part that \<open>gm->lock\<close> or the lock of one node protects, and
  there is no deadlock: when some thread is in an operation, some thread in an operation can take
  its next step.\<close>

theorem locks_safe_and_live:
  assumes "refines hm gm0" and "sys_reach hm s"
  shows "pointers (pcs s t) \<subseteq> dom (nodes (memory s)) \<and>
    (has_gm (pcs s t) \<and> has_gm (pcs s u) \<longrightarrow> t = u) \<and>
    (has_game (pcs s t) = Some a \<and> has_game (pcs s u) = Some a \<longrightarrow> t = u) \<and>
    (pcs s t \<noteq> Idle \<longrightarrow> (\<exists>v s'. pcs s v \<noteq> Idle \<and> sys_step v s s'))"
proof -
  have i: "sys_inv gm0 s" using reach_inv [OF assms(2,1)] .
  then obtain xs where l: "locks_ok s" "holds (memory s) xs" "pcs_ok s xs" by (auto simp: sys_inv_def data_ok_def)
  show ?thesis
    using pointers_live [OF l(2) pcs_okD [OF l(3)]] gm_holder_unique [OF l(1)] game_holder_unique [OF l(1)]
      somebody_moves [OF i] by blast
qed

text \<open>One game, at address 7; thread 1 is inside it to store an answer, and has given \<open>gm->lock\<close> back.\<close>

definition one_node :: GameHeap where
  "one_node = \<lparr>nodes = [7 \<mapsto> \<lparr>node_game = new_game 0 5 ''ann'', node_next = None\<rparr>], head_of = Some 7,
     tail_of = Some 7, next_id = 1\<rparr>"

definition one_game_list :: GameManager where
  "one_game_list = \<lparr>games = [new_game 0 5 ''ann''], next_game_id = 1\<rparr>"

abbreviation answer :: call where
  "answer \<equiv> Modify (Answer 0 5 True)"

abbreviation answering :: "(thread \<Rightarrow> Pc) \<Rightarrow> thread option \<Rightarrow> Sys" where
  "answering f k \<equiv> \<lparr>memory = one_node, gm_lock = k, game_lock = (\<lambda>a. None)(7 := Some 1),
     pcs = f(1 := Inside answer 7), history = []\<rparr>"

lemma one_node_refines: "refines one_node one_game_list"
  by (rule refinesI [where xs = "[(7, new_game 0 5 ''ann'')]"])
    (simp_all add: one_node_def one_game_list_def holds_def)

lemma reach_by: "sys_reach hm s \<Longrightarrow> sys_step t s s'' \<Longrightarrow> s'' = s' \<Longrightarrow> sys_reach hm s'"
  using sys_reach.step by blast

lemma new_game_gid [simp]: "gid (new_game i s owner) = i"
  by (simp add: new_game_def)

lemma answering_reached: "sys_reach one_node (answering (\<lambda>t. Idle) None)"
proof -
  let ?at = "\<lambda>p k L. \<lparr>memory = one_node, gm_lock = k, game_lock = L, pcs = (\<lambda>t. Idle)(1 := p), history = []\<rparr> :: Sys"
  let ?L = "(\<lambda>a. None) :: addr \<Rightarrow> thread option"
  have "sys_reach one_node (?at (Call answer) None ?L)"
    by (rule reach_by [OF sys_reach.start sys_step.call [where t = 1 and c = answer]]) (simp_all add: goto_def)
  then have "sys_reach one_node (?at (Search answer None (Some 7)) (Some 1) ?L)"
    by (rule reach_by [OF _ sys_step.lock_gm [where t = 1 and p = "Search answer None (Some 7)"]])
      (simp_all add: goto_def one_node_def)
  then have "sys_reach one_node (?at (Found answer None 7) (Some 1) ?L)"
    by (rule reach_by [OF _ sys_step.search_next [where t = 1 and c = answer and prev = None and a = 7
          and n = "\<lparr>node_game = new_game 0 5 ''ann'', node_next = None\<rparr>"]])
      (simp_all add: goto_def one_node_def)
  then have "sys_reach one_node (?at (Locked answer None 7) (Some 1) (?L(7 := Some 1)))"
    by (rule reach_by [OF _ sys_step.lock_game [where t = 1 and c = answer and prev = None and a = 7]])
      (simp_all add: goto_def)
  then show ?thesis
    by (rule reach_by [OF _ sys_step.hand_over [where t = 1 and c = answer and prev = None and a = 7]])
      (simp_all add: goto_def)
qed

text \<open>Thread 1 stores its answer, which the log records with the game it saw.\<close>

theorem operations_are_atomic_witness:
  "\<exists>s gm. sys_reach one_node s \<and> history s = [Did answer (Some (new_game 0 5 ''ann''))] \<and>
     lin_run (history s) one_game_list = Some gm \<and> refines (memory s) gm"
proof -
  let ?n = "\<lparr>node_game = new_game 0 5 ''ann'', node_next = None\<rparr>"
  obtain hm where hm: "write_node 7 (effect answer (node_game ?n)) one_node = Some hm"
    by (simp add: write_node_def one_node_def)
  let ?s = "answering (\<lambda>t. Idle) None"
  let ?s' = "goto 1 (Unlocking 7) (?s\<lparr>memory := hm, history := history ?s @ [Did answer (Some (node_game ?n))]\<rparr>)"
  have "sys_step 1 ?s ?s'"
    by (rule sys_step.work) (use hm in \<open>simp_all add: one_node_def\<close>)
  then have s: "sys_reach one_node ?s'" by (rule sys_reach.step [OF answering_reached])
  have "history ?s' = [Did answer (Some (new_game 0 5 ''ann''))]" by simp
  with operations_are_atomic [OF one_node_refines s] s show ?thesis by blast
qed

text \<open>Thread 0 has found the game too and waits for its lock: thread 1 can go on.\<close>

theorem locks_safe_and_live_witness:
  "\<exists>s v s'. sys_reach one_node s \<and> pcs s 0 = Found (Read 0) None 7 \<and> game_lock s 7 = Some 1 \<and>
     sys_step v s s'"
proof -
  let ?at = "\<lambda>p k. answering ((\<lambda>t. Idle)(0 := p)) k"
  have "sys_reach one_node (?at (Call (Read 0)) None)"
    by (rule reach_by [OF answering_reached sys_step.call [where t = 0 and c = "Read 0"]])
      (simp_all add: goto_def fun_upd_twist)
  then have "sys_reach one_node (?at (Search (Read 0) None (Some 7)) (Some 0))"
    by (rule reach_by [OF _ sys_step.lock_gm [where t = 0 and p = "Search (Read 0) None (Some 7)"]])
      (simp_all add: goto_def one_node_def fun_upd_twist)
  then have "sys_reach one_node (?at (Found (Read 0) None 7) (Some 0))"
    by (rule reach_by [OF _ sys_step.search_next [where t = 0 and c = "Read 0" and prev = None and a = 7
          and n = "\<lparr>node_game = new_game 0 5 ''ann'', node_next = None\<rparr>"]])
      (simp_all add: goto_def one_node_def fun_upd_twist)
  moreover have "pcs (?at (Found (Read 0) None 7) (Some 0)) 0 \<noteq> Idle" by simp
  then obtain v s' where "sys_step v (?at (Found (Read 0) None 7) (Some 0)) s'"
    using locks_safe_and_live [OF one_node_refines calculation, of 0] by blast
  ultimately show ?thesis
    by (intro exI [of _ "?at (Found (Read 0) None 7) (Some 0)"] exI [of _ v] exI [of _ s']) simp
qed

text \<open>The clean-up of another connection reads the owner of the game that thread 1 is about to write,
  with no lock in common.\<close>

theorem cleanup_races:
  "\<exists>s. sys_reach one_node s \<and> pcs s 0 = Collect_at 6 0 [] (Some 7) \<and> pcs s 1 = Inside answer 7"
proof -
  let ?at = "\<lambda>p k. answering ((\<lambda>t. Idle)(0 := p)) k"
  have "sys_reach one_node (?at (Collect_call 6 0) None)"
    by (rule reach_by [OF answering_reached sys_step.collect_call [where t = 0 and sock = 6 and i = 0]])
      (simp_all add: goto_def fun_upd_twist)
  then have "sys_reach one_node (?at (Collect_at 6 0 [] (Some 7)) (Some 0))"
    by (rule reach_by [OF _ sys_step.lock_gm [where t = 0 and p = "Collect_at 6 0 [] (Some 7)"]])
      (simp_all add: goto_def one_node_def fun_upd_twist)
  then show ?thesis by (intro exI [of _ "?at (Collect_at 6 0 [] (Some 7)) (Some 0)"]) simp
qed

end
