(* ===== verification/Server_Main.thy ===== *)
theory Server_Main
  imports Handler_Props Protocol_Wire Game_Heap
begin

text \<open>
  The connection thread of \<open>server/src/server.c\<close> as a whole, and the start and the end of the
  server process: \<open>create_server_socket\<close>, \<open>cleanup_server\<close> and \<open>server/src/main.c\<close>.

  \<^item> \<open>handle_client\<close>: the loop of \<open>receive_message\<close> and \<open>handle_message\<close> between the two parts of a
    connection that \<open>Handler\<close> models. It runs here without the other threads, whose steps
    \<open>server_run\<close> interleaves with it.
  \<^item> the answers of the operating system are arguments: each system call of the set-up, the
    successive results of \<open>accept\<close>, \<open>malloc\<close> and \<open>pthread_create\<close>, the points at which a signal
    arrives, and the counts of live threads that the end of \<open>main\<close> reads. What is closed is
    listed in order.
\<close>

section \<open>The connection thread\<close>

text \<open>\<open>None\<close>: the thread waits for more bytes. \<open>env k\<close> is the environment of the \<open>k\<close>-th message.\<close>

partial_function (option) client_loop ::
  "(nat \<Rightarrow> Env) \<Rightarrow> socket \<Rightarrow> nat \<Rightarrow> recv_event list \<Rightarrow> Server \<Rightarrow> Server option" where
  "client_loop env s k es st =
     (case receive_message es of
        Returns r es' \<Rightarrow>
          (case r of
             Inl err \<Rightarrow> Some st
           | Inr msg \<Rightarrow> client_loop env s (k + 1) es' (handle_message (env k) s msg st))
      | _ \<Rightarrow> None)"

text \<open>The descriptor is closed on both ways out; the count of live threads goes up and down by one.\<close>

definition handle_client :: "(nat \<Rightarrow> Env) \<Rightarrow> socket \<Rightarrow> recv_event list \<Rightarrow> Server \<Rightarrow> (Server \<times> socket list) option" where
  "handle_client env s es st =
     (case client_connect s st of
        (st, added) \<Rightarrow>
          if \<not> added then Some (st, [s])
          else do {
            st \<leftarrow> client_loop env s 0 es st;
            Some (client_disconnect s st, [s]) })"

fun handle_all :: "(nat \<Rightarrow> Env) \<Rightarrow> socket \<Rightarrow> nat \<Rightarrow> Message list \<Rightarrow> Server \<Rightarrow> Server" where
  "handle_all env s k [] st = st"
| "handle_all env s k (m # ms) st = handle_all env s (k + 1) ms (handle_message (env k) s m st)"

lemma receive_payload_more:
  assumes "receive_payload t len es = Returns (Inr m) es'"
  shows "receive_payload t len (es @ fs) = Returns (Inr m) (es' @ fs)"
proof -
  obtain pl es1 where pl: "recv_all len es = Some (Inr pl, es1)"
    using assms by (auto simp: receive_payload_def split: option.splits sum.splits)
  with assms recv_all_more [OF pl, of fs] show ?thesis
    by (auto simp: receive_payload_def split: option.splits sum.splits)
qed

lemma receive_message_more:
  assumes "receive_message es = Returns (Inr m) es'"
  shows "receive_message (es @ fs) = Returns (Inr m) (es' @ fs)"
proof -
  obtain hdr es1 where hdr: "recv_all 16 es = Some (Inr hdr, es1)"
    using assms by (auto simp: receive_message_def split: option.splits sum.splits)
  show ?thesis
  proof (cases "read_header hdr")
    case None
    with assms hdr show ?thesis by (simp add: receive_message_def)
  next
    case (Some h)
    obtain magic version type len rest where h: "h = ((magic, version, type, len), rest)" by (cases h) auto
    with assms hdr recv_all_more [OF hdr, of fs] Some show ?thesis
      by (auto simp: receive_message_def receive_payload_more split: if_splits)
  qed
qed

section \<open>The listening socket\<close>

record Setup =
  socket_result :: int
  reuseaddr_ok :: bool
  reuseport_ok :: bool
  bind_ok :: bool
  listen_ok :: bool

text \<open>The descriptor or -1, and what was closed. A failure to set \<open>SO_REUSEPORT\<close> is not fatal.\<close>

definition create_server_socket :: "Setup \<Rightarrow> int \<times> int list" where
  "create_server_socket u =
     (let server_fd = socket_result u
      in if server_fd < 0 then (-1, [])
         else if \<not> reuseaddr_ok u then (-1, [server_fd])
         else if \<not> bind_ok u then (-1, [server_fd])
         else if \<not> listen_ok u then (-1, [server_fd])
         else (server_fd, []))"

section \<open>Accepting connections\<close>

text \<open>
  How \<open>accept\<close> ends when no signal interrupts it: it waits for ever, it fails, with \<open>EINTR\<close> or not, or
  it returns a descriptor, and then \<open>malloc\<close> and \<open>pthread_create\<close> succeed or not.
\<close>

datatype attempt =
    Waits_on
  | Accept_fails bool
  | Accepts socket bool bool

text \<open>
  One round of the loop, with the signals (\<open>SIGINT\<close> or \<open>SIGTERM\<close>) that arrive: before the test of \<open>keep_running\<close>,
  which is after the \<open>accept\<close> of the round before; after the test and unnoticed by \<open>accept\<close>, because the call
  has not begun or because the handler runs in another thread; and while \<open>accept\<close> waits in the thread the
  handler interrupts. The handler \<open>handle_signal\<close> clears \<open>keep_running\<close> each time.
\<close>

record Round =
  sig_before :: bool
  sig_gap :: bool
  sig_waiting :: bool
  ends :: attempt

text \<open>Whether \<open>main\<close> installs the handler with \<open>SA_RESTART\<close>: \<open>sa.sa_flags = 0\<close>.\<close>

definition sa_restart :: bool where
  "sa_restart = False"

text \<open>A signal ends a waiting \<open>accept\<close> with \<open>EINTR\<close>, unless it is to be restarted after the handler.\<close>

definition accept_call :: "Round \<Rightarrow> attempt" where
  "accept_call r = (if sig_waiting r \<and> \<not> sa_restart then Accept_fails True else ends r)"

text \<open>
  The result is the descriptors given to a thread and those closed, or \<open>None\<close> when \<open>accept\<close> waits for
  ever. After the last round the loop is tested once more, and then nothing happens.
\<close>

fun accept_loop :: "bool \<Rightarrow> Round list \<Rightarrow> (socket list \<times> socket list) option" where
  "accept_loop keep_running [] = (if \<not> keep_running then Some ([], []) else None)"
| "accept_loop keep_running (r # rounds) =
     (let keep_running = keep_running \<and> \<not> sig_before r
      in if \<not> keep_running then Some ([], [])
         else
           let keep_running = \<not> sig_gap r \<and> \<not> sig_waiting r
           in case accept_call r of
                Waits_on \<Rightarrow> None
              | Accept_fails eintr \<Rightarrow>
                  if eintr \<and> \<not> keep_running then Some ([], []) else accept_loop keep_running rounds
              | Accepts fd memory_ok thread_ok \<Rightarrow> do {
                  (started, closed) \<leftarrow> accept_loop keep_running rounds;
                  if \<not> memory_ok then Some (started, fd # closed)
                  else if \<not> thread_ok then Some (started, fd # closed)
                  else Some (fd # started, closed) })"

section \<open>The end of the process\<close>

definition close_client :: "Client \<Rightarrow> Client" where
  "close_client c = (if is_active c then c\<lparr>is_active := False, current_game_id := -1\<rparr> else c)"

text \<open>The sockets closed, in the order of the slots.\<close>

definition close_clients :: "Server \<Rightarrow> Server \<times> socket list" where
  "close_clients st = (st\<lparr>clients := map close_client (clients st)\<rparr>, active_sockets (clients st))"

text \<open>\<open>live ms\<close>: the number of live threads after \<open>ms\<close> milliseconds.\<close>

function wait_threads :: "(nat \<Rightarrow> int) \<Rightarrow> nat \<Rightarrow> nat" where
  "wait_threads live waited_ms =
     (if 0 < live waited_ms \<and> waited_ms < 5000 then wait_threads live (waited_ms + 100) else waited_ms)"
  by pat_completeness auto
termination
  by (relation "measure (\<lambda>(live, ms). 5000 - ms)") auto

declare wait_threads.simps [simp del]

text \<open>The memory of the game manager that is left, and the pointer \<open>game_manager\<close>.\<close>

definition cleanup_server :: "GameHeap option \<Rightarrow> (Memory \<times> GameHeap option) option" where
  "cleanup_server gm = do { left \<leftarrow> game_manager_destroy gm; Some (left, None) }"

record Start =
  sigint_ok :: bool
  sigterm_ok :: bool
  manager_ok :: bool
  sock_setup :: Setup

record Exit =
  status :: int
  threads :: "socket list"
  closed_fds :: "int list"
  waited :: nat
  memory_left :: Memory

text \<open>
  \<open>st\<close> and \<open>gm\<close> are the table of clients and the list of games that the threads have left when the
  accept loop ends. \<open>None\<close>: the loop still waits, or the clean-up touched freed memory.
\<close>

definition server_main ::
  "Start \<Rightarrow> Round list \<Rightarrow> Server \<Rightarrow> GameHeap \<Rightarrow> (nat \<Rightarrow> int) \<Rightarrow> Exit option" where
  "server_main start rounds st gm live =
     (let failed = (\<lambda>fds. Some \<lparr>status = 1, threads = [], closed_fds = fds, waited = 0, memory_left = Map.empty\<rparr>)
      in if \<not> sigint_ok start then failed []
         else if \<not> sigterm_ok start then failed []
         else if initialize_server (replicate MAX_CLIENTS zero_Client) (manager_ok start) = None then failed []
         else case create_server_socket (sock_setup start) of
           (server_socket, closed) \<Rightarrow>
             if server_socket < 0 then do {
               hm \<leftarrow> heap_create True;
               (left, none) \<leftarrow> cleanup_server (Some hm);
               Some \<lparr>status = 1, threads = [], closed_fds = closed, waited = 0, memory_left = left\<rparr> }
             else do {
               (started, refused) \<leftarrow> accept_loop True rounds;
               let (st, shut) = close_clients st;
               let ms = wait_threads live 0;
               (left, none) \<leftarrow> cleanup_server (Some gm);
               Some \<lparr>status = 0, threads = started, closed_fds = closed @ refused @ [server_socket] @ shut,
                 waited = ms, memory_left = left\<rparr> })"

section \<open>Properties\<close>

lemma client_loop_handles:
  assumes "segments es" "stream es = concat (map wire ms) @ take k (wire m)" "k < length (wire m)"
    "\<forall>x \<in> set ms. wf_message x" "wf_message m"
  shows "client_loop env s i (es @ [Closed]) st = Some (handle_all env s i (map delivered ms) st)"
  using assms
proof (induction ms arbitrary: es i st)
  case Nil
  then obtain es' where "receive_message (es @ [Closed]) = Returns (Inl Minus1) es'"
    using truncated_message_rejected [of m es k] by auto
  then show ?case by (subst client_loop.simps) simp
next
  case (Cons x ms)
  have "stream es = wire x @ (concat (map wire ms) @ take k (wire m))" using Cons.prems(2) by simp
  from receive_sent [OF _ Cons.prems(1) this] Cons.prems(4) obtain es1 where
    es1: "receive_message es = Returns (Inr (delivered x)) es1" "segments es1"
    "stream es1 = concat (map wire ms) @ take k (wire m)" by auto
  from receive_message_more [OF es1(1)] Cons.IH [OF es1(2,3)] Cons.prems show ?case
    by (subst client_loop.simps) simp
qed

text \<open>C21. A client is served. Its bytes are the encodings of well-formed messages, perhaps followed by the
  beginning of one more, cut into segments in any way, and then the connection ends. Then the
  thread does not wait for ever: it handles exactly these messages in their order, drops the
  incomplete one, cleans up and closes the socket once.\<close>

theorem client_served:
  assumes "segments es" and "stream es = concat (map wire ms) @ take k (wire m)"
    and "k < length (wire m)" and "\<forall>x \<in> set ms. wf_message x" and "wf_message m"
    and "client_connect s st = (st', True)"
  shows "handle_client env s (es @ [Closed]) st =
    Some (client_disconnect s (handle_all env s 0 (map delivered ms) st'), [s])"
  using client_loop_handles [OF assms(1-5)] assms(6) by (simp add: handle_client_def)

text \<open>A move that arrives together with the first bytes of another.\<close>

theorem client_served_witness:
  "handle_client (\<lambda>k. calm) 4 [Data (wire sample_move @ take 5 (wire sample_move)), Closed] fresh_server =
     Some (client_disconnect 4 (handle_message calm 4 (delivered sample_move) (fst (client_connect 4 fresh_server))), [4])"
proof -
  have l: "length (wire sample_move) = 22" by code_simp
  then have ne: "wire sample_move \<noteq> []" by auto
  then have seg: "segments [Data (wire sample_move @ take 5 (wire sample_move))]" by (simp add: segments_def)
  have str: "stream [Data (wire sample_move @ take 5 (wire sample_move))] =
      concat (map wire [sample_move]) @ take 5 (wire sample_move)" by simp
  have t: "table_inv fresh_server" using server_run_inv [OF fresh_server_run] by (simp add: server_inv_def)
  have "active_sockets (clients fresh_server) = []"
    using fresh_server_free by (metis list.set_intros(1) neq_Nil_conv)
  with add_client_refuses [OF t, of 4] have "snd (add_client fresh_server 4)" by simp
  then obtain st' where st': "client_connect 4 fresh_server = (st', True)"
    by (cases "add_client fresh_server 4") (auto simp: client_connect_def)
  have k: "5 < length (wire sample_move)" and wf: "\<forall>x \<in> set [sample_move]. wf_message x"
    using l sample_move_wf by simp_all
  from client_served [OF seg str k wf sample_move_wf st'] st' show ?thesis by simp
qed

lemma wait_threads_bound:
  "ms \<le> 5000 \<Longrightarrow> 100 dvd ms \<Longrightarrow> wait_threads live ms \<le> 5000 \<and>
     (live (wait_threads live ms) \<le> 0 \<or> wait_threads live ms = 5000)"
proof (induction live ms rule: wait_threads.induct)
  case (1 live ms)
  show ?case
  proof (cases "0 < live ms \<and> ms < 5000")
    case True
    obtain j where "ms = 100 * j" using "1.prems"(2) by (auto elim: dvdE)
    with True have "ms + 100 \<le> 5000" "100 dvd ms + 100" by auto
    with "1.IH" True show ?thesis by (simp add: wait_threads.simps [of live ms])
  next
    case False
    with "1.prems" show ?thesis by (auto simp: wait_threads.simps [of live ms])
  qed
qed

text \<open>The descriptor that \<open>accept\<close> returned in a round.\<close>

definition accepted :: "Round \<Rightarrow> socket list" where
  "accepted r = (case accept_call r of Accepts fd memory_ok thread_ok \<Rightarrow> [fd] | _ \<Rightarrow> [])"

definition quiet :: "Round \<Rightarrow> bool" where
  "quiet r \<longleftrightarrow> \<not> sig_before r \<and> \<not> sig_gap r \<and> \<not> sig_waiting r \<and> ends r \<noteq> Waits_on"

text \<open>The signals of the round came after the test, \<open>accept\<close> does not notice, and no connection comes.\<close>

definition lost_signal :: "Round \<Rightarrow> bool" where
  "lost_signal r \<longleftrightarrow> \<not> sig_before r \<and> \<not> sig_waiting r \<and> ends r = Waits_on"

lemma accept_loop_stopped [simp]: "accept_loop False rounds = Some ([], [])"
  by (cases rounds) simp_all

text \<open>The round of the first signal.\<close>

lemma accept_loop_signal:
  assumes "sig_before r \<or> sig_gap r \<or> sig_waiting r"
  shows "accept_loop True (r # rounds) = None \<longleftrightarrow> lost_signal r"
    and "accept_loop True (r # rounds) = Some (started, refused) \<Longrightarrow>
      mset (started @ refused) = mset (if sig_before r then [] else accepted r)"
proof -
  show "accept_loop True (r # rounds) = None \<longleftrightarrow> lost_signal r"
    using assms by (auto simp: Let_def accept_call_def sa_restart_def lost_signal_def split: attempt.split)
  show "accept_loop True (r # rounds) = Some (started, refused) \<Longrightarrow>
      mset (started @ refused) = mset (if sig_before r then [] else accepted r)"
    using assms by (auto simp: Let_def accepted_def split: attempt.splits if_splits)
qed

lemma accept_loop_first_signal:
  assumes "sig_before r \<or> sig_gap r \<or> sig_waiting r"
  shows "\<forall>x \<in> set pre. quiet x \<Longrightarrow>
    (accept_loop True (pre @ r # post) = None \<longleftrightarrow> lost_signal r) \<and>
    (\<forall>started refused. accept_loop True (pre @ r # post) = Some (started, refused) \<longrightarrow>
      mset (started @ refused) = mset (concat (map accepted pre) @ (if sig_before r then [] else accepted r)))"
proof (induction pre)
  case Nil
  with accept_loop_signal [OF assms] show ?case by simp
next
  case (Cons x pre)
  then have q: "\<not> sig_before x" "\<not> sig_gap x" "\<not> sig_waiting x" "ends x \<noteq> Waits_on" by (simp_all add: quiet_def)
  with Cons show ?case
    by (cases "ends x") (auto simp: accept_call_def accepted_def split: Option.bind_splits if_splits)
qed

text \<open>C39. The server ends in order, unless a signal is lost. When the first signal arrives, the accept loop
  ends, and the process exits with status 0 after at most five seconds of waiting: every descriptor
  that was accepted was either given to one thread or closed at once, the listening socket and the sockets
  of the clients that are still connected are closed, and the list of games is freed without
  touching freed memory. The one exception, exactly: the signal comes between the test of
  \<open>keep_running\<close> and the \<open>accept\<close> behind it (or its handler runs in another thread), and no further
  signal or connection comes; then the server waits in \<open>accept\<close> for ever.\<close>

theorem server_ends:
  assumes start: "sigint_ok start" "sigterm_ok start" "manager_ok start"
    and sock: "create_server_socket (sock_setup start) = (listener, [])" "0 \<le> listener"
    and signal: "\<forall>x \<in> set pre. quiet x" "sig_before r \<or> sig_gap r \<or> sig_waiting r"
    and games: "refines hm (game_manager st)"
  shows "if lost_signal r then server_main start (pre @ r # post) st hm live = None
    else \<exists>e refused. server_main start (pre @ r # post) st hm live = Some e \<and> status e = 0 \<and>
      mset (threads e @ refused) = mset (concat (map accepted pre) @ (if sig_before r then [] else accepted r)) \<and>
      closed_fds e = refused @ [listener] @ active_sockets (clients st) \<and>
      waited e \<le> 5000 \<and> (live (waited e) \<le> 0 \<or> waited e = 5000) \<and> memory_left e = Map.empty"
proof -
  have init: "initialize_server (replicate MAX_CLIENTS zero_Client) True \<noteq> None"
    by (simp add: initialize_server_def game_manager_create_def)
  note loop = accept_loop_first_signal [OF signal(2,1), of post]
  show ?thesis
  proof (cases "accept_loop True (pre @ r # post)")
    case None
    with loop start sock init show ?thesis by (simp add: server_main_def Let_def)
  next
    case (Some sr)
    obtain started refused where sr: "sr = (started, refused)" by (cases sr)
    with Some loop have l: "\<not> lost_signal r"
      "mset (started @ refused) = mset (concat (map accepted pre) @ (if sig_before r then [] else accepted r))" by auto
    let ?e = "\<lparr>status = 0, threads = started, closed_fds = refused @ [listener] @ active_sockets (clients st),
        waited = wait_threads live 0, memory_left = Map.empty\<rparr> :: Exit"
    have "server_main start (pre @ r # post) st hm live = Some ?e"
      using start sock init Some destroy_frees_all [OF games]
      by (simp add: sr server_main_def Let_def cleanup_server_def close_clients_def)
    with l wait_threads_bound [of 0 live] show ?thesis
      by (subst if_not_P [OF l(1)], intro exI [of _ ?e] exI [of _ refused]) simp
  qed
qed

text \<open>Two connections, of which one gets no thread, and then a signal: while \<open>accept\<close> waits, or just before.\<close>

definition two_rounds :: "Round list" where
  "two_rounds = map (\<lambda>a. \<lparr>sig_before = False, sig_gap = False, sig_waiting = False, ends = a\<rparr>)
     [Accepts 4 True True, Accepts 5 True False]"

definition example_start :: Start where
  "example_start = \<lparr>sigint_ok = True, sigterm_ok = True, manager_ok = True,
     sock_setup = \<lparr>socket_result = 3, reuseaddr_ok = True, reuseport_ok = False, bind_ok = True, listen_ok = True\<rparr>\<rparr>"

theorem server_ends_witness:
  "(\<exists>e refused. server_main example_start
       (two_rounds @ [\<lparr>sig_before = False, sig_gap = False, sig_waiting = True, ends = Waits_on\<rparr>])
       fresh_server \<lparr>nodes = Map.empty, head_of = None, tail_of = None, next_id = 0\<rparr> (\<lambda>ms. if ms < 300 then 1 else 0) = Some e \<and>
     status e = 0 \<and> mset (threads e @ refused) = {#4, 5#} \<and> memory_left e = Map.empty) \<and>
   server_main example_start
       (two_rounds @ [\<lparr>sig_before = False, sig_gap = True, sig_waiting = False, ends = Waits_on\<rparr>])
       fresh_server \<lparr>nodes = Map.empty, head_of = None, tail_of = None, next_id = 0\<rparr> (\<lambda>ms. if ms < 300 then 1 else 0) = None"
proof -
  have g: "refines \<lparr>nodes = Map.empty, head_of = None, tail_of = None, next_id = 0\<rparr> (game_manager fresh_server)"
    by (rule refinesI [where xs = "[]"]) 
      (simp_all add: holds_def fresh_server_def initialize_server_def game_manager_create_def Let_def)
  have s: "sigint_ok example_start" "sigterm_ok example_start" "manager_ok example_start"
    "create_server_socket (sock_setup example_start) = (3, [])" "0 \<le> (3 :: int)" "\<forall>x \<in> set two_rounds. quiet x"
    by (simp_all add: example_start_def create_server_socket_def two_rounds_def quiet_def)
  let ?seen = "\<lparr>sig_before = False, sig_gap = False, sig_waiting = True, ends = Waits_on\<rparr>"
  let ?lost = "\<lparr>sig_before = False, sig_gap = True, sig_waiting = False, ends = Waits_on\<rparr>"
  have r: "sig_before ?seen \<or> sig_gap ?seen \<or> sig_waiting ?seen" "sig_before ?lost \<or> sig_gap ?lost \<or> sig_waiting ?lost"
    "\<not> lost_signal ?seen" "lost_signal ?lost" by (simp_all add: lost_signal_def)
  have a: "concat (map accepted two_rounds) = [4, 5]" "accepted ?seen = []"
    by (simp_all add: two_rounds_def accepted_def accept_call_def sa_restart_def)
  have "(mset [4, 5] :: socket multiset) = {#4, 5#}" by simp
  with server_ends [OF s r(1) g, of "[]" "\<lambda>ms. if ms < 300 then 1 else 0"]
    server_ends [OF s r(2) g, of "[]" "\<lambda>ms. if ms < 300 then 1 else 0"] r(3,4) a
  show ?thesis by auto
qed

end
