(* ===== verification/Server_Threads.thy ===== *)
theory Server_Threads
  imports Handler_Props
begin

text \<open>
  The threads of the server: the handlers of several connections run at once and are interleaved
  between any two accesses to shared state.

  \<^item> \<open>prog\<close> is the rest of what a thread has to do for a message: a sequence of accesses, each of them
    one section under \<open>clients_mutex\<close>, one operation of the game manager or one call of
    \<open>send_message\<close>, in the order of the code. What an access reads decides how the program goes on.
  \<^item> The programs of the handlers follow \<open>server/src/client_handler.c\<close> line by line. Run alone, each
    has the effect that \<open>Handler\<close> gives to its handler (\<open>handlers_alone\<close>).
  \<^item> Taking an identifier and appending the game that carries it are two accesses, and the first loop
    of the clean-up is one access for each game: \<open>Game_Locks\<close> shows that the other operations of
    the manager are atomic. The model allows a little more than \<open>gm->lock\<close> does: during that
    loop another thread may append or unlink a game.
  \<^item> \<open>world_step\<close>: a connection is accepted, a thread receives a message, loses its connection, or
    proceeds by one access. \<open>interleaved\<close>: the states that any order of these reaches.
\<close>

section \<open>Programs\<close>

text \<open>At the end the thread receives the next message, or it closes its socket.\<close>

datatype prog =
    Ends bool
  | Act "Server \<Rightarrow> Server" "Server \<Rightarrow> prog"

text \<open>What follows is chosen in the state before the access.\<close>

primrec run :: "prog \<Rightarrow> Server \<Rightarrow> Server \<times> bool" where
  "run (Ends stays) = (\<lambda>st. (st, stays))"
| "run (Act f k) = (\<lambda>st. run (k st) (f st))"

definition reads :: "(Server \<Rightarrow> 'a) \<Rightarrow> ('a \<Rightarrow> prog) \<Rightarrow> prog" where
  "reads v k = Act (\<lambda>st. st) (\<lambda>st. k (v st))"

definition writes :: "(Server \<Rightarrow> Server) \<Rightarrow> prog \<Rightarrow> prog" where
  "writes f p = Act f (\<lambda>st. p)"

definition sends :: "socket \<Rightarrow> Message \<Rightarrow> prog \<Rightarrow> prog" where
  "sends s m p = writes (send s m) p"

text \<open>An operation of the manager that may fail.\<close>

definition calls :: "(GameManager \<Rightarrow> (GameManager \<times> 'a) result) \<Rightarrow> ('a result \<Rightarrow> prog) \<Rightarrow> prog" where
  "calls f k =
     Act (\<lambda>st. case f (game_manager st) of Inl e \<Rightarrow> st | Inr (gm, x) \<Rightarrow> st\<lparr>game_manager := gm\<rparr>)
       (\<lambda>st. k (map_sum id snd (f (game_manager st))))"

definition tries :: "(GameManager \<Rightarrow> GameManager result) \<Rightarrow> (unit result \<Rightarrow> prog) \<Rightarrow> prog" where
  "tries f k = calls (\<lambda>gm. map_sum id (\<lambda>gm. (gm, ())) (f gm)) k"

definition reads_game :: "u32 \<Rightarrow> (GameCommonState result \<Rightarrow> prog) \<Rightarrow> prog" where
  "reads_game i k = reads (\<lambda>st. game_manager_get_game_state (game_manager st) i) k"

lemma run_simps [simp]:
  "run (reads v k) st = run (k (v st)) st"
  "run (writes f p) st = run p (f st)"
  "run (sends s m p) st = run p (send s m st)"
  "run (reads_game i k') st = run (k' (game_manager_get_game_state (game_manager st) i)) st"
  by (simp_all add: reads_def writes_def sends_def reads_game_def)

lemma run_calls:
  "run (calls f k) st =
     (case f (game_manager st) of
        Inl e \<Rightarrow> run (k (Inl e)) st
      | Inr (gm, x) \<Rightarrow> run (k (Inr x)) (st\<lparr>game_manager := gm\<rparr>))"
  by (simp add: calls_def split: sum.split prod.split)

lemma run_tries:
  "run (tries f k) st =
     (case f (game_manager st) of
        Inl e \<Rightarrow> run (k (Inl e)) st
      | Inr gm \<Rightarrow> run (k (Inr ())) (st\<lparr>game_manager := gm\<rparr>))"
  by (simp add: tries_def run_calls split: sum.split)

section \<open>The handlers\<close>

primrec send_each :: "socket list \<Rightarrow> Message \<Rightarrow> prog \<Rightarrow> prog" where
  "send_each [] m p = p"
| "send_each (s # ss) m p = sends s m (send_each ss m p)"

definition broadcast_prog :: "prog \<Rightarrow> prog" where
  "broadcast_prog p =
     reads lobby_message (\<lambda>lobby_msg.
     reads (\<lambda>st. map cl_socket (filter (\<lambda>c. is_active c \<and> \<not> is_playing c) (clients st))) (\<lambda>sockets_to_update.
     send_each sockets_to_update lobby_msg p))"

definition list_prog :: "socket \<Rightarrow> prog" where
  "list_prog s = reads lobby_message (\<lambda>resp. sends s resp (Ends True))"

definition create_prog :: "Env \<Rightarrow> socket \<Rightarrow> prog" where
  "create_prog e s =
     reads (\<lambda>st. client_is_playing st s) (\<lambda>playing.
     if playing then sends s (error_reply ''Already in a game'') (Ends True)
     else
       reads (\<lambda>st. find_username_by_socket st s (''Unknown'' @ zeros 25) 32) (\<lambda>name.
       if \<not> malloc_ok e then sends s (error_reply ''Failed to create game'') (Ends True)
       else
         calls (\<lambda>gm. case generate_game_id gm of (i, gm) \<Rightarrow> Inr (gm, i)) (\<lambda>r.
         case r of Inl err \<Rightarrow> Ends True | Inr new_game_id \<Rightarrow>
           writes (\<lambda>st. st\<lparr>game_manager := append_game (game_manager st) (new_game new_game_id s name)\<rparr>) (
           writes (client_set_playing s True new_game_id) (
           writes (\<lambda>st. st\<lparr>clients := update_slot (active_on s)
                     (\<lambda>c. c\<lparr>is_playing := True, current_game_id := int_of_u32 new_game_id\<rparr>) (clients st)\<rparr>) (
           sends s (game_created_message new_game_id) (
           broadcast_prog (Ends True))))))))"

definition join_prog :: "socket \<Rightarrow> u32 \<Rightarrow> prog" where
  "join_prog s game_id =
     reads (\<lambda>st. client_is_playing st s) (\<lambda>playing.
     if playing then sends s (error_reply ''Already in a game'') (Ends True)
     else
       reads (\<lambda>st. game_manager_get_owner_socket (game_manager st) game_id) (\<lambda>owner_sock.
       if owner_sock = s then sends s (error_reply ''You cant join your own game!'') (Ends True)
       else
         reads (\<lambda>st. find_username_by_socket st s (''Unknown'' @ zeros 25) 32) (\<lambda>name.
         tries (\<lambda>gm. game_manager_join_game gm game_id s name) (\<lambda>r.
         case r of
           Inl err \<Rightarrow> sends s (error_reply ''Game not available for joining'') (Ends True)
         | Inr u \<Rightarrow>
             reads (\<lambda>st. game_manager_get_owner_socket (game_manager st) game_id) (\<lambda>owner_sock.
             if owner_sock \<noteq> -1 then
               sends owner_sock \<lparr>msg_type = MSG_JOIN_REQUEST,
                 payload = Join_request (zero_JoinRequestPayload\<lparr>
                   jr_game_id := game_id, jr_player_id := u32_of_int s,
                   jr_player_name := (snprintf (jr_player_name zero_JoinRequestPayload) 32
                                        (cstr name))[31 := NUL]\<rparr>)\<rparr> (Ends True)
             else Ends True)))))"

text \<open>The two loops of \<open>game_manager_cleanup_creator_games\<close>.\<close>

primrec leave_each :: "socket \<Rightarrow> u32 list \<Rightarrow> prog \<Rightarrow> prog" where
  "leave_each s [] p = p"
| "leave_each s (i # ids) p = tries (\<lambda>gm. game_manager_leave_game gm i s) (\<lambda>r. leave_each s ids p)"

primrec collect_each :: "socket \<Rightarrow> u32 \<Rightarrow> prog \<Rightarrow> u32 list \<Rightarrow> u32 list \<Rightarrow> prog" where
  "collect_each s accepted p [] found = leave_each s found p"
| "collect_each s accepted p (i # ids) found =
     (if \<not> length found < 128 then leave_each s found p
      else reads (\<lambda>st. game_manager_get_owner_socket (game_manager st) i) (\<lambda>owner_sock.
        collect_each s accepted p ids (if owner_sock = s \<and> i \<noteq> accepted then found @ [i] else found)))"

definition cleanup_prog :: "socket \<Rightarrow> u32 \<Rightarrow> prog \<Rightarrow> prog" where
  "cleanup_prog s accepted p =
     reads (\<lambda>st. map gid (games (game_manager st))) (\<lambda>ids. collect_each s accepted p ids [])"

definition decide_prog :: "socket \<Rightarrow> bool \<Rightarrow> u32 \<Rightarrow> socket \<Rightarrow> prog" where
  "decide_prog s accepted game_id waiting_sock =
     calls (\<lambda>gm. game_manager_join_decision gm game_id accepted) (\<lambda>r.
     case r of
       Inl err \<Rightarrow> sends s (error_reply ''No pending join request or joiner disconnected'') (Ends True)
     | Inr assigned_role \<Rightarrow>
         if accepted then
           cleanup_prog s game_id (
           reads (\<lambda>st. game_manager_get_players (game_manager st) game_id) (\<lambda>r.
           case r of Inl err \<Rightarrow> Ends True | Inr (x_sock, o_sock) \<Rightarrow>
             sends x_sock (game_start_message game_id PLAYER_X) (
             sends o_sock (game_start_message game_id PLAYER_O) (
             reads_game game_id (\<lambda>r.
             let rest = writes (mark_players x_sock o_sock game_id) (broadcast_prog (Ends True))
             in case r of Inl err \<Rightarrow> rest | Inr state \<Rightarrow>
               writes (client_set_playing x_sock True game_id) (
               writes (client_set_playing o_sock True game_id) (
               sends x_sock (game_state_message game_id state PLAYER_X ''Game started'') (
               sends o_sock (game_state_message game_id state PLAYER_O ''Game started'') rest))))))))
         else
           let rest = broadcast_prog (Ends True)
           in if waiting_sock \<ge> 0 then
                sends waiting_sock (error_reply ''Join request was rejected by game owner'') rest
              else rest)"

definition decision_prog :: "socket \<Rightarrow> bool \<Rightarrow> u32 \<Rightarrow> prog" where
  "decision_prog s accepted game_id =
     reads (\<lambda>st. case game_manager_get_waiting_socket (game_manager st) game_id of
                   Inl err \<Rightarrow> -1 | Inr w \<Rightarrow> w) (decide_prog s accepted game_id)"

definition move_prog :: "Env \<Rightarrow> socket \<Rightarrow> MovePayload \<Rightarrow> prog" where
  "move_prog e s m =
     (let game_id = mv_game_id m; row = mv_row m; col = mv_col m
      in calls (\<lambda>gm. game_manager_move gm game_id s row col) (\<lambda>r.
         case r of
           Inl err \<Rightarrow> sends s (error_reply_uninit e ''Invalid move or not your turn'') (Ends True)
         | Inr (finished, winner) \<Rightarrow>
             reads (\<lambda>st. game_manager_get_players (game_manager st) game_id) (\<lambda>r.
             case r of Inl err \<Rightarrow> Ends True | Inr (x_sock, o_sock) \<Rightarrow>
               reads_game game_id (\<lambda>r.
               case r of Inl err \<Rightarrow> Ends True | Inr state \<Rightarrow>
                 (case winner of
                    Some w \<Rightarrow>
                      let over_msg = game_over_message game_id w;
                          post_msg = post_game_message game_id
                      in sends x_sock over_msg (sends o_sock over_msg (
                         if w = int_of_GameResult RESULT_DRAW then
                           sends x_sock post_msg (sends o_sock post_msg (Ends True))
                         else
                           let winner_sock = (if w = int_of_Player PLAYER_X then x_sock else o_sock)
                           in sends winner_sock post_msg (Ends True)))
                  | None \<Rightarrow>
                      sends x_sock (game_state_message game_id state PLAYER_X ''Board updated'') (
                      sends o_sock (game_state_message game_id state PLAYER_O ''Board updated'') (Ends True)))))))"

definition restart_prog :: "socket \<Rightarrow> socket \<Rightarrow> u32 \<Rightarrow> prog \<Rightarrow> prog" where
  "restart_prog x_sock o_sock game_id p =
     sends x_sock (game_start_message game_id PLAYER_X) (
     sends o_sock (game_start_message game_id PLAYER_O) (
     reads_game game_id (\<lambda>r.
     case r of Inl err \<Rightarrow> p | Inr new_state \<Rightarrow>
       sends x_sock (game_state_message game_id new_state PLAYER_X ''Game restarted'') (
       sends o_sock (game_state_message game_id new_state PLAYER_O ''Game restarted'') p))))"

definition resume_prog :: "Env \<Rightarrow> socket \<Rightarrow> u32 \<Rightarrow> bool \<Rightarrow> socket \<Rightarrow> socket \<Rightarrow> prog \<Rightarrow> prog" where
  "resume_prog e s game_id wants_to_continue x_sock o_sock p =
     (let x_sock = (if \<not> wants_to_continue \<and> x_sock = s then -1 else x_sock);
          o_sock = (if \<not> wants_to_continue \<and> o_sock = s then -1 else o_sock)
      in if o_sock = -1 then
           if x_sock \<noteq> -1 then
             writes (client_set_playing x_sock True game_id) (
             sends x_sock \<lparr>msg_type = MSG_GAME_STATUS_CHANGE,
               payload = Status_change \<lparr>sc_game_id = game_id, sc_new_state = GAME_WAITING,
                 sc_message = snprintf (uninit e 128) 128
                   (''You are now owner '' @ en_dash @ '' waiting for opponent'')\<rparr>\<rparr> p)
           else p
         else
           writes (client_set_playing x_sock True game_id) (
           writes (client_set_playing o_sock True game_id) (
           restart_prog x_sock o_sock game_id p)))"

text \<open>The game is read back in every case, before \<open>both_decided\<close> is looked at.\<close>

definition post_game_prog :: "Env \<Rightarrow> socket \<Rightarrow> u32 \<Rightarrow> bool \<Rightarrow> prog" where
  "post_game_prog e s game_id wants_to_continue =
     calls (\<lambda>gm. game_manager_post_game_decision gm game_id s wants_to_continue) (\<lambda>r.
     case r of
       Inl err \<Rightarrow> sends s (error_reply (''Post'' @ nb_hyphen @ ''game decision failed'')) (Ends True)
     | Inr both_decided \<Rightarrow>
         let rest =
           reads (\<lambda>st. game_manager_get_game_state (game_manager st) game_id) (\<lambda>state_ret.
           if both_decided then
             (case state_ret of
                Inl err \<Rightarrow> broadcast_prog (Ends True)
              | Inr state \<Rightarrow>
                  if gstate state = GAME_WAITING \<or> gstate state = GAME_IN_PROGRESS then
                    reads (\<lambda>st. game_manager_get_players (game_manager st) game_id) (\<lambda>r.
                    case r of
                      Inl err \<Rightarrow> broadcast_prog (Ends True)
                    | Inr (x_sock, o_sock) \<Rightarrow>
                        resume_prog e s game_id wants_to_continue x_sock o_sock (broadcast_prog (Ends True)))
                  else broadcast_prog (Ends True))
           else Ends True)
         in if \<not> wants_to_continue then
              writes (client_set_playing s False 0) (
              tries (\<lambda>gm. game_manager_leave_game gm game_id s) (\<lambda>r. rest))
            else rest)"

definition leave_prog :: "socket \<Rightarrow> u32 \<Rightarrow> prog" where
  "leave_prog s client_provided_game_id =
     reads (\<lambda>st. case first_slot (active_on s) (clients st) of
                   Some c \<Rightarrow> if current_game_id c \<noteq> -1 then u32_of_int (current_game_id c)
                             else client_provided_game_id
                 | None \<Rightarrow> client_provided_game_id) (\<lambda>target_game_id.
     tries (\<lambda>gm. game_manager_leave_game gm target_game_id s) (\<lambda>r.
     cleanup_prog s 0 (
     writes (client_set_playing s False (-1)) (
     broadcast_prog (Ends True)))))"

definition message_prog :: "Env \<Rightarrow> socket \<Rightarrow> Message \<Rightarrow> prog" where
  "message_prog e s msg =
     (case msg_type msg of
        MSG_CREATE_GAME \<Rightarrow> create_prog e s
      | MSG_JOIN_GAME \<Rightarrow> join_prog s (jr_game_id (payload_join_request (payload msg)))
      | MSG_JOIN_DECISION \<Rightarrow>
          decision_prog s (jd_accepted (payload_join_decision (payload msg)) \<noteq> 0)
            (jd_game_id (payload_join_decision (payload msg)))
      | MSG_POST_GAME_OPTIONS \<Rightarrow>
          post_game_prog e s (pg_game_id (payload_post_game_options (payload msg)))
            (pg_continue (payload_post_game_options (payload msg)) \<noteq> 0)
      | MSG_SET_USERNAME \<Rightarrow> writes (handle_set_username s (payload_set_username (payload msg))) (Ends True)
      | MSG_MOVE \<Rightarrow> move_prog e s (payload_move (payload msg))
      | MSG_LIST_GAMES \<Rightarrow> list_prog s
      | MSG_LEAVE_GAME \<Rightarrow> leave_prog s (mv_game_id (payload_move (payload msg)))
      | t \<Rightarrow> sends s (error_reply_uninit e
               (''Unsupported message type: '' @ decimal_int (int_of_u32 (MessageType_code t)))) (Ends True))"

text \<open>The first and the last part of \<open>handle_client\<close>. The thread finds its entry and gives it up in
  one section.\<close>

definition connect_prog :: "socket \<Rightarrow> prog" where
  "connect_prog s =
     Act (\<lambda>st. fst (add_client st s))
       (\<lambda>st. if snd (add_client st s) then Ends True
             else sends s (error_reply MAX_CONN_MSG) (Ends False))"

definition disconnect_prog :: "socket \<Rightarrow> prog" where
  "disconnect_prog s =
     Act (\<lambda>st. remove_client st s)
       (\<lambda>st. let game_id = (case first_slot (active_on s) (clients st) of
                              Some c \<Rightarrow> current_game_id c | None \<Rightarrow> -1);
                 rest = cleanup_prog s 0 (broadcast_prog (Ends False))
             in if game_id \<noteq> -1 then
                  tries (\<lambda>gm. game_manager_leave_game gm (u32_of_int game_id) s) (\<lambda>r. rest)
                else rest)"

section \<open>A program that runs alone is its handler\<close>

lemma run_send_each: "run (send_each ss m p) st = run p (fold (\<lambda>s. send s m) ss st)"
  by (induction ss arbitrary: st) simp_all

lemma run_broadcast [simp]: "run (broadcast_prog p) st = run p (broadcast_lobby_update st)"
  by (simp add: broadcast_prog_def broadcast_lobby_update_def run_send_each Let_def)

lemma run_leave:
  "run (tries (\<lambda>gm. game_manager_leave_game gm i s) (\<lambda>r. p)) st =
     run p (st\<lparr>game_manager := try_leave s i (game_manager st)\<rparr>)"
  by (simp add: run_tries try_leave_def split: sum.split)

lemma run_leave_each:
  "run (leave_each s ids p) st = run p (st\<lparr>game_manager := fold (try_leave s) ids (game_manager st)\<rparr>)"
  by (induction ids arbitrary: st) (simp_all add: run_leave)

lemma owner_listed:
  "ids_distinct gm \<Longrightarrow> g \<in> set (games gm) \<Longrightarrow> game_manager_get_owner_socket gm (gid g) = player_x_socket g"
proof -
  have "distinct (map gid gs) \<Longrightarrow> g \<in> set gs \<Longrightarrow> find_game gs (gid g) = Some g" for gs
    by (induction gs) auto
  then show "ids_distinct gm \<Longrightarrow> g \<in> set (games gm) \<Longrightarrow> ?thesis"
    by (simp add: game_manager_get_owner_socket_def ids_distinct_def)
qed

lemma run_collect_each:
  "ids_distinct (game_manager st) \<Longrightarrow> set gs \<subseteq> set (games (game_manager st)) \<Longrightarrow>
   run (collect_each s accepted p (map gid gs) found) st =
     run (leave_each s (found @ collect_creator_games gs s accepted (length found)) p) st"
  by (induction gs arbitrary: found) (simp_all add: owner_listed)

lemma run_cleanup:
  "ids_distinct (game_manager st) \<Longrightarrow>
   run (cleanup_prog s accepted p) st =
     run p (st\<lparr>game_manager := game_manager_cleanup_creator_games (game_manager st) s accepted\<rparr>)"
  by (simp add: cleanup_prog_def run_collect_each run_leave_each game_manager_cleanup_creator_games_def)

lemma run_list_prog: "run (list_prog s) st = (handle_list_game s st, True)"
  by (simp add: list_prog_def handle_list_game_def)

lemma run_create_prog: "run (create_prog e s) st = (handle_create_game e s st, True)"
proof (cases "malloc_ok e")
  case False
  then show ?thesis
    by (simp add: create_prog_def handle_create_game_def game_manager_create_game_def)
next
  case True
  let ?name = "find_username_by_socket st s (''Unknown'' @ zeros 25) 32"
  obtain gm i where c: "game_manager_create_game (game_manager st) (malloc_ok e) s ?name = Inr (gm, i)"
    using True by (simp add: game_manager_create_game_def generate_game_id_def Let_def)
  show ?thesis
  proof (cases "client_is_playing st s")
    case playing: True
    then show ?thesis by (simp add: create_prog_def handle_create_game_def)
  next
    case False
    from True create_game_cases [OF c] show ?thesis
      unfolding create_prog_def handle_create_game_def Let_def c if_not_P [OF False] sum.case prod.case
      by (simp add: run_calls generate_game_id_def False)
  qed
qed

lemma run_join_prog: "run (join_prog s i) st = (handle_join_request s i st, True)"
  by (simp add: join_prog_def handle_join_request_def run_tries Let_def split: sum.split)

lemma ids_decision:
  assumes "game_manager_join_decision gm i a = Inr (gm', r)" "ids_distinct gm"
  shows "ids_distinct gm'"
  using assms find_game_gid [of "games gm" i]
  by (auto simp: ids_distinct_def set_game_def gids_put elim!: join_decision_cases)

lemma ids_try_leave: "ids_distinct gm \<Longrightarrow> ids_distinct (try_leave s i gm)"
  by (auto simp: try_leave_def leave_game_unfold vacate_def ids_distinct_def unlink_game_def set_game_def
      distinct_remove gids_put dest: find_game_gid split: sum.split option.splits if_splits)

lemma run_decision_prog:
  assumes "ids_distinct (game_manager st)"
  shows "run (decision_prog s a i) st = (handle_join_decision s a i st, True)"
proof (cases "game_manager_join_decision (game_manager st) i a")
  case (Inl err)
  then show ?thesis by (simp add: decision_prog_def decide_prog_def handle_join_decision_def run_calls)
next
  case (Inr r)
  then obtain gm role where j: "game_manager_join_decision (game_manager st) i a = Inr (gm, role)"
    by (cases r) auto
  from ids_decision [OF this assms] j show ?thesis
    by (auto simp: decision_prog_def decide_prog_def handle_join_decision_def run_calls run_cleanup Let_def split: sum.split)
qed

lemma run_move_prog: "run (move_prog e s m) st = (handle_move e s m st, True)"
  by (simp add: move_prog_def handle_move_def run_calls Let_def split: sum.split option.split)

lemma run_restart: "run (restart_prog x y i p) st = run p (restart_round x y i st)"
  by (simp add: restart_prog_def restart_round_def Let_def split: sum.split)

lemma run_resume: "run (resume_prog e s i w x y p) st = run p (resume_game e s i w x y st)"
  by (simp add: resume_prog_def resume_game_def run_restart Let_def)

lemma run_post_game_prog: "run (post_game_prog e s i w) st = (handle_post_game_decision e s i w st, True)"
proof (cases "game_manager_post_game_decision (game_manager st) i s w")
  case (Inl err)
  then show ?thesis by (simp add: post_game_prog_def handle_post_game_decision_def run_calls)
next
  case (Inr r)
  then obtain gm both where p: "game_manager_post_game_decision (game_manager st) i s w = Inr (gm, both)"
    by (cases r) auto
  then show ?thesis
    by (auto simp: post_game_prog_def handle_post_game_decision_def run_calls [of "\<lambda>gm. game_manager_post_game_decision gm i s w"]
        run_leave run_resume try_leave_def Let_def split: sum.split)
qed

lemma run_leave_prog:
  "ids_distinct (game_manager st) \<Longrightarrow> run (leave_prog s i) st = (handle_leave_game s i st, True)"
  by (simp add: leave_prog_def handle_leave_game_def run_leave run_cleanup ids_try_leave try_leave_def [symmetric]
      Let_def)

lemma remove_client_manager [simp]: "game_manager (remove_client st s) = game_manager st"
  by (simp add: remove_client_def split: option.split)

lemma run_connect_prog: "run (connect_prog s) st = client_connect s st"
  by (simp add: connect_prog_def client_connect_def split: prod.split)

lemma run_disconnect_prog:
  "ids_distinct (game_manager st) \<Longrightarrow> run (disconnect_prog s) st = (client_disconnect s st, False)"
  by (simp add: disconnect_prog_def client_disconnect_def run_leave run_cleanup ids_try_leave Let_def)
    (simp add: try_leave_def split: sum.split)

lemma run_message_prog:
  "ids_distinct (game_manager st) \<Longrightarrow> run (message_prog e s m) st = (handle_message e s m st, True)"
  by (cases "msg_type m")
    (simp_all add: message_prog_def handle_message_def run_create_prog run_join_prog run_decision_prog run_post_game_prog
      run_move_prog run_list_prog run_leave_prog)

section \<open>Interleaved threads\<close>

text \<open>A thread waits in \<open>receive_message\<close>, or it runs a program.\<close>

datatype activity = Listening | Running prog

record World =
  shared :: Server
  threads_at :: "socket \<Rightarrow> activity option"

text \<open>
  The operating system gives a new connection a descriptor that no thread has open: \<open>close\<close> is
  the last thing \<open>handle_client\<close> does.
\<close>

datatype event =
    Accepted socket
  | Received socket Env Message
  | Lost socket
  | Proceeds socket

definition put :: "socket \<Rightarrow> activity option \<Rightarrow> World \<Rightarrow> World" where
  "put s a w = w\<lparr>threads_at := (threads_at w)(s := a)\<rparr>"

definition listens :: "activity option \<Rightarrow> bool" where
  "listens a \<longleftrightarrow> (case a of Some Listening \<Rightarrow> True | _ \<Rightarrow> False)"

fun world_step :: "event \<Rightarrow> World \<Rightarrow> World option" where
  "world_step (Accepted s) w =
     (if 0 \<le> s \<and> Option.is_none (threads_at w s) then Some (put s (Some (Running (connect_prog s))) w) else None)"
| "world_step (Received s e m) w =
     (if listens (threads_at w s) then Some (put s (Some (Running (message_prog e s m))) w) else None)"
| "world_step (Lost s) w =
     (if listens (threads_at w s) then Some (put s (Some (Running (disconnect_prog s))) w) else None)"
| "world_step (Proceeds s) w =
     (case threads_at w s of
        Some (Running (Ends stays)) \<Rightarrow> Some (put s (if stays then Some Listening else None) w)
      | Some (Running (Act f k)) \<Rightarrow>
          Some (put s (Some (Running (k (shared w)))) (w\<lparr>shared := f (shared w)\<rparr>))
      | _ \<Rightarrow> None)"

inductive interleaved :: "World \<Rightarrow> bool" where
  world_start: "initialize_server (replicate MAX_CLIENTS zero_Client) True = Some st \<Longrightarrow>
    interleaved \<lparr>shared = st, threads_at = Map.empty\<rparr>"
| world_next: "interleaved w \<Longrightarrow> world_step ev w = Some w' \<Longrightarrow> interleaved w'"

lemma listens_iff [simp]: "listens a \<longleftrightarrow> a = Some Listening"
  by (simp add: listens_def split: option.split activity.split)

lemma is_none_iff [simp]: "Option.is_none a \<longleftrightarrow> a = None"
  by (cases a) simp_all

lemma put_simps [simp]:
  "shared (put s a w) = shared w" "threads_at (put s a w) t = (if t = s then a else threads_at w t)"
  "put s b (put s a w) = put s b w" "put s b ((put s a w)\<lparr>shared := st\<rparr>) = put s b (w\<lparr>shared := st\<rparr>)"
  by (simp_all add: put_def)

text \<open>One thread may run to the end of its program while the others pause.\<close>

lemma interleaved_run:
  "interleaved w \<Longrightarrow> threads_at w s = Some (Running p) \<Longrightarrow> run p (shared w) = (st, stays) \<Longrightarrow>
   interleaved (put s (if stays then Some Listening else None) (w\<lparr>shared := st\<rparr>))"
proof (induction p arbitrary: w)
  case (Ends b)
  then have "world_step (Proceeds s) w = Some (put s (if stays then Some Listening else None) (w\<lparr>shared := st\<rparr>))"
    by (auto simp: put_def)
  with Ends show ?case by (blast intro: world_next)
next
  case (Act f k)
  let ?w = "put s (Some (Running (k (shared w)))) (w\<lparr>shared := f (shared w)\<rparr>)"
  have "world_step (Proceeds s) w = Some ?w" using Act.prems(2) by simp
  with Act.prems(1) have "interleaved ?w" by (rule world_next)
  from Act.IH [OF _ this, of "k (shared w)"] Act.prems(3) show ?case by simp
qed

text \<open>All the threads of the connected clients are waiting for a message.\<close>

definition at_rest :: "Server \<Rightarrow> World" where
  "at_rest st = \<lparr>shared = st, threads_at = (\<lambda>s. if connected s st then Some Listening else None)\<rparr>"

fun world_run :: "event list \<Rightarrow> World \<Rightarrow> World option" where
  "world_run [] w = Some w"
| "world_run (ev # evs) w = (case world_step ev w of None \<Rightarrow> None | Some w' \<Rightarrow> world_run evs w')"

lemma interleaved_events: "world_run evs w = Some w' \<Longrightarrow> interleaved w \<Longrightarrow> interleaved w'"
  by (induction evs arbitrary: w) (auto intro: world_next split: option.splits)

end
