(* ===== verification/Threads_Inv.thy ===== *)
theory Threads_Inv
  imports Server_Threads
begin

text \<open>
  What the threads of the server keep for each other.

  \<^item> The locale \<open>shared_state\<close> is their contract: an invariant of the shared state and, for each descriptor,
    whether the server has an entry for it. \<open>guarded\<close>: every access of a program keeps it, from any
    state that other threads may leave. \<open>contract_kept\<close>: all programs of the server do, and then every
    interleaving does.
  \<^item> \<open>shared_inv\<close> is the invariant of the code: the table, the games, and what was sent. The rules
    \<open>guards\<close> follow the syntax of the programs.
\<close>

section \<open>What every access keeps\<close>

text \<open>
  The contract of the threads: \<open>inv\<close> holds of the shared state between any two accesses, and \<open>here s\<close>,
  whether the server has an entry for \<open>s\<close>, is changed by the thread of \<open>s\<close> alone.
\<close>

locale shared_state =
  fixes inv :: "Server \<Rightarrow> bool" and here :: "socket \<Rightarrow> Server \<Rightarrow> bool"
  assumes first_inv: "initialize_server (replicate MAX_CLIENTS zero_Client) True = Some st \<Longrightarrow> inv st"
    and first_here: "initialize_server (replicate MAX_CLIENTS zero_Client) True = Some st \<Longrightarrow> \<not> here s st"
begin

text \<open>A program keeps the contract from a state that others may have changed between any two
  accesses. It ends with an entry if the thread goes on, and without one otherwise.\<close>

primrec guarded :: "socket \<Rightarrow> prog \<Rightarrow> bool \<Rightarrow> bool" where
  "guarded s (Ends stays) = (\<lambda>h. h = stays)"
| "guarded s (Act f k) = (\<lambda>h. \<forall>st. inv st \<and> here s st = h \<longrightarrow>
     inv (f st) \<and> (\<forall>t. t \<noteq> s \<longrightarrow> here t (f st) = here t st) \<and> guarded s (k st) (here s (f st)))"

lemma guarded_reads:
  "(\<And>st. inv st \<Longrightarrow> guarded s (k (v st)) h) \<Longrightarrow> guarded s (reads v k) h"
  by (simp add: reads_def)

lemma guarded_writes:
  "(\<And>st. inv st \<Longrightarrow> inv (f st)) \<Longrightarrow> (\<And>st t. here t (f st) = here t st) \<Longrightarrow> guarded s p h \<Longrightarrow>
   guarded s (writes f p) h"
  by (simp add: writes_def)

lemma guarded_run:
  "guarded s p (here s st) \<Longrightarrow> inv st \<Longrightarrow> run p st = (st', stays) \<Longrightarrow>
   inv st' \<and> here s st' = stays \<and> (\<forall>t. t \<noteq> s \<longrightarrow> here t st' = here t st)"
  by (induction p arbitrary: st) (simp, fastforce)

fun activity_ok :: "socket \<Rightarrow> activity option \<Rightarrow> bool \<Rightarrow> bool" where
  "activity_ok s None h \<longleftrightarrow> \<not> h"
| "activity_ok s (Some Listening) h \<longleftrightarrow> h \<and> 0 \<le> s"
| "activity_ok s (Some (Running p)) h \<longleftrightarrow> guarded s p h \<and> 0 \<le> s"

definition world_inv :: "World \<Rightarrow> bool" where
  "world_inv w \<longleftrightarrow> inv (shared w) \<and> (\<forall>s. activity_ok s (threads_at w s) (here s (shared w)))"

lemma world_inv_put: "world_inv w \<Longrightarrow> activity_ok s a (here s (shared w)) \<Longrightarrow> world_inv (put s a w)"
  by (simp add: world_inv_def)

lemma world_invD: "world_inv w \<Longrightarrow> threads_at w s = a \<Longrightarrow> activity_ok s a (here s (shared w))"
  by (auto simp: world_inv_def)

lemma world_inv_proceeds:
  assumes inv: "world_inv w" and "world_step (Proceeds s) w = Some w'"
  shows "world_inv w'"
proof -
  from assms obtain p where p: "threads_at w s = Some (Running p)"
    by (auto split: option.splits activity.splits)
  from world_invD [OF inv this] have g: "guarded s p (here s (shared w))" "0 \<le> s" by simp_all
  show ?thesis
  proof (cases p)
    case (Ends stays)
    with assms p g show ?thesis
      by (cases stays) (auto intro!: world_inv_put)
  next
    case (Act f k)
    with g inv have "inv (f (shared w))" "\<forall>t. t \<noteq> s \<longrightarrow> here t (f (shared w)) = here t (shared w)"
      "guarded s (k (shared w)) (here s (f (shared w)))"
      by (auto simp: world_inv_def)
    with assms p g Act show ?thesis by (auto simp: world_inv_def)
  qed
qed

end

locale contract_kept = shared_state +
  assumes connect: "0 \<le> s \<Longrightarrow> guarded s (connect_prog s) False"
    and handle: "0 \<le> s \<Longrightarrow> guarded s (message_prog e s m) True"
    and disconnect: "0 \<le> s \<Longrightarrow> guarded s (disconnect_prog s) True"
begin

lemma world_inv_step: "world_step ev w = Some w' \<Longrightarrow> world_inv w \<Longrightarrow> world_inv w'"
proof (cases ev)
  case (Accepted s)
  then show "world_step ev w = Some w' \<Longrightarrow> world_inv w \<Longrightarrow> ?thesis"
    using world_invD [of w s None] connect by (auto intro!: world_inv_put split: if_splits)
next
  case (Received s e m)
  then show "world_step ev w = Some w' \<Longrightarrow> world_inv w \<Longrightarrow> ?thesis"
    using world_invD [of w s "Some Listening"] handle by (auto intro!: world_inv_put split: if_splits)
next
  case (Lost s)
  then show "world_step ev w = Some w' \<Longrightarrow> world_inv w \<Longrightarrow> ?thesis"
    using world_invD [of w s "Some Listening"] disconnect by (auto intro!: world_inv_put split: if_splits)
next
  case (Proceeds s)
  then show "world_step ev w = Some w' \<Longrightarrow> world_inv w \<Longrightarrow> ?thesis"
    using world_inv_proceeds by blast
qed

lemma interleaved_inv: "interleaved w \<Longrightarrow> world_inv w"
proof (induction rule: interleaved.induct)
  case (world_start st)
  then show ?case by (simp add: world_inv_def first_inv first_here)
next
  case (world_next w ev w')
  then show ?case by (blast intro: world_inv_step)
qed

end

section \<open>The shared state under any interleaving\<close>

text \<open>
  \<open>seats_ok\<close> and the distinctness of identifiers are not part of this invariant: the first can be
  broken by interleaving, the second would need the identifiers that threads have taken but not
  yet used.
\<close>

definition games_ok :: "GameManager \<Rightarrow> bool" where
  "games_ok gm \<longleftrightarrow> (\<forall>g \<in> set (games gm). game_inv g)"

text \<open>A message that shows a board shows the result of a legal play, and whose turn it is.\<close>

definition shows_legal :: "Message \<Rightarrow> bool" where
  "shows_legal m \<longleftrightarrow>
     (case payload m of
        Game_state p \<Rightarrow> \<exists>ms. legal ms (board (gs_state_data p)) \<and>
          current_turn (gs_state_data p) = turn_after (length ms)
      | _ \<Rightarrow> True)"

definition shared_inv :: "Server \<Rightarrow> bool" where
  "shared_inv st \<longleftrightarrow> table_inv st \<and> games_ok (game_manager st) \<and>
     (\<forall>(s, m) \<in> set (sent st). good_message m \<and> shows_legal m)"

interpretation threads: shared_state shared_inv connected
proof
  fix st s
  assume st: "initialize_server (replicate MAX_CLIENTS zero_Client) True = Some st"
  then show "shared_inv st"
    using table_inv_init [OF st]
    by (auto simp: shared_inv_def games_ok_def initialize_server_def game_manager_create_def Let_def)
  have "st = fresh_server" using st by (simp add: fresh_server_def)
  then show "\<not> connected s st" using fresh_server_free by (simp add: connected_def)
qed

subsection \<open>Operations of the manager\<close>

lemma set_put_game: "set (put_game gs i g) \<subseteq> insert g (set gs)"
  by (induction gs) auto

lemma games_ok_set: "games_ok gm \<Longrightarrow> game_inv g \<Longrightarrow> games_ok (set_game gm g)"
  using set_put_game [of "games gm" "gid g" g] by (auto simp: games_ok_def set_game_def)

lemma games_ok_find: "games_ok gm \<Longrightarrow> find_game (games gm) i = Some g \<Longrightarrow> game_inv g"
  by (auto simp: games_ok_def dest: find_game_mem)

named_theorems games_kept \<open>operations of the manager keep every game a legal play\<close>

lemma games_ok_join [games_kept]:
  "games_ok gm \<Longrightarrow> game_manager_join_game gm i s name = Inr gm' \<Longrightarrow> games_ok gm'"
  by (auto elim!: join_game_cases simp: joinable_def intro!: games_ok_set game_inv_join dest: games_ok_find)

lemma games_ok_decision [games_kept]:
  assumes "games_ok gm" "game_manager_join_decision gm i a = Inr (gm', r)"
  shows "games_ok gm'"
  using assms(2)
proof (rule join_decision_cases)
  fix g
  assume g: "find_game (games gm) i = Some g" "waiting_player_socket g \<noteq> -1"
    and gm': "gm' = set_game gm (if a then
          g\<lparr>player_o_socket := waiting_player_socket g, waiting_player_socket := -1,
            waiting_player_username := (waiting_player_username g)[0 := NUL],
            state_data := (state_data g)\<lparr>gstate := GAME_IN_PROGRESS\<rparr>\<rparr>
        else g\<lparr>waiting_player_socket := -1,
               waiting_player_username := (waiting_player_username g)[0 := NUL]\<rparr>)"
  note inv = games_ok_find [OF assms(1) g(1)]
  show ?thesis
    unfolding gm' by (rule games_ok_set [OF assms(1)]) (simp add: game_inv_accept [OF inv g(2)] game_inv_refuse [OF inv])
qed

lemma games_ok_move [games_kept]:
  "games_ok gm \<Longrightarrow> game_manager_move gm i s row col = Inr (gm', r) \<Longrightarrow> games_ok gm'"
  by (auto elim!: move_cases intro!: games_ok_set game_inv_move dest: games_ok_find)

lemma games_ok_leave [games_kept]:
  "games_ok gm \<Longrightarrow> game_manager_leave_game gm i s = Inr gm' \<Longrightarrow> games_ok gm'"
  using set_remove_game [of "games gm" i]
  by (auto simp: leave_game_unfold unlink_game_def games_ok_def [of "gm\<lparr>games := k\<rparr>" for k]
      intro!: games_ok_set dest: games_ok_find game_inv_vacate split: option.splits if_splits)
    (auto simp: games_ok_def)

lemma games_ok_answer [games_kept]:
  "games_ok gm \<Longrightarrow> game_manager_post_game_decision gm i s w = Inr (gm', r) \<Longrightarrow> s \<noteq> -1 \<Longrightarrow> games_ok gm'"
  by (auto elim!: post_game_cases intro!: games_ok_set game_inv_decide_post_game dest: games_ok_find)

lemma games_ok_append: "games_ok gm \<Longrightarrow> games_ok (append_game gm (new_game i s name))"
  by (simp add: games_ok_def append_game_def game_inv_new)

subsection \<open>Messages\<close>

lemma shows_state:
  "shows_legal (game_state_message i state p txt) \<longleftrightarrow>
     (\<exists>ms. legal ms (board state) \<and> current_turn state = turn_after (length ms))"
  by (simp add: shows_legal_def game_state_message_def)

lemma state_shown:
  assumes "games_ok gm" "game_manager_get_game_state gm i = Inr state" "p = PLAYER_X \<or> p = PLAYER_O"
  shows "good_message (game_state_message j state p txt) \<and> shows_legal (game_state_message j state p txt)"
proof -
  obtain g where g: "find_game (games gm) i = Some g" "state = state_data g"
    using assms(2) by (auto simp: game_manager_get_game_state_def split: option.splits)
  have "game_inv g" using games_ok_find [OF assms(1) g(1)] .
  with g(2) assms(3) wf_state_of_game show ?thesis by (auto simp: shows_state game_inv_def play_ok_def)
qed

lemma shows_no_board [simp]:
  "shows_legal (error_reply t)" "shows_legal (error_reply_uninit e t)" "shows_legal (game_start_message i p)"
  "shows_legal (game_created_message i)" "shows_legal (game_over_message i w)" "shows_legal (post_game_message i)"
  "shows_legal (lobby_message st)" "shows_legal \<lparr>msg_type = ty, payload = Join_request j\<rparr>"
  "shows_legal \<lparr>msg_type = ty, payload = Status_change c\<rparr>"
  by (simp_all add: shows_legal_def error_reply_def error_reply_uninit_def game_start_message_def
      game_created_message_def game_over_message_def post_game_message_def lobby_message_eq)

lemma good_created [simp]: "good_message (game_created_message i)"
  by (simp add: game_created_message_def zero_GameStatusChangePayload_def length_snprintf)

subsection \<open>Accesses\<close>

lemma shared_send: "shared_inv st \<Longrightarrow> good_message m \<Longrightarrow> shows_legal m \<Longrightarrow> shared_inv (send s m st)"
  by (auto simp: shared_inv_def table_inv_def)

lemma shared_manager: "shared_inv st \<Longrightarrow> games_ok gm \<Longrightarrow> shared_inv (st\<lparr>game_manager := gm\<rparr>)"
  by (simp add: shared_inv_def table_inv_def)

lemma shared_games: "shared_inv st \<Longrightarrow> games_ok (game_manager st)"
  by (simp add: shared_inv_def)

lemma shared_table:
  assumes "shared_inv st" "active_sockets cs = active_sockets (clients st)" "length cs = length (clients st)"
    "\<forall>c \<in> set cs. username_ok (username c)"
  shows "shared_inv (st\<lparr>clients := cs\<rparr>)"
  using assms by (simp add: shared_inv_def table_inv_def)

lemma shared_slot:
  assumes "shared_inv st" "\<And>c. is_active (f c) = is_active c" "\<And>c. cl_socket (f c) = cl_socket c"
    "\<And>c. username_ok (username c) \<Longrightarrow> username_ok (username (f c))"
  shows "shared_inv (st\<lparr>clients := update_slot P f (clients st)\<rparr>)"
proof (rule shared_table [OF assms(1)])
  have "\<forall>c \<in> set (clients st). username_ok (username c)"
    using assms(1) by (simp add: shared_inv_def table_inv_def)
  then show "\<forall>c \<in> set (update_slot P f (clients st)). username_ok (username c)"
    using assms(4) by (auto dest!: set_update_slot)
qed (simp_all add: active_sockets_update [OF assms(2,3)])

lemma shared_set_playing: "shared_inv st \<Longrightarrow> shared_inv (client_set_playing s p i st)"
  unfolding client_set_playing_def by (rule shared_slot) auto

lemma active_mark_players: "active_sockets (clients (mark_players x y i st)) = active_sockets (clients st)"
proof -
  have "active_sockets (map (\<lambda>c. if is_active c \<and> (cl_socket c = x \<or> cl_socket c = y)
      then c\<lparr>is_playing := True, current_game_id := k\<rparr> else c) cs) = active_sockets cs" for cs k
    by (induction cs) auto
  then show ?thesis by (simp add: mark_players_def)
qed

lemma shared_mark_players: "shared_inv st \<Longrightarrow> shared_inv (mark_players x y i st)"
  using active_mark_players [of x y i st]
  by (auto simp: mark_players_def shared_inv_def table_inv_def intro!: shared_table)

lemma shared_set_username: "shared_inv st \<Longrightarrow> shared_inv (handle_set_username s p st)"
  unfolding handle_set_username_def
  by (rule shared_slot) (auto simp: username_ok_def length_copy_string NUL_copy)

lemma connected_simps [simp]:
  "connected t (send s m st) = connected t st"
  "connected t (st\<lparr>game_manager := gm\<rparr>) = connected t st"
  "connected t (client_set_playing s p i st) = connected t st"
  "connected t (mark_players x y i st) = connected t st"
  "connected t (handle_set_username s u st) = connected t st"
  "connected t (st\<lparr>clients := update_slot (active_on s)
     (\<lambda>c. c\<lparr>is_playing := b, current_game_id := j\<rparr>) (clients st)\<rparr>) = connected t st"
  by (simp_all add: connected_def active_mark_players)
    (simp_all add: client_set_playing_def handle_set_username_def active_sockets_update)

text \<open>The rules for the accesses a handler is made of.\<close>

named_theorems guards \<open>accesses keep the contract of the threads\<close>

lemmas guarded_reads [guards] = threads.guarded_reads

lemma guarded_sends [guards]:
  "good_message m \<Longrightarrow> shows_legal m \<Longrightarrow> threads.guarded s p h \<Longrightarrow> threads.guarded s (sends t m p) h"
  unfolding sends_def by (rule threads.guarded_writes) (simp_all add: shared_send)

lemma guarded_set_playing [guards]:
  "threads.guarded s p h \<Longrightarrow> threads.guarded s (writes (client_set_playing t b i) p) h"
  by (rule threads.guarded_writes) (simp_all add: shared_set_playing)

lemma guarded_mark [guards]: "threads.guarded s p h \<Longrightarrow> threads.guarded s (writes (mark_players x y i) p) h"
  by (rule threads.guarded_writes) (simp_all add: shared_mark_players)

lemma guarded_calls [guards]:
  assumes "\<And>gm gm' x. games_ok gm \<Longrightarrow> f gm = Inr (gm', x) \<Longrightarrow> games_ok gm'"
    and "\<And>r. threads.guarded s (k r) h"
  shows "threads.guarded s (calls f k) h"
  using assms by (auto simp: calls_def intro!: shared_manager dest: shared_games split: sum.split)

lemma guarded_tries [guards]:
  assumes "\<And>gm gm'. games_ok gm \<Longrightarrow> f gm = Inr gm' \<Longrightarrow> games_ok gm'" and "\<And>r. threads.guarded s (k r) h"
  shows "threads.guarded s (tries f k) h"
  unfolding tries_def
  by (rule guarded_calls [OF _ assms(2)]) (auto simp: map_sum_def intro: assms(1) split: sum.splits)

lemma guarded_if [guards]:
  "(b \<Longrightarrow> threads.guarded s p h) \<Longrightarrow> (\<not> b \<Longrightarrow> threads.guarded s q h) \<Longrightarrow> threads.guarded s (if b then p else q) h"
  by simp

lemma guarded_sum [guards]:
  "(\<And>e. threads.guarded s (f e) h) \<Longrightarrow> (\<And>x. threads.guarded s (g x) h) \<Longrightarrow>
   threads.guarded s (case r of Inl e \<Rightarrow> f e | Inr x \<Rightarrow> g x) h"
  by (simp split: sum.split)

lemma guarded_prod [guards]:
  "(\<And>a b. threads.guarded s (f a b) h) \<Longrightarrow> threads.guarded s (case x of (a, b) \<Rightarrow> f a b) h"
  by (simp split: prod.split)

lemma guarded_option [guards]:
  "threads.guarded s p h \<Longrightarrow> (\<And>x. threads.guarded s (f x) h) \<Longrightarrow>
   threads.guarded s (case r of None \<Rightarrow> p | Some x \<Rightarrow> f x) h"
  by (simp split: option.split)

subsection \<open>The handlers keep the contract\<close>

lemma guarded_ends [guards]: "threads.guarded s (Ends h) h"
  by simp

lemma guarded_send_each:
  "good_message m \<Longrightarrow> shows_legal m \<Longrightarrow> threads.guarded s p h \<Longrightarrow> threads.guarded s (send_each ss m p) h"
  by (induction ss) (simp_all add: guarded_sends)

lemma guarded_broadcast [guards]: "threads.guarded s p h \<Longrightarrow> threads.guarded s (broadcast_prog p) h"
  unfolding broadcast_prog_def by (intro guards guarded_send_each wf_lobby_message) simp_all

lemma guarded_list: "threads.guarded s (list_prog s) True"
  unfolding list_prog_def by (intro guards wf_lobby_message) simp

lemma guarded_create: "threads.guarded s (create_prog e s) True"
proof -
  have slot: "shared_inv st \<Longrightarrow> shared_inv (st\<lparr>clients := update_slot (active_on s)
      (\<lambda>c. c\<lparr>is_playing := True, current_game_id := j\<rparr>) (clients st)\<rparr>)" for st j
    by (rule shared_slot) auto
  have new: "shared_inv st \<Longrightarrow> shared_inv (st\<lparr>game_manager := append_game (game_manager st) (new_game i s name)\<rparr>)"
    for st i name by (intro shared_manager games_ok_append shared_games)
  have rest: "threads.guarded s
      (writes (\<lambda>st. st\<lparr>game_manager := append_game (game_manager st) (new_game i s name)\<rparr>) (
       writes (client_set_playing s True i) (
       writes (\<lambda>st. st\<lparr>clients := update_slot (active_on s)
                 (\<lambda>c. c\<lparr>is_playing := True, current_game_id := int_of_u32 i\<rparr>) (clients st)\<rparr>) (
       sends s (game_created_message i) (broadcast_prog (Ends True)))))) True" for i name
    by (rule threads.guarded_writes [OF new], assumption, simp, rule guards,
        rule threads.guarded_writes [OF slot], assumption, simp) (intro guards; simp)
  have take: "games_ok gm \<Longrightarrow>
      (case generate_game_id gm of (i, gm) \<Rightarrow> Inr (gm, i)) = (Inr (gm', x) :: (GameManager \<times> u32) result) \<Longrightarrow>
      games_ok gm'" for gm gm' x by (auto simp: generate_game_id_def games_ok_def)
  show ?thesis
    unfolding create_prog_def by (intro guards rest; (rule take)?) simp_all
qed

lemma guarded_join: "threads.guarded s (join_prog s i) True"
  unfolding join_prog_def
  by (intro guards; (erule games_ok_join)?)
    (simp_all add: zero_JoinRequestPayload_def length_snprintf set_update_memI)

lemma guarded_leave_each [guards]: "threads.guarded s p h \<Longrightarrow> threads.guarded s (leave_each t ids p) h"
  by (induction ids) (simp_all add: guarded_tries [OF games_ok_leave])

lemma guarded_collect_each: "threads.guarded s p h \<Longrightarrow> threads.guarded s (collect_each t i p ids found) h"
  by (induction ids arbitrary: found) (auto intro: guards)

lemma guarded_cleanup [guards]: "threads.guarded s p h \<Longrightarrow> threads.guarded s (cleanup_prog t i p) h"
  unfolding cleanup_prog_def by (intro guards guarded_collect_each)

text \<open>A board that was read is shown to the two players.\<close>

lemma guarded_state [guards]:
  assumes "\<And>err. threads.guarded s (f err) h"
    and "\<And>state. (\<And>r txt j. r = PLAYER_X \<or> r = PLAYER_O \<Longrightarrow>
      good_message (game_state_message j state r txt) \<and> shows_legal (game_state_message j state r txt)) \<Longrightarrow>
      threads.guarded s (g state) h"
  shows "threads.guarded s (reads_game i (\<lambda>r. case r of Inl err \<Rightarrow> f err | Inr state \<Rightarrow> g state)) h"
  unfolding reads_game_def
proof (rule threads.guarded_reads)
  fix st
  assume "shared_inv st"
  then have gm: "games_ok (game_manager st)" by (rule shared_games)
  show "threads.guarded s (case game_manager_get_game_state (game_manager st) i of
      Inl err \<Rightarrow> f err | Inr state \<Rightarrow> g state) h"
    using assms state_shown [OF gm] by (cases "game_manager_get_game_state (game_manager st) i") simp_all
qed

lemma guarded_decision: "threads.guarded s (decision_prog s a i) True"
  unfolding decision_prog_def decide_prog_def Let_def
  by (intro guards; (erule games_ok_decision)?) simp_all

lemma guarded_move: "threads.guarded s (move_prog e s m) True"
  unfolding move_prog_def Let_def
  by (intro guards; (erule games_ok_move)?) simp_all

lemma guarded_restart [guards]: "threads.guarded s p h \<Longrightarrow> threads.guarded s (restart_prog x y i p) h"
  unfolding restart_prog_def by (intro guards) simp_all

lemma guarded_resume [guards]: "threads.guarded s p h \<Longrightarrow> threads.guarded s (resume_prog e t i w x y p) h"
  unfolding resume_prog_def Let_def by (intro guards) (simp_all add: length_snprintf uninit_def)

lemma guarded_post_game: "0 \<le> s \<Longrightarrow> threads.guarded s (post_game_prog e s i w) True"
  unfolding post_game_prog_def Let_def
  by (intro guards; (erule (1) games_ok_leave | erule (1) games_ok_answer)?) simp_all

lemma guarded_leave_handler: "threads.guarded s (leave_prog s i) True"
  unfolding leave_prog_def by (intro guards; (erule games_ok_leave)?) simp_all

lemma guarded_message: "0 \<le> s \<Longrightarrow> threads.guarded s (message_prog e s m) True"
  unfolding message_prog_def
  by (cases "msg_type m")
    (simp_all add: guarded_create guarded_join guarded_decision guarded_post_game guarded_move guarded_list
      guarded_leave_handler guarded_sends threads.guarded_writes shared_set_username)

lemma guarded_disconnect: "threads.guarded s (disconnect_prog s) True"
proof -
  have gone: "shared_inv (remove_client st s)" "\<not> connected s (remove_client st s)"
    "t \<noteq> s \<Longrightarrow> connected t (remove_client st s) = connected t st" if "shared_inv st" for st t
  proof -
    from that have t: "table_inv st" by (simp add: shared_inv_def)
    have "sent (remove_client st s) = sent st" by (simp add: remove_client_def split: option.split)
    with that table_inv_remove [OF t] show "shared_inv (remove_client st s)" by (simp add: shared_inv_def)
    have "active_sockets (clients (remove_client st s)) = remove1 s (active_sockets (clients st))"
    proof (cases "first_slot (active_on s) (clients st)")
      case None
      then have "s \<notin> set (active_sockets (clients st))" by (simp add: first_slot_None active_sockets_iff)
      with None show ?thesis by (simp add: remove_client_def remove1_idem)
    next
      case (Some c)
      then show ?thesis by (simp add: remove_client_def active_sockets_remove)
    qed
    with t show "\<not> connected s (remove_client st s)"
      "t \<noteq> s \<Longrightarrow> connected t (remove_client st s) = connected t st"
      by (simp_all add: connected_def table_inv_def)
  qed
  have rest: "threads.guarded s (if b
      then tries (\<lambda>gm. game_manager_leave_game gm i s) (\<lambda>r. cleanup_prog s 0 (broadcast_prog (Ends False)))
      else cleanup_prog s 0 (broadcast_prog (Ends False))) False" for b i
    by (intro guards; (erule games_ok_leave)?)
  show ?thesis
    unfolding disconnect_prog_def Let_def threads.guarded.simps
  proof (intro allI impI, elim conjE, intro conjI allI impI)
    fix st
    assume "shared_inv st"
    note gone = gone [OF this]
    show "shared_inv (remove_client st s)" by (rule gone)
    show "t \<noteq> s \<Longrightarrow> connected t (remove_client st s) = connected t st" for t by (rule gone)
    show "threads.guarded s (if (case first_slot (active_on s) (clients st) of Some c \<Rightarrow> current_game_id c | None \<Rightarrow> -1) \<noteq> -1
        then tries (\<lambda>gm. game_manager_leave_game gm (u32_of_int
               (case first_slot (active_on s) (clients st) of Some c \<Rightarrow> current_game_id c | None \<Rightarrow> -1)) s)
             (\<lambda>r. cleanup_prog s 0 (broadcast_prog (Ends False)))
        else cleanup_prog s 0 (broadcast_prog (Ends False))) (connected s (remove_client st s))"
      using rest gone(2) by simp
  qed
qed

lemma guarded_connect: "0 \<le> s \<Longrightarrow> threads.guarded s (connect_prog s) False"
proof -
  assume s: "0 \<le> s"
  have "shared_inv (fst (add_client st s)) \<and> connected s (fst (add_client st s)) = snd (add_client st s) \<and>
      (t \<noteq> s \<longrightarrow> connected t (fst (add_client st s)) = connected t st)"
    if "shared_inv st" "\<not> connected s st" for st t
  proof -
    from that s have "table_inv (fst (add_client st s))"
      by (intro table_inv_add) (simp_all add: shared_inv_def connected_def)
    moreover have "game_manager (fst (add_client st s)) = game_manager st" "sent (fst (add_client st s)) = sent st"
      by (auto simp: add_client_def split: option.split)
    moreover have "set (active_sockets (clients (fst (add_client st s)))) =
        (if snd (add_client st s) then insert s (set (active_sockets (clients st))) else set (active_sockets (clients st)))"
    proof (cases "first_slot (\<lambda>c. \<not> is_active c) (clients st)")
      case (Some c)
      from mset_eq_setD [of _ "s # active_sockets (clients st)", simplified, OF active_sockets_add [OF Some]] Some
      show ?thesis by (simp add: add_client_def)
    qed (simp add: add_client_def)
    ultimately show ?thesis using that by (simp add: shared_inv_def connected_def)
  qed
  note added = this
  have rest: "threads.guarded s (if b then Ends True else sends s (error_reply MAX_CONN_MSG) (Ends False)) b" for b
    by (simp add: guarded_sends)
  show ?thesis
    unfolding connect_prog_def threads.guarded.simps
  proof (intro allI impI, elim conjE, intro conjI allI impI)
    fix st
    assume "shared_inv st" "connected s st = False"
    with added have added: "shared_inv (fst (add_client st s))" "connected s (fst (add_client st s)) = snd (add_client st s)"
      "\<And>t. t \<noteq> s \<Longrightarrow> connected t (fst (add_client st s)) = connected t st" by auto
    show "shared_inv (fst (add_client st s))" by (rule added)
    show "t \<noteq> s \<Longrightarrow> connected t (fst (add_client st s)) = connected t st" for t by (rule added)
    show "threads.guarded s (if snd (add_client st s) then Ends True
        else sends s (error_reply MAX_CONN_MSG) (Ends False)) (connected s (fst (add_client st s)))"
      unfolding added(2) by (rule rest)
  qed
qed

interpretation kept: contract_kept shared_inv connected
  by unfold_locales (simp_all add: guarded_connect guarded_message guarded_disconnect)

text \<open>What the next access of a thread sends.\<close>

definition about_to_send :: "World \<Rightarrow> socket \<Rightarrow> (socket \<times> Message) list" where
  "about_to_send w t =
     (case threads_at w t of
        Some (Running (Act f k)) \<Rightarrow> drop (length (sent (shared w))) (sent (f (shared w)))
      | _ \<Rightarrow> [])"

lemma about_to_send_good:
  assumes "interleaved w" "(s, m) \<in> set (about_to_send w t)"
  shows "good_message m"
proof -
  have w: "threads.world_inv w" by (rule kept.interleaved_inv [OF assms(1)])
  obtain a where a: "threads_at w t = Some a"
    using assms(2) by (cases "threads_at w t") (simp_all add: about_to_send_def)
  then obtain p where r: "threads_at w t = Some (Running p)"
    using assms(2) by (cases a) (simp_all add: about_to_send_def)
  obtain f k where p: "threads_at w t = Some (Running (Act f k))"
    using assms(2) r by (cases p) (simp_all add: about_to_send_def)
  have m: "(s, m) \<in> set (sent (f (shared w)))"
    using assms(2) p by (auto simp: about_to_send_def dest: in_set_dropD)
  have "shared_inv (f (shared w))"
    using threads.world_invD [OF w p] w by (auto simp: threads.world_inv_def)
  with m show ?thesis by (auto simp: shared_inv_def)
qed

end
