(* ===== verification/Threads_Props.thy ===== *)
theory Threads_Props
  imports Threads_Inv
begin

text \<open>
  The properties of the interleaved threads: what holds under any interleaving, how the interleavings relate to
  the runs in which every handler is one step, and a race.
\<close>

section \<open>The properties\<close>

text \<open>C3. The shared state is safe under any interleaving of the threads. Between any two accesses of any
  threads: the counter of clients is the number of occupied slots, at most 100, and no descriptor
  occurs twice; every thread that waits for a message has its entry, and no entry outlives its
  thread; every game is the result of a legal play; every message handed to \<open>send_message\<close> can be
  encoded, and every board ever shown to a client is the result of a legal play with the turn it
  demands.\<close>

theorem threads_share_safely:
  assumes "interleaved w"
  shows "server_get_active_clients (shared w) = int (length (filter is_active (clients (shared w)))) \<and>
    server_get_active_clients (shared w) \<le> 100 \<and>
    distinct (map cl_socket (filter is_active (clients (shared w)))) \<and>
    (\<forall>s. threads_at w s = Some Listening \<longrightarrow> connected s (shared w)) \<and>
    (\<forall>s. connected s (shared w) \<longrightarrow> threads_at w s \<noteq> None) \<and>
    (\<forall>g \<in> set (games (game_manager (shared w))). \<exists>ms. legal ms (board (state_data g)) \<and>
       current_turn (state_data g) = turn_after (length ms)) \<and>
    (\<forall>(s, m) \<in> set (sent (shared w)). wf_message m \<and> shows_legal m)"
proof -
  from assms have w: "threads.world_inv w" by (rule kept.interleaved_inv)
  then have inv: "shared_inv (shared w)" by (simp add: threads.world_inv_def)
  then have t: "table_inv (shared w)" by (simp add: shared_inv_def)
  have "length (active_sockets (clients (shared w))) \<le> 100"
    using active_sockets_le [of "clients (shared w)"] t by (simp add: table_inv_def MAX_CLIENTS_def)
  moreover have "threads_at w s = Some Listening \<longrightarrow> connected s (shared w)"
      "connected s (shared w) \<longrightarrow> threads_at w s \<noteq> None" for s
    using threads.world_invD [OF w, of s "Some Listening"] threads.world_invD [OF w, of s None] by auto
  moreover have "\<exists>ms. legal ms (board (state_data g)) \<and> current_turn (state_data g) = turn_after (length ms)"
    if "g \<in> set (games (game_manager (shared w)))" for g
    using inv that by (auto simp: shared_inv_def games_ok_def game_inv_def play_ok_def)
  ultimately show ?thesis
    using inv t by (auto simp: shared_inv_def good_message_def table_inv_def server_get_active_clients_def
        active_sockets_def)
qed

text \<open>A connection has just been accepted.\<close>

lemma fresh_world: "interleaved \<lparr>shared = fresh_server, threads_at = Map.empty\<rparr>"
  by (rule world_start) (simp add: fresh_server_def initialize_server_def game_manager_create_def Let_def)

theorem threads_share_safely_witness:
  "\<exists>w :: World. threads_at w 5 = Some (Running (connect_prog 5)) \<and> server_get_active_clients (shared w) \<le> 100 \<and>
     \<not> connected 5 (shared w)"
proof -
  define w where "w = put 5 (Some (Running (connect_prog 5))) \<lparr>shared = fresh_server, threads_at = Map.empty\<rparr>"
  have "interleaved w"
    unfolding w_def by (rule world_next [OF fresh_world, of "Accepted 5"]) simp
  with threads_share_safely [of w] have "server_get_active_clients (shared w) \<le> 100" by blast
  moreover have "threads_at w 5 = Some (Running (connect_prog 5))" "shared w = fresh_server"
    by (simp_all add: w_def)
  moreover have "\<not> connected 5 (shared w)" using fresh_server_free [of 5] by (simp add: w_def connected_def)
  ultimately show ?thesis by blast
qed

text \<open>C17. A handler whose program runs without interruption has exactly the effect that its
  definition in \<open>Handler\<close> gives it, on the state and on what is sent, and so have the beginning and the
  end of a connection.\<close>

theorem handlers_alone:
  assumes "ids_distinct (game_manager st)"
  shows "run (message_prog e s m) st = (handle_message e s m st, True) \<and>
    run (connect_prog s) st = client_connect s st \<and>
    run (disconnect_prog s) st = (client_disconnect s st, False)"
  using assms by (simp add: run_message_prog run_connect_prog run_disconnect_prog)

theorem handlers_alone_witness:
  "run (disconnect_prog 5) one_client = (client_disconnect 5 one_client, False)"
proof -
  have "ids_distinct (game_manager one_client)"
    using server_run_inv [OF one_client_run] by (simp add: server_inv_def manager_inv_def)
  from handlers_alone [OF this] show ?thesis by blast
qed

lemma at_rest_threads [simp]:
  "threads_at (at_rest st) s = (if connected s st then Some Listening else None)" "shared (at_rest st) = st"
  by (simp_all add: at_rest_def)

lemma rest_run:
  assumes "interleaved (at_rest st)" "threads.guarded s p (connected s st)" "shared_inv st"
    "world_step ev (at_rest st) = Some (put s (Some (Running p)) (at_rest st))" "run p st = (st', stays)"
  shows "interleaved (at_rest st')"
proof -
  from assms(1,4) have w: "interleaved (put s (Some (Running p)) (at_rest st))" by (rule world_next)
  have "interleaved (put s (if stays then Some Listening else None)
      ((put s (Some (Running p)) (at_rest st))\<lparr>shared := st'\<rparr>))"
    by (rule interleaved_run [OF w, of _ p]) (use assms(5) in simp_all)
  moreover have "threads_at (put s (if stays then Some Listening else None) (at_rest st)) = threads_at (at_rest st')"
    using threads.guarded_run [OF assms(2,3,5)] by (auto simp: at_rest_def fun_eq_iff)
  then have "put s (if stays then Some Listening else None)
      ((put s (Some (Running p)) (at_rest st))\<lparr>shared := st'\<rparr>) = at_rest st'"
    by (simp add: at_rest_def put_def)
  ultimately show ?thesis by simp
qed

lemma runs_interleave:
  assumes "server_run n st" and "n \<le> 2 ^ 32"
  shows "interleaved (at_rest st)"
  using assms
proof (induction rule: server_run.induct)
  case (run_start st)
  then have "st = fresh_server" by (simp add: fresh_server_def)
  then have "at_rest st = \<lparr>shared = st, threads_at = Map.empty\<rparr>"
    using fresh_server_free by (simp add: at_rest_def connected_def fun_eq_iff)
  with world_start run_start show ?case by simp
next
  case (run_connect n st s)
  then have w: "interleaved (at_rest st)" and free: "\<not> connected s st" by (simp_all add: connected_def)
  then have inv: "shared_inv st" using kept.interleaved_inv [OF w] by (simp add: threads.world_inv_def)
  obtain st' ok where c: "client_connect s st = (st', ok)" by fastforce
  show ?case
    using rest_run [OF w _ inv, of s "connect_prog s" "Accepted s" st' ok] guarded_connect free run_connect(2) c
    by (simp add: run_connect_prog)
next
  case (run_message n st s e m)
  then have n: "n \<le> 2 ^ 32" by (simp split: if_splits)
  with run_message have w: "interleaved (at_rest st)" and c: "connected s st" by (simp_all add: connected_def)
  then have inv: "shared_inv st" using kept.interleaved_inv [OF w] by (simp add: threads.world_inv_def)
  then have s: "0 \<le> s" using c by (simp add: shared_inv_def table_inv_def connected_def)
  have "ids_distinct (game_manager st)"
    using server_run_inv [OF run_message(1) n] by (simp add: server_inv_def manager_inv_def)
  from run_message_prog [OF this] rest_run [OF w _ inv, of s "message_prog e s m" "Received s e m"]
    guarded_message [OF s] c show ?case by simp
next
  case (run_disconnect n st s)
  then have w: "interleaved (at_rest st)" and c: "connected s st" by (simp_all add: connected_def)
  then have inv: "shared_inv st" using kept.interleaved_inv [OF w] by (simp add: threads.world_inv_def)
  have "ids_distinct (game_manager st)"
    using server_run_inv [OF run_disconnect(1)] run_disconnect.prems by (simp add: server_inv_def manager_inv_def)
  from run_disconnect_prog [OF this] rest_run [OF w _ inv, of s "disconnect_prog s" "Lost s" _ False]
    guarded_disconnect c show ?case by simp
qed

text \<open>C18. The runs of the server in which every handler is one step are among the interleavings: each
  state that \<open>server_run\<close> reaches is reached by the threads, with exactly the connected clients' threads
  waiting for their next messages.\<close>

theorem runs_are_interleavings:
  assumes "server_run n st" and "n \<le> 2 ^ 32"
  shows "interleaved (at_rest st)"
  by (rule runs_interleave [OF assms])

theorem runs_are_interleavings_witness: "interleaved (at_rest one_client)"
  using runs_are_interleavings [OF one_client_run] by simp

text \<open>C20. A refusal that nobody hears. The owner of an open game answers "no", perhaps to a request that was
  withdrawn. If another client's request arrives after the handler has looked who waits and
  before it decides, that request is refused and its sender is told nothing but the list of open
  games, while the owner is asked about a request that is gone. The same two handlers one after
  the other tell the client.\<close>

theorem refusal_unheard:
  assumes "interleaved w" and "threads_at w s = Some Listening" and "threads_at w u = Some Listening" and "s \<noteq> u"
    and "find_game (games (game_manager (shared w))) i = Some g" and "joinable g" and "player_x_socket g = s"
    and "\<not> client_is_playing (shared w) u"
  shows "\<exists>w' news g'. interleaved w' \<and> threads_at w' = threads_at w \<and> sent (shared w') = sent (shared w) @ news \<and>
    find_game (games (game_manager (shared w'))) i = Some g' \<and> joinable g' \<and>
    (\<exists>m. (s, m) \<in> set news \<and> msg_type m = MSG_JOIN_REQUEST) \<and>
    (\<forall>m. (u, m) \<in> set news \<longrightarrow> msg_type m = MSG_LOBBY_UPDATE) \<and>
    (u, error_reply ''Join request was rejected by game owner'') \<in>
      set (sent (handle_join_decision s False i (handle_join_request u i (shared w))))"
proof -
  have w: "threads.world_inv w" by (rule kept.interleaved_inv [OF assms(1)])
  have s: "0 \<le> s" "0 \<le> u"
    using threads.world_invD [OF w assms(2)] threads.world_invD [OF w assms(3)] by simp_all
  let ?st = "shared w"
  let ?gm = "game_manager ?st"
  let ?name = "find_username_by_socket ?st u (''Unknown'' @ zeros 25) 32"
  define g1 where "g1 = g\<lparr>waiting_player_socket := u,
      waiting_player_username := copy_string (waiting_player_username g) ?name 32\<rparr>"
  define req where "req = \<lparr>msg_type = MSG_JOIN_REQUEST, payload = Join_request (zero_JoinRequestPayload\<lparr>
      jr_game_id := i, jr_player_id := u32_of_int u,
      jr_player_name := (snprintf (jr_player_name zero_JoinRequestPayload) 32 (cstr ?name))[31 := NUL]\<rparr>)\<rparr>"
  have join: "game_manager_join_game ?gm i u ?name = Inr (set_game ?gm g1)"
    using assms(5,6) by (simp add: game_manager_join_game_def joinable_def g1_def)
  have f1: "find_game (games (set_game ?gm g1)) i = Some g1"
    by (rule find_set_game [OF assms(5)]) (simp add: g1_def)
  have asked: "handle_join_request u i ?st = send s req (?st\<lparr>game_manager := set_game ?gm g1\<rparr>)" (is "_ = ?st1")
    using assms(4,5,7,8) s(1) join f1
    by (simp add: handle_join_request_def game_manager_get_owner_socket_def Let_def req_def g1_def)
  define g2 where "g2 = g1\<lparr>waiting_player_socket := -1,
      waiting_player_username := (waiting_player_username g1)[0 := NUL]\<rparr>"
  have refuse: "game_manager_join_decision (game_manager ?st1) i False = Inr (set_game (game_manager ?st1) g2, None)"
    using f1 s(2) by (simp add: game_manager_join_decision_def g2_def) (simp add: g1_def)
  have told: "(u, error_reply ''Join request was rejected by game owner'') \<in>
      set (sent (handle_join_decision s False i (handle_join_request u i ?st)))"
    unfolding asked handle_join_decision_def refuse Let_def
    using f1 s(2) by (simp add: game_manager_get_waiting_socket_def broadcast_eq) (simp add: g1_def)
  let ?st2 = "broadcast_lobby_update (?st1\<lparr>game_manager := set_game (game_manager ?st1) g2\<rparr>)"
  have refused: "run (decide_prog s False i (-1)) ?st1 = (?st2, True)"
    unfolding decide_prog_def run_calls refuse by simp
  have nobody: "(case game_manager_get_waiting_socket ?gm i of Inl err \<Rightarrow> -1 | Inr w \<Rightarrow> w) = -1"
    using assms(5,6) by (simp add: game_manager_get_waiting_socket_def joinable_def)
  define no where "no = \<lparr>msg_type = MSG_JOIN_DECISION, payload = Join_decision \<lparr>jd_game_id = i, jd_accepted = 0\<rparr>\<rparr>"
  define ask where "ask = \<lparr>msg_type = MSG_JOIN_GAME, payload = Join_request (zero_JoinRequestPayload\<lparr>jr_game_id := i\<rparr>)\<rparr>"
  have progs: "message_prog calm s no = decision_prog s False i" "message_prog calm u ask = join_prog u i"
    by (simp_all add: message_prog_def no_def ask_def payload_join_decision_def payload_join_request_def)
  have "interleaved (put s (Some (Running (decision_prog s False i))) w)" (is "interleaved ?w1")
    by (rule world_next [OF assms(1), of "Received s calm no"]) (simp add: assms(2) progs)
  then have "interleaved (put s (Some (Running (decide_prog s False i (-1)))) w)" (is "interleaved ?w2")
    by (rule world_next [of _ "Proceeds s"]) (simp add: decision_prog_def reads_def nobody)
  then have "interleaved (put u (Some (Running (join_prog u i))) ?w2)" (is "interleaved ?w3")
    by (rule world_next [of _ "Received u calm ask"]) (use assms(3,4) in \<open>simp add: progs\<close>)
  from interleaved_run [OF this, of u "join_prog u i" ?st1 True]
  have "interleaved (put u (Some Listening) (?w3\<lparr>shared := ?st1\<rparr>))" (is "interleaved ?w4")
    by (simp add: run_join_prog asked)
  from interleaved_run [OF this, of s "decide_prog s False i (-1)" ?st2 True]
  have reached: "interleaved (put s (Some Listening) (?w4\<lparr>shared := ?st2\<rparr>))" (is "interleaved ?w5")
    using refused assms(4) by (simp add: put_def)
  define w5 where "w5 = ?w5"
  have w5: "interleaved w5" "threads_at w5 = threads_at w" "shared w5 = ?st2"
    using reached assms(2,3) by (auto simp: w5_def put_def fun_eq_iff)
  define news where "news = (s, req) # map (\<lambda>c. (cl_socket c, lobby_message
      (?st1\<lparr>game_manager := set_game (game_manager ?st1) g2\<rparr>))) (filter (\<lambda>c. is_active c \<and> \<not> is_playing c) (clients ?st))"
  have "sent (shared w5) = sent ?st @ news" by (simp add: w5(3) broadcast_eq news_def)
  moreover have "find_game (games (game_manager (shared w5))) i = Some g2"
    using find_set_game [OF f1, of g2] by (simp add: w5(3) g2_def)
  moreover have "joinable g2" using assms(6) by (simp add: joinable_def g2_def g1_def)
  moreover have "\<exists>m. (s, m) \<in> set news \<and> msg_type m = MSG_JOIN_REQUEST"
    by (rule exI [of _ req]) (simp add: news_def, simp add: req_def)
  moreover have "\<forall>m. (u, m) \<in> set news \<longrightarrow> msg_type m = MSG_LOBBY_UPDATE"
    using assms(4) by (auto simp: lobby_message_eq news_def)
  ultimately show ?thesis using told w5(1,2) by blast
qed

text \<open>A server to which clients 5 and 6 have connected.\<close>

definition free_slot :: Client where
  "free_slot = zero_Client\<lparr>is_active := False\<rparr>"

lemma free_slot_inactive [simp]: "is_active free_slot = False" "active_on s free_slot = False"
  by (simp_all add: free_slot_def active_on_def)

lemma replicate_free_slot [simp]:
  "active_sockets (replicate n free_slot) = []"
  "\<not> P free_slot \<Longrightarrow> first_slot P (replicate n free_slot) = None"
  "\<not> P free_slot \<Longrightarrow> update_slot P f (replicate n free_slot) = replicate n free_slot"
  "\<not> P free_slot \<Longrightarrow> filter P (replicate n free_slot) = []"
  by (induction n) (auto simp: first_slot_def)

lemma first_slot_simps [simp]:
  "first_slot P [] = None" "first_slot P (c # cs) = (if P c then Some c else first_slot P cs)"
  by (simp_all add: first_slot_def)

lemma fresh_server_eq: "fresh_server = \<lparr>clients = free_slot # free_slot # replicate 98 free_slot, active_clients_count = 0,
   game_manager = \<lparr>games = [], next_game_id = 0\<rparr>, sent = []\<rparr>"
proof -
  have "MAX_CLIENTS = Suc (Suc 98)" by (simp add: MAX_CLIENTS_def)
  then have "replicate MAX_CLIENTS free_slot = free_slot # free_slot # replicate 98 free_slot"
    by (metis replicate_Suc)
  then show ?thesis
    by (simp add: fresh_server_def initialize_server_def game_manager_create_def Let_def free_slot_def)
qed

definition two_clients :: Server where
  "two_clients = fst (client_connect 6 one_client)"

lemma two_clients_eq: "two_clients = \<lparr>clients = client_connected 5 free_slot # client_connected 6 free_slot # replicate 98 free_slot,
   active_clients_count = 2, game_manager = \<lparr>games = [], next_game_id = 0\<rparr>, sent = []\<rparr>"
  by (simp add: two_clients_def one_client_def client_connect_def add_client_def fresh_server_eq
      MAX_CLIENTS_def) (simp add: client_connected_def)

lemma connected_slot [simp]:
  "is_active (client_connected s c)" "cl_socket (client_connected s c) = s" "\<not> is_playing (client_connected s c)"
  "current_game_id (client_connected s c) = -1" "active_on t (client_connected s c) \<longleftrightarrow> t = s"
  by (auto simp: client_connected_def active_on_def)

lemma two_clients_simps:
  "clients two_clients = client_connected 5 free_slot # client_connected 6 free_slot # replicate 98 free_slot"
  "games (game_manager two_clients) = []"
  by (simp_all add: two_clients_eq)

lemma two_clients_run: "server_run 0 two_clients"
  unfolding two_clients_def
  by (rule run_connect [OF one_client_run])
    (simp_all add: one_client_def client_connect_def add_client_def fresh_server_eq MAX_CLIENTS_def)

text \<open>Client 5 has created game 0.\<close>

definition open_game :: Server where
  "open_game = handle_create_game calm 5 two_clients"

lemma open_game_state:
  "\<not> client_is_playing open_game 6 \<and> active_sockets (clients open_game) = [5, 6] \<and>
   map_option (\<lambda>g. joinable g \<and> player_x_socket g = 5) (find_game (games (game_manager open_game)) 0) = Some True"
proof -
  let ?name = "find_username_by_socket two_clients 5 (''Unknown'' @ zeros 25) 32"
  obtain gm i where c: "game_manager_create_game (game_manager two_clients) (malloc_ok calm) 5 ?name = Inr (gm, i)"
    by (simp add: game_manager_create_game_def generate_game_id_def Let_def calm_def)
  have p: "\<not> client_is_playing two_clients 5"
    by (simp add: client_is_playing_def two_clients_simps)
  have gm: "games gm = [new_game 0 5 ?name]" "i = 0"
    using create_game_cases [OF c] by (simp_all add: append_game_def two_clients_eq)
  show ?thesis
    unfolding open_game_def handle_create_game_def Let_def c if_not_P [OF p] sum.case prod.case
    by (simp add: gm client_is_playing_def two_clients_simps client_set_playing_def active_on_def)
      (simp add: new_game_def joinable_def clear_round_def)
qed

lemma open_game_run: "\<exists>n \<le> 1. server_run n open_game"
proof -
  have "5 \<in> set (active_sockets (clients two_clients))" by (simp add: two_clients_simps)
  from run_message [OF two_clients_run this, of calm "\<lparr>msg_type = MSG_CREATE_GAME, payload = Zeroed\<rparr>"] show ?thesis
    by (auto simp: open_game_def handle_message_def split: if_splits)
qed

theorem refusal_unheard_witness:
  "\<exists>w' news. interleaved w' \<and> sent (shared w') = sent open_game @ news \<and>
     (\<exists>m. (5, m) \<in> set news \<and> msg_type m = MSG_JOIN_REQUEST) \<and>
     (\<forall>m. (6, m) \<in> set news \<longrightarrow> msg_type m = MSG_LOBBY_UPDATE)"
proof -
  obtain n where n: "n \<le> 1" "server_run n open_game" using open_game_run by blast
  then have "n \<le> 2 ^ 32" by simp
  have w: "interleaved (at_rest open_game)" by (rule runs_interleave [OF n(2) \<open>n \<le> 2 ^ 32\<close>])
  have t: "threads_at (at_rest open_game) 5 = Some Listening" "threads_at (at_rest open_game) 6 = Some Listening"
    using open_game_state by (simp_all add: connected_def)
  obtain g where g: "find_game (games (game_manager (shared (at_rest open_game)))) 0 = Some g"
      "joinable g" "player_x_socket g = 5"
    using open_game_state by auto
  have p: "\<not> client_is_playing (shared (at_rest open_game)) 6" using open_game_state by simp
  have "(5 :: socket) \<noteq> 6" by simp
  from refusal_unheard [OF w t this g p] show ?thesis by auto
qed

end
