(* ===== verification/Shared_Socket.thy ===== *)
theory Shared_Socket
  imports Threads_Props UI_Props
begin

text \<open>
  Two threads of the server that send to one client at the same time. \<open>send_message\<close> writes the header and the
  payload in two loops of \<open>send\<close> and takes no lock, so that the kernel may receive the calls of the two
  threads in any order that keeps each thread's own (\<open>shuffles\<close>).

  It happens: a thread answers \<open>MSG_LIST_GAMES\<close> while another broadcasts the list of open games.
\<close>

section \<open>What is written\<close>

text \<open>What the two loops of \<open>send_message\<close> hand to the kernel, when each call of \<open>send\<close> takes all it is given.\<close>

definition send_calls :: "Message \<Rightarrow> bytes list" where
  "send_calls m =
     (case encode_payload m 1024 of
        Inl e \<Rightarrow> []
      | Inr pl \<Rightarrow> header_bytes (msg_type m) (length pl) # (if pl = [] then [] else [pl]))"

lemma send_all_whole: "bs \<noteq> [] \<Longrightarrow> send_all bs (int (length bs) # rets) = Some (bs, rets, True)"
  by (cases bs) (simp_all add: nat_add_distrib)

lemma send_calls_sent: "encode_payload m 1024 = Inr pl \<Longrightarrow>
  send_message m (map (\<lambda>bs. int (length bs)) (send_calls m)) = Some (concat (send_calls m), [], Inr ())"
  using send_all_whole [of "header_bytes (msg_type m) (length pl)"] send_all_whole [of pl]
  by (cases pl) (simp_all add: send_calls_def send_message_def header_bytes_def be32_def)

lemma lobby_encoding:
  assumes "good_message m" "msg_type m = MSG_LOBBY_UPDATE"
  obtains pl where "send_calls m = [header_bytes MSG_LOBBY_UPDATE 411, pl]" "length pl = 411"
    "wire m = header_bytes MSG_LOBBY_UPDATE 411 @ pl" "delivered m = m"
proof -
  obtain p where p: "payload m = Lobby_update p" "wf_LobbyUpdatePayload p"
    using assms by (cases "payload m") (auto simp: good_message_def wf_message_def)
  obtain pl where pl: "encode_payload m 1024 = Inr pl"
    using encode_decode [of m] assms(1) by (auto simp: good_message_def)
  then have "length pl = 411"
    using serialize_lobby_update_wf [OF p(2)] assms(2) p(1)
    by (simp add: encode_payload_def payload_lobby_update_def)
  with pl assms(2) show ?thesis
    by (intro that [of pl]) (auto simp: send_calls_def wire_def delivered_def carries_payload_def)
qed

text \<open>Whatever follows the header of a list of games is taken for one.\<close>

lemma receive_any_lobby:
  assumes "segments es" "stream es = header_bytes MSG_LOBBY_UPDATE 411 @ x" "411 \<le> length x"
  shows "\<exists>es' u. receive_message es = Returns (Inr \<lparr>msg_type = MSG_LOBBY_UPDATE, payload = Lobby_update u\<rparr>) es' \<and>
    wf_LobbyUpdatePayload u \<and> lu_game_count u = hd x"
proof -
  let ?h = "header_bytes MSG_LOBBY_UPDATE 411"
  from recv_all_segments [OF assms(1), of 16] assms(2) obtain es1 where
    es1: "recv_all 16 es = Some (Inr ?h, es1)" "segments es1" "stream es1 = x" by auto
  from recv_all_segments [OF es1(2), of 411] assms(3) es1(3) obtain es2 where
    es2: "recv_all 411 es1 = Some (Inr (take 411 x), es2)" by auto
  obtain u where u: "deserialize_lobby_update (take 411 x) = Some (Inr u)" "wf_LobbyUpdatePayload u"
    using deserialize_lobby_update_total [of "take 411 x"] assms(3) by auto
  have "take 411 x \<noteq> []" "hd (take 411 x) = hd x" using assms(3) by (auto simp: hd_take)
  then have "lu_game_count u = hd x"
    using u(1) by (cases "take 411 x") (auto simp: deserialize_lobby_update_def split: if_splits Option.bind_splits)
  moreover have "MessageType_of_code (MessageType_code MSG_LOBBY_UPDATE) = MSG_LOBBY_UPDATE" by code_simp
  ultimately show ?thesis
    using es1(1) es2 u by (simp add: receive_message_def receive_payload_def decode_payload_def into_def)
qed

section \<open>The property\<close>

text \<open>C19. Two threads that send the list of open games to one client at the same time. As long as the calls
  of one come before those of the other, the client receives both messages, in that order. But when both headers
  are written before the payloads, the first message the client receives announces 84 games (the
  first byte of the second header), and the user interface leaves its arrays when it handles it.\<close>

theorem lists_at_once:
  assumes "interleaved w" and "about_to_send w a = [(s, m)]" and "about_to_send w b = [(s, m')]"
    and "msg_type m = MSG_LOBBY_UPDATE" and "msg_type m' = MSG_LOBBY_UPDATE"
    and "cs \<in> shuffles (send_calls m) (send_calls m')" and "segments es" and "stream es = concat cs"
    and "ui_inv v"
  shows "if cs ! 1 = header_bytes MSG_LOBBY_UPDATE 411
    then \<exists>es' l. receive_message es = Returns (Inr l) es' \<and>
      lu_game_count (payload_lobby_update (payload l)) = 84 \<and>
      (\<exists>ev. message_to_event True l = Some ev \<and> handle_event e ev v = None)
    else \<exists>ms es'. receive_many 2 es = Some (ms, es') \<and> (ms = [m, m'] \<or> ms = [m', m])"
proof -
  let ?h = "header_bytes MSG_LOBBY_UPDATE 411"
  have good: "good_message m" "good_message m'"
    using about_to_send_good [OF assms(1), of s m a] about_to_send_good [OF assms(1), of s m' b] assms(2,3) by simp_all
  then have wf: "wf_message m" "wf_message m'" by (simp_all add: good_message_def)
  obtain pl where pl: "send_calls m = [?h, pl]" "length pl = 411" "wire m = ?h @ pl" "delivered m = m"
    using lobby_encoding [OF good(1) assms(4)] by blast
  obtain pl' where pl': "send_calls m' = [?h, pl']" "length pl' = 411" "wire m' = ?h @ pl'" "delivered m' = m'"
    using lobby_encoding [OF good(2) assms(5)] by blast
  have h: "pl \<noteq> ?h" "pl' \<noteq> ?h" using pl(2) pl'(2) by auto
  have two: "\<exists>es'. receive_many 2 es = Some ([x, y], es')"
    if "stream es = wire x @ wire y" "wf_message x" "wf_message y" "delivered x = x" "delivered y = y" for x y
  proof -
    from receive_sent [OF that(2) assms(7) that(1)] that(4) obtain es1 where
      1: "receive_message es = Returns (Inr x) es1" "segments es1" "stream es1 = wire y @ []" by auto
    from receive_sent [OF that(3) 1(2,3)] that(5) obtain es2 where
      2: "receive_message es1 = Returns (Inr y) es2" by auto
    have "receive_many (Suc (Suc 0)) es = Some ([x, y], es2)" using 1 2 by simp
    then show ?thesis by (simp only: numeral_2_eq_2) blast
  qed
  have broken: "\<exists>es' l. receive_message es = Returns (Inr l) es' \<and>
      lu_game_count (payload_lobby_update (payload l)) = 84 \<and>
      (\<exists>ev. message_to_event True l = Some ev \<and> handle_event e ev v = None)"
    if str: "stream es = ?h @ (?h @ x)" and x: "411 \<le> length x" for x
  proof -
    have "hd (?h @ x) = 84" by (simp add: header_bytes_def be32_def PROTOCOL_MAGIC_def)
    moreover have "411 \<le> length (?h @ x)" using x by simp
    ultimately obtain es' u where r:
      "receive_message es = Returns (Inr \<lparr>msg_type = MSG_LOBBY_UPDATE, payload = Lobby_update u\<rparr>) es'"
      "wf_LobbyUpdatePayload u" "lu_game_count u = 84"
      using receive_any_lobby [OF assms(7) str] by auto
    have "event_wf (UI_EVENT_LOBBY_UPDATE u)" "\<not> event_safe (UI_EVENT_LOBBY_UPDATE u)"
      using r(2,3) by (simp_all add: event_wf_def event_safe_def wf_LobbyUpdatePayload_def)
    then have "handle_event e (UI_EVENT_LOBBY_UPDATE u) v = None"
      using handle_event_defined [of v "UI_EVENT_LOBBY_UPDATE u" e] assms(9) by (auto simp: ui_inv_def)
    with r show ?thesis by (simp add: message_to_event_def payload_lobby_update_def)
  qed
  from assms(6) consider
      "cs = [?h, pl, ?h, pl']" | "cs = [?h, pl', ?h, pl]"
    | "cs = [?h, ?h, pl, pl']" | "cs = [?h, ?h, pl', pl]"
    by (auto simp: pl(1) pl'(1))
  then show ?thesis
  proof cases
    case 1
    with two [of m m'] assms(8) pl pl' wf h show ?thesis by auto
  next
    case 2
    with two [of m' m] assms(8) pl pl' wf h show ?thesis by auto
  next
    case 3
    with broken [of "pl @ pl'"] assms(8) pl(2) show ?thesis by simp
  next
    case 4
    with broken [of "pl' @ pl"] assms(8) pl(2) show ?thesis by simp
  qed
qed

text \<open>Client 5 has asked for the list, and client 6 has left its game.\<close>

definition two_senders_events :: "event list" where
  "two_senders_events =
     [Received 5 calm \<lparr>msg_type = MSG_LIST_GAMES, payload = Zeroed\<rparr>, Proceeds 5,
      Received 6 calm \<lparr>msg_type = MSG_LEAVE_GAME, payload = Zeroed\<rparr>] @ replicate 6 (Proceeds 6)"

definition two_senders :: World where
  "two_senders = the (world_run two_senders_events (at_rest two_clients))"

lemma two_senders_state:
  "map_option (\<lambda>w. map (map (\<lambda>(s, m). (s, msg_type m))) [about_to_send w 5, about_to_send w 6])
     (world_run two_senders_events (at_rest two_clients)) =
   Some [[(5, MSG_LOBBY_UPDATE)], [(5, MSG_LOBBY_UPDATE)]]"
  by (simp add: two_senders_events_def eval_nat_numeral connected_def two_clients_simps message_prog_def list_prog_def leave_prog_def
      reads_def writes_def sends_def tries_def calls_def cleanup_prog_def broadcast_prog_def put_def at_rest_def
      about_to_send_def leave_game_unfold client_set_playing_def lobby_message_eq)

theorem lists_at_once_witness:
  "\<exists>m m' es l es'. about_to_send two_senders 5 = [(5, m)] \<and> about_to_send two_senders 6 = [(5, m')] \<and>
     stream es = concat [hd (send_calls m), hd (send_calls m'), send_calls m ! 1, send_calls m' ! 1] \<and>
     receive_message es = Returns (Inr l) es' \<and> lu_game_count (payload_lobby_update (payload l)) = 84"
proof -
  have w: "world_run two_senders_events (at_rest two_clients) = Some two_senders"
    and s: "map (\<lambda>(s, m). (s, msg_type m)) (about_to_send two_senders 5) = [(5, MSG_LOBBY_UPDATE)]"
      "map (\<lambda>(s, m). (s, msg_type m)) (about_to_send two_senders 6) = [(5, MSG_LOBBY_UPDATE)]"
    using two_senders_state by (auto simp: two_senders_def)
  have i: "interleaved two_senders"
    by (rule interleaved_events [OF w runs_interleave [OF two_clients_run]]) simp
  from s obtain m m' where m: "about_to_send two_senders 5 = [(5, m)]" "msg_type m = MSG_LOBBY_UPDATE"
    and m': "about_to_send two_senders 6 = [(5, m')]" "msg_type m' = MSG_LOBBY_UPDATE" by auto
  let ?h = "header_bytes MSG_LOBBY_UPDATE 411"
  have good: "good_message m" "good_message m'"
    using about_to_send_good [OF i, of 5 m 5] about_to_send_good [OF i, of 5 m' 6] m m' by simp_all
  obtain pl where pl: "send_calls m = [?h, pl]" "length pl = 411" using lobby_encoding [OF good(1) m(2)] by blast
  obtain pl' where pl': "send_calls m' = [?h, pl']" "length pl' = 411" using lobby_encoding [OF good(2) m'(2)] by blast
  let ?cs = "[?h, ?h, pl, pl']"
  have c: "?cs \<in> shuffles (send_calls m) (send_calls m')" by (simp add: pl(1) pl'(1))
  have e: "segments [Data (concat ?cs)]" "stream [Data (concat ?cs)] = concat ?cs"
    using pl(2) by (auto simp: segments_def)
  from lists_at_once [OF i m(1) m'(1) m(2) m'(2) c e first_state_inv, of calm_env] obtain es' l where
    "receive_message [Data (concat ?cs)] = Returns (Inr l) es'"
    "lu_game_count (payload_lobby_update (payload l)) = 84" by auto
  with m(1) m'(1) e(2) pl(1) pl'(1) show ?thesis
    by (intro exI [of _ m] exI [of _ m'] exI [of _ "[Data (concat ?cs)]"] exI [of _ l] exI [of _ es']) simp
qed

end
