(* ===== verification/Client_Log.thy ===== *)
theory Client_Log
  imports Tris_Prelude
begin

text \<open>
  The log of the client, \<open>client/src/utils/log.c\<close>. Nothing in the client calls it.

  Arguments of a call: whether \<open>fopen\<close> succeeds, the text of the date that \<open>localtime\<close> and
  \<open>strftime\<close> yield (\<open>None\<close>: \<open>localtime\<close> returned NULL), and the text that the format and
  its arguments stand for. \<open>None\<close> is undefined behaviour: the NULL pointer is used, or the date does not fit
  into \<open>time_buf\<close>, whose content is then undetermined.
\<close>

record Log =
  log_file :: bool
  log_text :: string

definition log_init :: "bool \<Rightarrow> Log \<Rightarrow> Log" where
  "log_init fopen_ok l = (if \<not> log_file l then l\<lparr>log_file := fopen_ok\<rparr> else l)"

definition log_printf :: "bool \<Rightarrow> string option \<Rightarrow> string \<Rightarrow> Log \<Rightarrow> Log option" where
  "log_printf fopen_ok date text l =
     (let l = log_init fopen_ok l
      in if \<not> log_file l then Some l
         else do {
           time_buf \<leftarrow> date;
           if \<not> length time_buf < 20 then None
           else
             let l = l\<lparr>log_text := log_text l @ ''['' @ time_buf @ ''] ''\<rparr>;
                 l = l\<lparr>log_text := log_text l @ text\<rparr>
             in Some (l\<lparr>log_text := log_text l @ [CHR 0x0A]\<rparr>) })"

fun log_calls :: "(bool \<times> string \<times> string) list \<Rightarrow> Log \<Rightarrow> Log option" where
  "log_calls [] l = Some l"
| "log_calls ((ok, date, text) # calls) l = do { l \<leftarrow> log_printf ok (Some date) text l; log_calls calls l }"

definition log_line :: "string \<times> string \<Rightarrow> string" where
  "log_line = (\<lambda>(date, text). ''['' @ date @ ''] '' @ text @ [CHR 0x0A])"

text \<open>
  The calls before \<open>fopen\<close> first succeeds are lost; every later one adds its line at the end, and
  what was in the file stays.
\<close>

lemma log_calls_append:
  "\<forall>(ok, date, text) \<in> set calls. length date < 20 \<Longrightarrow>
   \<exists>l'. log_calls calls l = Some l' \<and>
     log_text l' = log_text l @
       concat (map (\<lambda>c. log_line (snd c)) (if log_file l then calls else dropWhile (\<lambda>c. \<not> fst c) calls))"
proof (induction calls arbitrary: l)
  case (Cons c calls)
  obtain ok date body where c: "c = (ok, date, body)" by (cases c)
  define l1 where "l1 = (if log_file l \<or> ok
      then l\<lparr>log_file := True, log_text := log_text l @ log_line (date, body)\<rparr> else l)"
  have "log_printf ok (Some date) body l = Some l1"
    using Cons.prems by (simp add: c log_printf_def log_init_def log_line_def l1_def)
  moreover obtain l' where "log_calls calls l1 = Some l'" "log_text l' = log_text l1 @
      concat (map (\<lambda>c. log_line (snd c)) (if log_file l1 then calls else dropWhile (\<lambda>c. \<not> fst c) calls))"
    using Cons.IH [of l1] Cons.prems by fastforce
  ultimately show ?case by (auto simp: c l1_def)
qed simp

end
