(* ===== verification/Spec2Isabelle.thy ===== *)
theory Spec2Isabelle
  imports Handler_Props Network_Props UI_Draw Client_Main Game_Locks Server_Main Shared_Socket Client_Log
begin

text \<open>
  A verification development for tris, a multi-player tic-tac-toe over TCP in C: a server, a client
  with a terminal interface, and the protocol they share.

  \<^bold>\<open>The program and the theories.\<close>

  A client connects to the server and sends messages of the binary protocol of
  \<open>common/src/protocol.c\<close>; a server thread per connection receives them and calls the handlers of
  \<open>server/src/client_handler.c\<close>, which act on the table of clients (\<open>server/src/server.c\<close>) and on the game
  manager (\<open>server/src/game.c\<close>) and send messages back. In the client a network thread
  (\<open>client/src/network/network.c\<close>) turns these into events for the user interface
  (\<open>client/src/ui/ui.c\<close>), which pushes its commands the other way; two blocking queues
  (\<open>client/src/utils/queue.c\<close>) connect the threads.

  \<^item> \<open>Tris_Prelude\<close>: integer casts, character arrays (\<open>strncpy\<close>, \<open>snprintf\<close>, the text before the NUL),
    lists.
  \<^item> \<open>Protocol_Types\<close>: \<open>protocol.h\<close>; enumerations with a constructor for codes without a name, payload
    structures, the tagged union. The locale \<open>byte_enum\<close> is the contract of the one-byte casts.
  \<^item> \<open>Protocol_Codec\<close>: the twelve \<open>serialize_\<close> and \<open>deserialize_\<close> pairs over byte lists. The locale
    \<open>codec\<close> (round trip, size, no read out of bounds) is interpreted for every pair.
  \<^item> \<open>Protocol_Wire\<close>: \<open>send_message\<close> and \<open>receive_message\<close>, for any way the kernel cuts the bytes.
  \<^item> \<open>Board\<close>: \<open>game_check_winner\<close> against the rules of the game, legal plays, and their bound.
  \<^item> \<open>Game\<close>, \<open>Game_Inv\<close>, \<open>Game_Runs\<close>, \<open>Game_Props\<close>: every operation of the manager on the list of games,
    the invariant that each game is the result of a legal play, runs of operations, their properties.
  \<^item> \<open>Game_Heap\<close>: the linked list of games in memory, with \<open>malloc\<close> and \<open>free\<close>, down to
    \<open>game_manager_destroy\<close>; \<open>refines\<close> relates it to the list of \<open>Game\<close>.
  \<^item> \<open>Game_Locks\<close>: threads that run these operations under \<open>gm->lock\<close> and the lock of each game, one
    access or lock at a time (\<open>sys_step\<close>).
  \<^item> \<open>Server\<close>: the table of clients and its counter.
  \<^item> \<open>Handler\<close>, \<open>Handler_Inv\<close>, \<open>Handler_Props\<close>: the handlers, the start and the end of a connection, the
    invariant of the server over all runs (\<open>server_run\<close>), what each message causes.
  \<^item> \<open>Server_Threads\<close>, \<open>Threads_Inv\<close>, \<open>Threads_Props\<close>: the same handlers as programs of their accesses to shared
    state, and any number of threads that take turns between any two accesses (\<open>world_step\<close>); the locale
    \<open>contract_kept\<close> is what each access must keep for the others.
  \<^item> \<open>Shared_Socket\<close>: the two \<open>send\<close> loops of two threads that write to one socket at the same time.
  \<^item> \<open>Server_Main\<close>: \<open>handle_client\<close> on the bytes of its connection, \<open>create_server_socket\<close>, and
    \<open>server/src/main.c\<close> from the set-up to the clean-up.
  \<^item> \<open>Client_Config\<close>: \<open>read_config\<close> and \<open>save_config\<close> (\<open>client/src/utils/utils.c\<close>) with \<open>fscanf\<close>.
  \<^item> \<open>Queue\<close>: the ring buffer; the locale \<open>bounded_fifo\<close> is its contract. \<open>qstep\<close> is the protocol of any
    number of threads that sleep on the two condition variables.
  \<^item> \<open>Network\<close>, \<open>Network_Props\<close>: the network thread as a state machine, interleaved with the pushes of the
    user interface and with \<open>network_stop\<close>.
  \<^item> \<open>UI\<close>, \<open>UI_Props\<close>: the state of the user interface, its keyboard and event handlers and its main loop.
  \<^item> \<open>UI_Draw\<close>: the drawing functions, as lists of calls to \<open>ncurses\<close>.
  \<^item> \<open>Client_Main\<close>: \<open>client/src/main.c\<close>.
  \<^item> \<open>Client_Log\<close>: the log (\<open>client/src/utils/log.c\<close>), which nothing in the client calls.
  \<^item> This theory: the way from the server's state to the client's screen.

  \<^bold>\<open>How the code is modelled.\<close>

  Structures are records with the source's fields, enumerations and the union datatypes. A function
  that acts on shared state takes the state and returns it. A return value of -1 is \<open>Inl\<close>; undefined
  behaviour, such as an access outside an array, is \<open>None\<close>, so that its absence is a theorem. What
  the code asks of its environment is an argument: the results of \<open>malloc\<close>, of \<open>send\<close> and \<open>recv\<close>, of
  \<open>poll\<close>, the clock, the terminal, the bytes that uninitialised memory holds. The messages the
  server hands to \<open>send_message\<close> are recorded in order in its state (\<open>sent\<close>), the commands and events
  of the client likewise (\<open>ui_pushed\<close>, \<open>to_ui\<close>).

  Bounds: integers of the protocol are words of their width, and game identifiers wrap at 32 bits, so
  that statements about distinct identifiers assume fewer than \<open>2 ^ 32\<close> creations. There is no fuel;
  loops are structural or have a measure, and where the kernel may keep a loop waiting the model
  stops with \<open>None\<close> or \<open>Blocks\<close>; \<open>send_completes\<close> says how many answers of the kernel are enough.

  \<^bold>\<open>What is shown.\<close>

  \<^item> Protocol: what is sent is received, over any segmentation, message by message; whatever arrives is
    read within bounds; what is accepted is well-formed; errors are reported.
  \<^item> Games: the winner check is the rules; games are legal plays in every reachable state; the exact
    effect of each operation; seats, identifiers and ownership.
  \<^item> Memory and locks: the linked list implements the list of games, follows no dangling pointer and
    leaks nothing; under the locks each interleaving of threads is a run of atomic operations, without
    deadlock, which is why \<open>Game\<close> may treat them as steps.
  \<^item> Server: the table invariant; who is told what, for each handler; nothing that is sent can fail to be
    encoded or harm the client. A connection is served to its end; after a signal the process ends, unless the
    signal is lost before \<open>accept\<close>.
  \<^item> Threads of the server: run alone, each program is its handler, so that the runs of whole handlers are
    interleavings; under any interleaving the table, the games and all that is sent stay well-formed;
    what can go wrong between two accesses, on the table of games and on the wire.
  \<^item> Client: queue order and no lost wake-up; commands and events complete and in order, also when one
    network thread follows another on the same queue; exactly which events and keys make the user
    interface leave its arrays, and that whole runs do not otherwise; only legal moves are sent; what
    is drawn is what is hit.
  \<^item> Together: the events of the client are the messages of the server, and bring its screen to the state
    the server is in.

  Several theorems state what the code does where it does not do what it means to: the
  post-game answer in the middle of a game, stale answers, the waiting seat that survives a
  disconnection, the game without clients, the unread configuration, the overflows of the user
  interface, the command pushed to a thread that has ended, the lost signal, the unlocked read of the clean-up, the
  refusal that nobody hears, the two lists of games written into each other.

  \<^bold>\<open>What is not modelled.\<close>

  \<^item> What each handler tells whom is shown for handlers that are one step (\<open>server_run\<close>). For interleaved threads
    (\<open>interleaved\<close>) an access is one section under \<open>clients_mutex\<close>, one operation of the manager, which
    \<open>Game_Locks\<close> justifies, or one message; the two levels of locking are not one model. The creation of a
    game is two accesses there, and one step in \<open>Game\<close>.
  \<^item> Messages are recorded whole in \<open>sent\<close>. That two threads may write to one socket at once is modelled in
    \<open>Shared_Socket\<close> for two messages, not for whole runs.
  \<^item> In \<open>world_step\<close> an access is always possible: a thread that waits for a mutex, or in \<open>send\<close> because its
    client does not read, is a thread that gets no turn. That the locks of the manager are always
    released is in \<open>Game_Locks\<close>; that a client which stops reading can hold up the threads that send to it
    for as long as it likes is not represented.
  \<^item> The set-up of the terminal, and what \<open>shutdown\<close> and \<open>close\<close> do to a socket another
    thread uses, are left to the operating system: their effect is in the answers the models take.
\<close>

section \<open>From the server to the client\<close>

text \<open>C1. Every message the server hands to \<open>send_message\<close>, under any interleaving of its threads, can be
  sent and arrives: it is well-formed and encoded within the 1024 bytes, \<open>send_message\<close> writes all of
  it and succeeds whenever each \<open>send\<close> of the kernel takes at least one byte, and the client's \<open>receive_message\<close>
  returns exactly this message, however the stream is cut into segments, and leaves the bytes after it.\<close>

theorem server_messages_arrive:
  assumes "interleaved st" and "(s, m) \<in> set (sent (shared st))"
  shows "wf_message m \<and>
    (\<exists>pl. encode_payload m 1024 = Inr pl \<and> length pl \<le> 1024 \<and> wire m = header_bytes (msg_type m) (length pl) @ pl) \<and>
    (\<forall>rets. (\<forall>n \<in> set rets. 0 < n) \<and> length (wire m) \<le> length rets \<longrightarrow>
       (\<exists>rets'. send_message m rets = Some (wire m, rets', Inr ()))) \<and>
    (\<forall>es rest. segments es \<and> stream es = wire m @ rest \<longrightarrow>
       (\<exists>es'. receive_message es = Returns (Inr (delivered m)) es' \<and> segments es' \<and> stream es' = rest))"
proof -
  have wf: "wf_message m"
    using kept.interleaved_inv [OF assms(1)] assms(2)
    by (auto simp: threads.world_inv_def shared_inv_def good_message_def)
  then obtain pl where "encode_payload m 1024 = Inr pl" "length pl \<le> 1024" using encode_decode by blast
  with wf show ?thesis
    using send_message_completes [OF wf] receive_sent [OF wf] by (auto simp: wire_def)
qed

text \<open>A client connects and asks for the list of games.\<close>

definition list_request :: Message where
  "list_request = \<lparr>msg_type = MSG_LIST_GAMES, payload = Zeroed\<rparr>"

theorem server_messages_arrive_witness:
  "(\<exists>rets'. send_message (lobby_message one_client) (replicate (length (wire (lobby_message one_client))) 1) =
       Some (wire (lobby_message one_client), rets', Inr ())) \<and>
   (\<exists>es'. receive_message [Data (wire (lobby_message one_client))] = Returns (Inr (lobby_message one_client)) es')"
proof -
  let ?st = "handle_message calm 5 list_request one_client"
  let ?m = "lobby_message one_client"
  have "server_run (if creates calm 5 list_request one_client then Suc 0 else 0) ?st"
    by (rule run_message [OF one_client_run]) (use one_client_state(1) in \<open>simp add: connected_def\<close>)
  then have r: "server_run 0 ?st" by (simp add: creates_def list_request_def)
  have m: "(5, ?m) \<in> set (sent ?st)"
    by (simp add: handle_message_def list_request_def handle_list_game_def)
  have wf: "wf_message ?m" using wf_lobby_message [of one_client] by (simp add: good_message_def)
  have w: "interleaved (at_rest ?st)" by (rule runs_interleave [OF r]) simp
  have "(5, ?m) \<in> set (sent (shared (at_rest ?st)))" using m by simp
  note arrives = conjunct2 [OF conjunct2 [OF server_messages_arrive [OF w this]]]
  have "segments [Data (wire ?m)]" "stream [Data (wire ?m)] = wire ?m @ []"
    using wire_nonempty [OF wf] by (simp_all add: segments_def)
  with conjunct2 [OF arrives] have "\<exists>es'. receive_message [Data (wire ?m)] = Returns (Inr (delivered ?m)) es'" by blast
  moreover have "\<exists>rets'. send_message ?m (replicate (length (wire ?m)) 1) = Some (wire ?m, rets', Inr ())"
    by (rule mp [OF spec [OF conjunct1 [OF arrives]]]) simp
  ultimately show ?thesis by (simp add: delivered_def lobby_message_eq carries_payload_def)
qed

section \<open>From the server to the screen\<close>

text \<open>The messages the server handed to \<open>send_message\<close> for one socket.\<close>

definition sent_to :: "socket \<Rightarrow> (socket \<times> Message) list \<Rightarrow> Message list" where
  "sent_to s ms = map snd (filter (\<lambda>(s', m). s' = s) ms)"

lemma receive_nothing: "segments es \<Longrightarrow> stream es = [] \<Longrightarrow> receive_many k es = Some (ms, es') \<Longrightarrow> k = 0"
  by (cases es; cases k) (auto simp: segments_def receive_message_def)

lemma receive_many_sent:
  "segments es \<Longrightarrow> stream es = concat (map wire ms) \<Longrightarrow> \<forall>m \<in> set ms. wf_message m \<Longrightarrow>
   receive_many k es = Some (xs, es') \<Longrightarrow> k \<le> length ms \<and> xs = take k (map delivered ms)"
proof (induction ms arbitrary: es k xs)
  case Nil
  with receive_nothing [of es k xs es'] show ?case by auto
next
  case (Cons m ms)
  from receive_sent [of m es "concat (map wire ms)"] Cons.prems obtain es1 where
    es1: "receive_message es = Returns (Inr (delivered m)) es1" "segments es1" "stream es1 = concat (map wire ms)"
    by auto
  show ?case
  proof (cases k)
    case 0
    with Cons.prems(4) show ?thesis by simp
  next
    case (Suc k')
    with Cons.prems(4) es1(1) obtain xs' where "receive_many k' es1 = Some (xs', es')" "xs = delivered m # xs'"
      by (auto split: Option.bind_splits)
    with Cons.IH [OF es1(2,3)] Cons.prems(3) Suc show ?thesis by auto
  qed
qed

text \<open>A good message becomes an event the user interface handles within bounds.\<close>

lemma good_event:
  assumes "good_message m"
  shows "\<exists>ev. message_to_event True (delivered m) = Some ev \<and> event_wf ev \<and> event_safe ev"
  using assms
  by (cases "msg_type m"; cases "payload m")
    (simp_all add: good_message_def for_client_def message_to_event_def delivered_def carries_payload_def
      wf_message_def texts_end_def event_wf_def event_safe_def wf_GameStatePayload_def wf_GameCommonState_def
      wf_LobbyUpdatePayload_def wf_LobbyGameInfo_def wf_ErrorPayload_def wf_GameOverPayload_def wf_JoinRequestPayload_def)

lemma reports_good: "good_message m \<Longrightarrow> reports (delivered m) ev \<Longrightarrow> event_wf ev \<and> event_safe ev"
  using good_event [of m] by (auto simp: reports_def)

lemma handle_good_events:
  "ui_inv u \<Longrightarrow> \<forall>ev \<in> set evs. event_wf ev \<and> event_safe ev \<Longrightarrow> \<exists>u'. handle_events e evs u = Some u' \<and> ui_inv u'"
proof (induction evs arbitrary: u)
  case (Cons ev evs)
  then obtain u1 where u1: "handle_event e ev u = Some u1"
    using handle_event_defined [of u ev e] by (auto simp: ui_inv_def)
  with inv_event [of u ev e u1] Cons.prems have "ui_inv u1" by simp
  with Cons u1 show ?case by simp
qed simp

text \<open>C2. From the server to the screen. In any run of the server, with the messages for one client on
  the wire in the order they were sent, cut into any segments: while its network thread is running
  and memory lasts, the events it has handed to the user interface are the reports of the first
  messages of the server, complete, in order and nothing else; and the user interface handles them
  without leaving its arrays, whatever state it is in.\<close>

theorem server_news_on_screen:
  assumes "server_run n st" and "n \<le> 2 ^ 32"
    and "segments es" and "stream es = concat (map wire (sent_to s (sent st)))"
    and "network_start a b c es u i p d (Some q) = Some t0" and "queue_open q" and "net_reach True t0 t" and "\<not> ended t"
    and "ui_inv v"
  shows "\<exists>k \<le> length (sent_to s (sent st)).
    list_all2 reports (map delivered (take k (sent_to s (sent st)))) (to_ui t) \<and>
    (\<exists>v'. handle_events e (to_ui t) v = Some v' \<and> ui_inv v')"
proof -
  let ?ms = "sent_to s (sent st)"
  have good: "\<forall>m \<in> set ?ms. good_message m"
    using server_run_inv [OF assms(1,2)] by (auto simp: server_inv_def sent_ok_def sent_to_def)
  then have wf: "\<forall>m \<in> set ?ms. wf_message m" by (simp add: good_message_def)
  have "stream_inv es t" "event_inv True t" using net_reach_inv [OF assms(7,5,6)] by simp_all
  then obtain es' where r: "receive_many (length (received t)) es = Some (received t, es')"
    and l: "list_all2 reports (received t) (to_ui t)"
    using assms(8) by (auto simp: stream_inv_def event_inv_def)
  obtain k where k: "k \<le> length ?ms" "received t = map delivered (take k ?ms)"
    using receive_many_sent [OF assms(3,4) wf r] by (auto simp: take_map)
  have "\<forall>ev \<in> set (to_ui t). event_wf ev \<and> event_safe ev"
  proof
    fix ev assume "ev \<in> set (to_ui t)"
    from list_all2_right [OF l this] obtain m where m: "m \<in> set (received t)" "reports m ev" by auto
    from m(1) have "m \<in> delivered ` set (take k ?ms)" by (simp add: k(2))
    then obtain m' where m': "m' \<in> set ?ms" "m = delivered m'" by (auto dest: in_set_takeD)
    with m(2) good show "event_wf ev \<and> event_safe ev" using reports_good [of m' ev] by simp
  qed
  from handle_good_events [OF assms(9) this] obtain v' where v': "handle_events e (to_ui t) v = Some v' \<and> ui_inv v'"
    by blast
  have "list_all2 reports (map delivered (take k ?ms)) (to_ui t)" using l by (simp add: k(2))
  with k(1) v' show ?thesis by blast
qed

text \<open>A client that asked for the list and got the empty one.\<close>

definition empty_list :: Message where
  "empty_list = \<lparr>msg_type = MSG_LOBBY_UPDATE,
     payload = Lobby_update \<lparr>lu_game_count = 0, lu_games = replicate 10 zero_LobbyGameInfo\<rparr>\<rparr>"

definition idle_queue :: "Message Queue" where
  "idle_queue = waiting_queue\<lparr>tail := 0, cnt := 0\<rparr>"

definition quiet_start :: Net where
  "quiet_start = the (network_start True True (zeros 32, zeros 16) [Data (wire empty_list)]
     (''Anna'' @ zeros 46) (Some (''127.0.0.1'' @ zeros 7)) 8080 True (Some idle_queue))"

definition quiet_net :: Net where
  "quiet_net = the (thread_run (map answers [[16, 32], [], [], []]) quiet_start)"

lemma quiet_started: "network_start True True (zeros 32, zeros 16) [Data (wire empty_list)]
     (''Anna'' @ zeros 46) (Some (''127.0.0.1'' @ zeros 7)) 8080 True (Some idle_queue) = Some quiet_start"
  by (simp add: quiet_start_def network_start_def)

lemma quiet_reach: "net_reach True quiet_start quiet_net"
proof -
  have "thread_run (map answers [[16, 32], [], [], []]) quiet_start \<noteq> None" by code_simp
  then have "thread_run (map answers [[16, 32], [], [], []]) quiet_start = Some quiet_net" by (auto simp: quiet_net_def)
  then show ?thesis by (rule thread_run_reach) (auto simp: answers_def intro: net_reach.start)
qed

lemma quiet_facts: "pc quiet_net = At_loop" "length (to_ui quiet_net) = 1"
  by code_simp+

theorem server_news_on_screen_witness:
  "\<exists>v'. handle_events calm_env (to_ui quiet_net) first_state = Some v' \<and> ui_inv v' \<and> length (to_ui quiet_net) = 1"
proof -
  let ?st = "handle_message calm 5 list_request one_client"
  have "server_run (if creates calm 5 list_request one_client then Suc 0 else 0) ?st"
    by (rule run_message [OF one_client_run]) (use one_client_state(1) in \<open>simp add: connected_def\<close>)
  then have r: "server_run 0 ?st" by (simp add: creates_def list_request_def)
  have l: "lobby_message one_client = empty_list"
    by (simp add: lobby_message_eq open_games_def one_client_state(2) empty_list_def)
  have m: "sent_to 5 (sent ?st) = [empty_list]"
    by (simp add: handle_message_def list_request_def handle_list_game_def l sent_to_def one_client_state(3))
  have wf: "wf_message empty_list" using wf_lobby_message [of one_client] by (simp add: l good_message_def)
  have s: "segments [Data (wire empty_list)]" using wire_nonempty [OF wf] by (simp add: segments_def)
  have q: "queue_open idle_queue" by (simp add: idle_queue_def waiting_queue_def queue_open_def queue_inv_def)
  have n: "\<not> ended quiet_net" by (simp add: ended_def quiet_facts(1))
  have "stream [Data (wire empty_list)] = concat (map wire (sent_to 5 (sent ?st)))" by (simp add: m)
  from server_news_on_screen [OF r _ s this quiet_started q quiet_reach n first_state_inv, of calm_env]
  show ?thesis using quiet_facts(2) by auto
qed

definition news_for :: "socket \<Rightarrow> Server \<Rightarrow> Server \<Rightarrow> UIEvent list" where
  "news_for s st st' = map (\<lambda>m. the (message_to_event True (delivered m))) (sent_to s (drop (length (sent st)) (sent st')))"

text \<open>C4. An accepted join opens the board on both sides. When the server processes the acceptance, the
  messages it sends to the owner and to the waiting client, turned into events and handled by their user
  interfaces, bring both to the same game with the empty board: the owner as X, for whom ENTER
  now sends the first move, the other as O, for whom ENTER sends nothing.\<close>

theorem accepted_join_opens_boards:
  assumes "gm_reach n (game_manager st)" and "n \<le> 2 ^ 32"
    and "find_game (games (game_manager st)) i = Some g" and "waiting_player_socket g = w" and "w \<noteq> -1"
    and "player_x_socket g = x" and "x \<noteq> -1"
    and "jd_game_id p = i" and "jd_accepted p \<noteq> 0"
    and "st' = handle_message e s \<lparr>msg_type = MSG_JOIN_DECISION, payload = Join_decision p\<rparr> st"
    and "ui_inv vx" and "ui_inv vo"
    and "ui_error_message vx ! 0 = NUL" and "ui_error_message vo ! 0 = NUL" and "env_malloc f"
  shows "\<exists>vx' vo'. handle_events f (news_for x st st') vx = Some vx' \<and> handle_events f (news_for w st st') vo = Some vo' \<and>
    ui_screen vx' = SCREEN_IN_GAME \<and> ui_screen vo' = SCREEN_IN_GAME \<and>
    ui_player_role vx' = PLAYER_X \<and> ui_player_role vo' = PLAYER_O \<and>
    board (ui_game_state vx') = empty_board \<and> ui_game_state vo' = (ui_game_state vx')\<lparr>player_role := PLAYER_O\<rparr> \<and>
    handle_keyboard f (Byte LF) vx' = Some (push_cmd MSG_MOVE (Move \<lparr>mv_game_id = i, mv_row = 0, mv_col = 0\<rparr>) vx') \<and>
    handle_keyboard f (Byte LF) vo' = Some vo'"
proof -
  obtain g' :: Game where g': "board (state_data g') = empty_board" "current_turn (state_data g') = PLAYER_X"
    and playing: "\<forall>c \<in> set (clients st'). is_active c \<and> cl_socket c \<in> {x, w} \<longrightarrow>
        is_playing c \<and> current_game_id c = int_of_u32 i"
    and sent: "sent st' = sent st @
      [(x, game_start_message i PLAYER_X), (w, game_start_message i PLAYER_O),
       (x, game_state_message i (state_data g') PLAYER_X ''Game started''),
       (w, game_state_message i (state_data g') PLAYER_O ''Game started'')] @
      map (\<lambda>c. (cl_socket c, lobby_message st')) (filter (\<lambda>c. is_active c \<and> \<not> is_playing c) (clients st'))"
    using acceptance_effect [OF assms(1-5,8,9) assms(6) [symmetric] assms(10)] by blast
  have xw: "x \<noteq> w"
    using manager_inv_game [OF gm_reach_inv [OF assms(1,2)] assms(3)] assms(4,6,7) by (auto simp: seats_ok_def)
  have "sent_to y (map (\<lambda>c. (cl_socket c, lobby_message st')) (filter (\<lambda>c. is_active c \<and> \<not> is_playing c) (clients st'))) = []"
    if "y \<in> {x, w}" for y
    using playing that by (auto simp: sent_to_def filter_empty_conv)
  then have news: "sent_to x (drop (length (sent st)) (sent st')) =
      [game_start_message i PLAYER_X, game_state_message i (state_data g') PLAYER_X ''Game started'']"
    "sent_to w (drop (length (sent st)) (sent st')) =
      [game_start_message i PLAYER_O, game_state_message i (state_data g') PLAYER_O ''Game started'']"
    using xw by (simp_all add: sent sent_to_def)
  have events: "handle_events f (map (\<lambda>m. the (message_to_event True (delivered m)))
      [game_start_message i r, game_state_message i (state_data g') r ''Game started'']) v =
    Some (v\<lparr>ui_cursor_row := 0, ui_cursor_col := 0, ui_current_game_id := i, ui_player_role := r,
      ui_game_state := (state_data g')\<lparr>player_role := r\<rparr>, ui_screen := SCREEN_IN_GAME\<rparr>)" for r v
    by (simp add: message_to_event_def delivered_def carries_payload_def game_start_message_def game_state_message_def
        handle_event_def zero_GameStartPayload_def)
  show ?thesis
    unfolding news_for_def news events
    using g' assms(13-15)
    by (simp add: handle_keyboard_def key_in_game_def place_move_def board_cell_def empty_board_def Let_def
        alloc_message_def push_cmd_def)
qed

theorem accepted_join_opens_boards_witness:
  "\<exists>v. handle_events calm_env (news_for 3
       (server_with [client_on 3 True 0, client_on 4 False (-1)] (manager_after [Create True 3 ''ann'', Join 0 4 ''bob'']))
       (handle_message calm 3 \<lparr>msg_type = MSG_JOIN_DECISION, payload = Join_decision \<lparr>jd_game_id = 0, jd_accepted = 1\<rparr>\<rparr>
         (server_with [client_on 3 True 0, client_on 4 False (-1)] (manager_after [Create True 3 ''ann'', Join 0 4 ''bob'']))))
       first_state = Some v \<and> ui_screen v = SCREEN_IN_GAME \<and> board (ui_game_state v) = empty_board"
proof -
  let ?evs = "[Create True 3 ''ann'', Join 0 4 ''bob'']"
  let ?st = "server_with [client_on 3 True 0, client_on 4 False (-1)] (manager_after ?evs)"
  let ?p = "\<lparr>jd_game_id = 0, jd_accepted = 1\<rparr>"
  have r: "gm_reach 1 (game_manager ?st)" unfolding server_with_simps by (rule runs_reach) code_simp
  have f: "find_game (games (game_manager ?st)) 0 = Some (game_after ?evs)"
    unfolding server_with_simps by (rule game_found) code_simp
  have w: "waiting_player_socket (game_after ?evs) = 4" "player_x_socket (game_after ?evs) = 3" by code_simp+
  have p: "jd_game_id ?p = 0" "jd_accepted ?p \<noteq> 0" by simp_all
  have e: "ui_error_message first_state ! 0 = NUL" "env_malloc calm_env" by code_simp+
  from accepted_join_opens_boards [OF r _ f w(1) _ w(2) _ p refl first_state_inv first_state_inv e(1) e(1) e(2), of calm 3]
  show ?thesis by auto
qed

lemma game_over_text:
  "cstr (ov_message (payload_game_over (payload (game_over_message i w)))) =
     (if w = int_of_GameResult RESULT_DRAW then ''Game ended in a draw!''
      else if w = int_of_Player PLAYER_X then ''Player X wins!'' else ''Player O wins!'')"
  by (simp add: game_over_message_def cstr_snprintf)

text \<open>C35. Each player is told the right result: the message of the end of a game, built for the outcome the
  winner check computed, makes the user interface show the player who won that they won, the other
  that they lost, and both a draw.\<close>

theorem result_told_right:
  assumes "w \<in> {int_of_Player PLAYER_X, int_of_Player PLAYER_O, int_of_GameResult RESULT_DRAW}"
    and "ui_player_role v = PLAYER_X \<or> ui_player_role v = PLAYER_O"
    and "message_to_event True (delivered (game_over_message i w)) = Some ev" and "handle_event e ev v = Some v'"
  shows "ui_screen v' = SCREEN_GAME_OVER \<and>
    result_text v' =
      (if w = int_of_GameResult RESULT_DRAW then ''DRAW! Game over: Game ended in a draw!''
       else (if w = int_of_Player (ui_player_role v) then ''YOU WIN'' else ''YOU LOSE'') @
         (if w = int_of_Player PLAYER_X then ''! Game over: Player X wins!'' else ''! Game over: Player O wins!''))"
proof -
  let ?p = "payload_game_over (payload (game_over_message i w))"
  have ev: "ev = UI_EVENT_GAME_OVER ?p"
    using assms(3) by (simp add: message_to_event_def delivered_def carries_payload_def game_over_message_def)
  have w: "uint (ov_winner ?p) = w" 
    using assms(1) by (auto simp: game_over_message_def int_of_Player_def int_of_GameResult_def)
  have "NUL \<in> set (ov_message ?p)" by (simp add: game_over_message_def snprintf_def Let_def)
  then have v': "v' = v\<lparr>ui_screen := SCREEN_GAME_OVER, ui_last_game_winner := w,
      ui_post_game_message := snprintf (ui_post_game_message v) 128 (''Game over: '' @ cstr (ov_message ?p)),
      ui_disconnected_at := env_time e\<rparr>"
    using assms(4) w by (simp add: ev handle_event_def c_text_def)
  show ?thesis
    using assms(1,2) unfolding v' game_over_text
    by (auto simp: result_text_def cstr_snprintf int_of_Player_def int_of_GameResult_def)
qed

theorem result_told_right_witness:
  "\<exists>ev v'. message_to_event True (delivered (game_over_message 4 1)) = Some ev \<and>
     handle_event calm_env ev playing_state = Some v' \<and> result_text v' = ''YOU LOSE! Game over: Player O wins!''"
proof -
  have i: "int_of_Player PLAYER_O = 1" "int_of_Player PLAYER_X = 0" "int_of_GameResult RESULT_DRAW = 2"
    by (simp_all add: int_of_Player_def int_of_GameResult_def)
  have r: "ui_player_role playing_state = PLAYER_X" by code_simp
  have "map_option (\<lambda>ev. handle_event calm_env ev playing_state \<noteq> None)
      (message_to_event True (delivered (game_over_message 4 1))) = Some True" by code_simp
  then obtain ev v' where e: "message_to_event True (delivered (game_over_message 4 1)) = Some ev"
    "handle_event calm_env ev playing_state = Some v'" by auto
  have "result_text v' = ''YOU LOSE! Game over: Player O wins!''"
    using result_told_right [OF _ _ e] i r by simp
  with e show ?thesis by blast
qed
end
